(* ===== verification/Prelude.thy ===== *)
theory Prelude
  imports
    "HOL-Library.AList"
    "HOL-Library.Char_ord"
    "HOL-Library.List_Lexorder"
    "HOL-Library.Product_Lexorder"
    "HOL-Library.FSet"
begin

text \<open>
  Shared vocabulary of the development: byte strings, insertion-ordered dictionaries, the
  result type of a command (a new state together with either a raised exception or a value),
  and the generic lemmas the component theories use.

  \<^item> A Python \<open>bytes\<close> object is a \<open>string\<close> (a list of 8-bit characters).  Comparison of
    byte strings and of tuples is lexicographic, as in Python.
  \<^item> A Python \<open>dict\<close> is an association list in insertion order: storing under a present key
    keeps its position, a new key goes to the end.  The locale \<open>py_dict\<close> states what the
    rest of the development relies on, and \<open>alist\<close> is its interpretation on the
    association lists of the library.
  \<^item> A Python \<open>set\<close> is an \<open>fset\<close>; its iteration order is a parameter (see \<open>env\<close>).
\<close>

type_synonym bytes = string

named_theorems frame_simps
  \<open>which parts of the state an operation leaves alone\<close>

section \<open>Bytes\<close>

abbreviation ord_char :: "char \<Rightarrow> nat" where
  "ord_char c \<equiv> of_char c"

definition upper_char :: "char \<Rightarrow> char" where
  "upper_char c =
     (if 97 \<le> ord_char c \<and> ord_char c \<le> 122 then char_of (ord_char c - 32) else c)"

definition lower_char :: "char \<Rightarrow> char" where
  "lower_char c =
     (if 65 \<le> ord_char c \<and> ord_char c \<le> 90 then char_of (ord_char c + 32) else c)"

text \<open>\<open>bytes.upper()\<close> and \<open>bytes.lower()\<close> change ASCII letters only.\<close>

definition upper :: "bytes \<Rightarrow> bytes" where
  "upper b = map upper_char b"

definition lower :: "bytes \<Rightarrow> bytes" where
  "lower b = map lower_char b"

definition CR :: char where "CR = CHR 0x0D"
definition LF :: char where "LF = CHR 0x0A"

lemma CR_neq_LF [simp]: "CR \<noteq> LF" "LF \<noteq> CR"
  by (simp_all add: CR_def LF_def)

definition is_digit :: "char \<Rightarrow> bool" where
  "is_digit c \<longleftrightarrow> 48 \<le> ord_char c \<and> ord_char c \<le> 57"

lemma not_digit_CR [simp]: "\<not> is_digit CR" and not_digit_LF [simp]: "\<not> is_digit LF"
  by (simp_all add: is_digit_def CR_def LF_def)

section \<open>Dictionaries\<close>

locale py_dict =
  fixes get :: "'m \<Rightarrow> 'k \<Rightarrow> 'v option"
    and put :: "'k \<Rightarrow> 'v \<Rightarrow> 'm \<Rightarrow> 'm"
    and del :: "'k \<Rightarrow> 'm \<Rightarrow> 'm"
    and keys :: "'m \<Rightarrow> 'k list"
    and inv :: "'m \<Rightarrow> bool"
    and empty :: 'm
  assumes get_empty: "get empty k = None"
    and get_put: "get (put k v m) k' = (if k' = k then Some v else get m k')"
    and get_del: "get (del k m) k' = (if k' = k then None else get m k')"
    and keys_get: "k \<in> set (keys m) \<longleftrightarrow> get m k \<noteq> None"
    and keys_put: "keys (put k v m) = (if k \<in> set (keys m) then keys m else keys m @ [k])"
    and keys_del: "keys (del k m) = filter (\<lambda>k'. k' \<noteq> k) (keys m)"
    and inv_empty: "inv empty"
    and inv_put: "inv m \<Longrightarrow> inv (put k v m)"
    and inv_del: "inv m \<Longrightarrow> inv (del k m)"
    and inv_keys: "inv m \<Longrightarrow> distinct (keys m)"
begin

lemma get_puts:
  "get (fold (\<lambda>(k, v). put k v) kvs m) k =
     (case map_of (rev kvs) k of None \<Rightarrow> get m k | Some v \<Rightarrow> Some v)"
proof (induction kvs rule: rev_induct)
  case Nil
  show ?case by simp
next
  case (snoc kv kvs)
  then show ?case by (cases kv) (auto simp: get_put)
qed

lemma inv_puts: "inv m \<Longrightarrow> inv (fold (\<lambda>(k, v). put k v) kvs m)"
  by (induction kvs arbitrary: m) (auto intro: inv_put)

lemma get_dels: "get (fold del ks m) k = (if k \<in> set ks then None else get m k)"
  by (induction ks arbitrary: m) (auto simp: get_del)

lemma inv_dels: "inv m \<Longrightarrow> inv (fold del ks m)"
  by (induction ks arbitrary: m) (auto intro: inv_del)

lemma keys_dels: "keys (fold del ks m) = filter (\<lambda>k. k \<notin> set ks) (keys m)"
  by (induction ks arbitrary: m) (auto simp: keys_del intro: filter_cong)

lemma put_del_fresh:
  "get m k = None \<Longrightarrow> k' \<noteq> k \<Longrightarrow> get (del k (put k v m)) k' = get m k'"
  by (simp add: get_put get_del)

end

lemma map_of_update: "map_of (AList.update k v m) k' = (if k' = k then Some v else map_of m k')"
  by (simp add: AList.update_conv')

lemma map_of_delete_if: "map_of (AList.delete k m) k' = (if k' = k then None else map_of m k')"
  by (simp add: AList.delete_conv')

lemma keys_update:
  "map fst (AList.update k v m) = (if k \<in> set (map fst m) then map fst m else map fst m @ [k])"
  by (simp add: AList.update_keys)

lemma keys_delete: "map fst (AList.delete k m) = filter (\<lambda>k'. k' \<noteq> k) (map fst m)"
  by (simp add: AList.delete_keys removeAll_filter_not_eq) (metis (mono_tags) eq_commute)

interpretation alist: py_dict map_of AList.update AList.delete "map fst"
  "\<lambda>m. distinct (map fst m)" "[]"
  by unfold_locales
    (auto simp: map_of_update map_of_delete_if keys_update keys_delete map_of_eq_None_iff
      simp del: AList.delete_eq)

lemma map_of_filter_key:
  "map_of (filter (\<lambda>(k, v). P k) m) k = (if P k then map_of m k else None)"
  by (induction m) auto

lemma map_of_filter_distinct:
  "distinct (map fst m) \<Longrightarrow>
   map_of (filter P m) k = (case map_of m k of None \<Rightarrow> None | Some v \<Rightarrow> if P (k, v) then Some v else None)"
  by (induction m) (force simp: map_of_eq_None_iff split: option.splits)+

lemma map_of_map_snd:
  "map_of (map (\<lambda>(k, v). (k, f v)) m) k = map_option f (map_of m k)"
  by (induction m) auto

section \<open>Results\<close>

text \<open>
  A command either raises (\<open>Inl\<close>) or returns (\<open>Inr\<close>), and in both cases leaves a state
  behind: an exception does not roll back what was done before it.
\<close>

type_synonym ('s, 'e, 'a) result = "'s \<times> ('e + 'a)"

fun bindR :: "('s, 'e, 'a) result \<Rightarrow> ('s \<Rightarrow> 'a \<Rightarrow> ('s, 'e, 'b) result) \<Rightarrow> ('s, 'e, 'b) result" where
  "bindR (s, Inl e) f = (s, Inl e)"
| "bindR (s, Inr a) f = f s a"

definition returns :: "'s \<Rightarrow> 'a \<Rightarrow> ('s, 'e, 'a) result" where
  "returns s a = (s, Inr a)"

definition raises :: "'s \<Rightarrow> 'e \<Rightarrow> ('s, 'e, 'a) result" where
  "raises s e = (s, Inl e)"

lemma bindR_returns [simp]: "bindR (returns s a) f = f s a"
  and bindR_raises [simp]: "bindR (raises s e) f = raises s e"
  and fst_returns [simp]: "fst (returns s a) = s"
  and fst_raises [simp]: "fst (raises s e) = s"
  and snd_returns [simp]: "snd (returns s a) = Inr a"
  and snd_raises [simp]: "snd (raises s e) = Inl e"
  by (simp_all add: returns_def raises_def)

lemma returns_eq [simp]: "returns s a = returns s' a' \<longleftrightarrow> s = s' \<and> a = a'"
  and raises_eq [simp]: "raises s e = raises s' e' \<longleftrightarrow> s = s' \<and> e = e'"
  and returns_neq_raises [simp]: "returns s a \<noteq> raises s' e" "raises s' e \<noteq> returns s a"
  by (simp_all add: returns_def raises_def)

lemma result_cases:
  obtains (raised) s e where "p = raises s e" | (returned) s a where "p = returns s a"
  by (cases p; cases "snd p") (auto simp: returns_def raises_def)

lemma bindR_assoc: "bindR (bindR p f) g = bindR p (\<lambda>s a. bindR (f s a) g)"
  by (cases p rule: result_cases) simp_all

lemma bindR_inv:
  assumes "I (fst p)" and "\<And>s a. p = (s, Inr a) \<Longrightarrow> I s \<Longrightarrow> I (fst (f s a))"
  shows "I (fst (bindR p f))"
  using assms by (cases p rule: result_cases) (auto simp: returns_def)

lemma bindR_eq_returns:
  "bindR p f = (s, Inr b) \<longleftrightarrow> (\<exists>s' a. p = (s', Inr a) \<and> f s' a = (s, Inr b))"
  by (cases p rule: result_cases) (auto simp: returns_def raises_def)

lemma map_sum_eq_Inr [simp]: "map_sum f g s = Inr b \<longleftrightarrow> (\<exists>a. s = Inr a \<and> b = g a)"
  and map_sum_eq_Inl [simp]: "map_sum f g s = Inl c \<longleftrightarrow> (\<exists>a. s = Inl a \<and> c = f a)"
  by (cases s; auto)+

section \<open>Generic list facts\<close>

lemma take_drop_window:
  "i \<le> j \<Longrightarrow> j \<le> length xs \<Longrightarrow> take i xs @ take (j - i) (drop i xs) @ drop j xs = xs"
  by (metis append_take_drop_id drop_drop le_add_diff_inverse2)

lemma filter_eq_window:
  assumes "\<forall>k < i. \<not> P (xs ! k)" "\<forall>k. i \<le> k \<and> k < j \<longrightarrow> P (xs ! k)"
    and "\<forall>k. j \<le> k \<and> k < length xs \<longrightarrow> \<not> P (xs ! k)" "i \<le> j" "j \<le> length xs"
  shows "filter P xs = take (j - i) (drop i xs)"
proof -
  have A: "filter P (take i xs) = []" using assms by (auto simp: filter_empty_conv in_set_conv_nth)
  have B: "filter P (take (j - i) (drop i xs)) = take (j - i) (drop i xs)"
    using assms by (auto simp: filter_id_conv in_set_conv_nth)
  have C: "filter P (drop j xs) = []" using assms by (auto simp: filter_empty_conv in_set_conv_nth)
  have "filter P xs = filter P (take i xs @ take (j - i) (drop i xs) @ drop j xs)"
    using assms by (simp only: take_drop_window)
  also have "\<dots> = take (j - i) (drop i xs)" by (simp only: filter_append A B C append_Nil append_Nil2)
  finally show ?thesis .
qed

lemma length_filter_count_list: "length (filter (\<lambda>y. y = x) xs) = count_list xs x"
  by (induction xs) auto

lemma fset_of_list_eq_iff: "fset_of_list xs = fset_of_list ys \<longleftrightarrow> set xs = set ys"
  by (metis fset_inject fset_of_list.rep_eq)

end
