(* ===== verification/Doubles.thy ===== *)
theory Doubles
  imports Complex_Main Prelude "HOL-Library.Log_Nat"
begin

text \<open>
  IEEE binary64 values as Python's \<open>float\<close> uses them, without NaN: the two infinities and the
  finite values, a finite one given by the rational number it stands for.  The sign of a zero
  is dropped: the program compares and prints zeros only, and \<^verbatim>\<open>-0.0 == 0.0\<close> while
  \<^verbatim>\<open>_format_float\<close> prints both as \<open>0\<close>.

  \<open>round_pos\<close> is rounding to 53 significant bits, ties to even, gradual underflow included; it
  is what a Python operation on floats, or the true division of two integers, returns for the
  exact result.
\<close>

datatype double = NegInf | Fin rat | PosInf

instantiation double :: linorder
begin

fun less_eq_double :: "double \<Rightarrow> double \<Rightarrow> bool" where
  "less_eq_double NegInf _ = True"
| "less_eq_double (Fin x) (Fin y) = (x \<le> y)"
| "less_eq_double (Fin x) PosInf = True"
| "less_eq_double (Fin x) NegInf = False"
| "less_eq_double PosInf y = (y = PosInf)"

definition less_double :: "double \<Rightarrow> double \<Rightarrow> bool" where
  "less_double x y \<longleftrightarrow> x \<le> y \<and> \<not> y \<le> x"

instance
proof
  fix x y z :: double
  show "x < y \<longleftrightarrow> x \<le> y \<and> \<not> y \<le> x" by (rule less_double_def)
  show "x \<le> x" by (cases x) auto
  show "x \<le> y \<Longrightarrow> y \<le> z \<Longrightarrow> x \<le> z" by (cases x; cases y; cases z) auto
  show "x \<le> y \<Longrightarrow> y \<le> x \<Longrightarrow> x = y" by (cases x; cases y) auto
  show "x \<le> y \<or> y \<le> x" by (cases x; cases y) auto
qed

end

definition binexp :: "rat \<Rightarrow> int" where
  "binexp q = (if 1 \<le> q then bitlen \<lfloor>q\<rfloor> - 1 else - bitlen (\<lceil>1 / q\<rceil> - 1))"

definition round_half_even :: "rat \<Rightarrow> int" where
  "round_half_even x =
     (let f = \<lfloor>x\<rfloor>; r = x - of_int f
      in if r < 1 / 2 then f else if 1 / 2 < r then f + 1 else if even f then f else f + 1)"

definition round_pos :: "rat \<Rightarrow> rat" where
  "round_pos q =
     (let s = min (52 - binexp q) 1074
      in of_int (round_half_even (q * 2 powi s)) * 2 powi (- s))"

definition true_div :: "int \<Rightarrow> int \<Rightarrow> rat" where
  "true_div n d =
     (let q = of_int n / of_int d in if q = 0 then 0 else if 0 < q then round_pos q else - round_pos (- q))"

lemma round_half_even_ge: "x - 1 / 2 \<le> of_int (round_half_even x)"
  and round_half_even_le: "of_int (round_half_even x) \<le> x + 1 / 2"
  unfolding round_half_even_def Let_def by (auto; linarith)+

lemma round_half_even_le_ceiling: "round_half_even x \<le> \<lceil>x\<rceil>"
  unfolding round_half_even_def Let_def by (auto; linarith)

lemma bitlen_le_33: "0 \<le> n \<Longrightarrow> n < 2 ^ 33 \<Longrightarrow> bitlen n \<le> 33"
  using bitlen_le_iff_power [of n 33] by simp

lemma binexp_le_32: "0 < q \<Longrightarrow> q < 2 ^ 33 \<Longrightarrow> binexp q \<le> 32"
proof -
  assume "0 < q" "q < 2 ^ 33"
  show ?thesis
  proof (cases "1 \<le> q")
    case True
    have "\<lfloor>q\<rfloor> < 2 ^ 33" using \<open>q < 2 ^ 33\<close> by (simp add: floor_less_iff)
    then have "bitlen \<lfloor>q\<rfloor> \<le> 33" using True by (intro bitlen_le_33) auto
    then show ?thesis using True by (simp add: binexp_def)
  next
    case False
    then show ?thesis using bitlen_nonneg [of "\<lceil>1 / q\<rceil> - 1"] by (simp add: binexp_def)
  qed
qed

text \<open>
  Rounding does not move a quotient of nanoseconds by a million across an integer, as long as
  it is below \<open>2 ^ 33\<close>.
\<close>

lemma ceiling_round_pos:
  assumes "0 < q" "q < 2 ^ 33" "q * 10 ^ 6 = of_int k"
  shows "\<lceil>round_pos q\<rceil> = \<lceil>q\<rceil>"
proof -
  define s where "s = min (52 - binexp q) 1074"
  define m where "m = round_half_even (q * 2 powi s)"
  have s: "20 \<le> s" using binexp_le_32 [OF assms(1,2)] by (simp add: s_def)
  have r: "round_pos q = of_int m * 2 powi (- s)"
    by (simp add: round_pos_def Let_def s_def m_def)
  have pos: "0 < (2 powi s :: rat)" by simp
  have unit: "2 powi (- s) * 2 powi s = (1 :: rat)" by (simp add: power_int_minus)
  have upper: "round_pos q \<le> of_int \<lceil>q\<rceil>"
  proof -
    have "q * 2 powi s \<le> of_int (\<lceil>q\<rceil> * 2 ^ nat s)"
      using s by (simp add: power_int_nonneg_exp mult_right_mono)
    then have "\<lceil>q * 2 powi s\<rceil> \<le> \<lceil>q\<rceil> * 2 ^ nat s" by (simp add: ceiling_le_iff)
    then have "m \<le> \<lceil>q\<rceil> * 2 ^ nat s" using round_half_even_le_ceiling m_def by (metis order_trans)
    then have "of_int m \<le> (of_int (\<lceil>q\<rceil> * 2 ^ nat s) :: rat)" by (simp only: of_int_le_iff)
    then have "of_int m \<le> of_int \<lceil>q\<rceil> * (2 powi s :: rat)"
      using s by (simp add: power_int_nonneg_exp)
    then show ?thesis using pos by (simp add: r power_int_minus field_simps)
  qed
  have lower: "of_int \<lceil>q\<rceil> - 1 < round_pos q"
  proof -
    have "q * 2 powi s - 1 / 2 \<le> of_int m" unfolding m_def by (rule round_half_even_ge)
    then have "(q * 2 powi s - 1 / 2) * 2 powi (- s) \<le> of_int m * 2 powi (- s)"
      by (intro mult_right_mono) simp_all
    moreover have "(q * 2 powi s - 1 / 2) * 2 powi (- s) = q * (2 powi (- s) * 2 powi s) - 2 powi (- s) / 2"
      by (simp add: algebra_simps)
    ultimately have "q - 2 powi (- s) / 2 \<le> round_pos q" by (simp only: unit r mult_1_right)
    moreover have "2 powi (- s) \<le> (2 powi (- 20) :: rat)"
      using s by (intro power_int_increasing) auto
    ultimately have a: "q - 1 / 2 ^ 21 \<le> round_pos q" by simp
    have "of_int \<lceil>q\<rceil> - 1 < q" by linarith
    then have "of_int ((\<lceil>q\<rceil> - 1) * 10 ^ 6) < (of_int k :: rat)"
      using assms(3) by simp
    then have "(\<lceil>q\<rceil> - 1) * 10 ^ 6 + 1 \<le> k" by (simp only: of_int_less_iff)
    then have "of_int ((\<lceil>q\<rceil> - 1) * 10 ^ 6 + 1) \<le> (of_int k :: rat)" by (simp only: of_int_le_iff)
    then have "(of_int \<lceil>q\<rceil> - 1) + 1 / 10 ^ 6 \<le> q" using assms(3) by simp
    with a show ?thesis by simp
  qed
  show ?thesis using upper lower by (intro ceiling_unique) auto
qed

lemma ceiling_true_div:
  assumes "0 < n" "n < 2 ^ 33 * 10 ^ 6"
  shows "\<lceil>true_div n (10 ^ 6)\<rceil> = \<lceil>of_int n / (10 ^ 6 :: rat)\<rceil>"
proof -
  have "of_int n < (of_int (2 ^ 33 * 10 ^ 6) :: rat)" using assms(2) by (simp only: of_int_less_iff)
  then have "of_int n / (10 ^ 6 :: rat) < 2 ^ 33" by simp
  then show ?thesis using assms(1) ceiling_round_pos [of "of_int n / 10 ^ 6" n]
    by (simp add: true_div_def)
qed

lemma ceiling_div_int: "0 < d \<Longrightarrow> \<lceil>of_int n / (of_int d :: rat)\<rceil> = - ((- n) div d)"
  using floor_divide_of_int_eq [of "- n" d, where ?'a = rat] by (simp add: ceiling_def)

end
