(* ===== verification/DataStore.thy ===== *)
theory DataStore
  imports Doubles
begin

text \<open>
  \<open>data.py\<close>: the key/value store with lazy expiry.  The record \<open>data\<close> holds the storage
  dictionary (key to value and optional monotonic deadline), the epoch and the write
  generations; it is generic in the type of the stored values.

  \<^item> The two clocks are read once per command: \<open>mono_ns\<close> is \<^verbatim>\<open>time.monotonic_ns()\<close> and
    \<open>wall_ns\<close> is \<^verbatim>\<open>time.time_ns()\<close>.
  \<^item> An operation that can purge expired keys returns the keys it purged, in order: the caller
    runs the \<^verbatim>\<open>on_purge\<close> callback on them (\<open>Server.lift_data\<close>).
  \<^item> \<open>peek\<close> is the abstract store, the live keys with their values and deadlines; every
    operation is characterised by what it does to \<open>peek\<close>, and the locale \<open>keyspace\<close> is the
    contract the command layer relies on.
\<close>

record clock =
  mono_ns :: int
  wall_ns :: int

record 'v entry =
  stored :: 'v
  expires_at :: "int option"

record 'v data =
  storage :: "(bytes \<times> 'v entry) list"
  epoch :: int
  generations :: "(bytes \<times> int) list"

definition Data :: "'v data" where
  "Data = \<lparr>storage = [], epoch = 0, generations = []\<rparr>"

section \<open>Reads\<close>

definition live :: "'c clock_scheme \<Rightarrow> 'v entry \<Rightarrow> bool" where
  "live ck entry = (case expires_at entry of None \<Rightarrow> True | Some t \<Rightarrow> mono_ns ck < t)"

definition data_getitem :: "'c clock_scheme \<Rightarrow> 'v data \<Rightarrow> bytes \<Rightarrow> 'v option" where
  "data_getitem ck d key =
     (case map_of (storage d) key of
        None \<Rightarrow> None
      | Some entry \<Rightarrow> if live ck entry then Some (stored entry) else None)"

definition purge_key :: "bytes \<Rightarrow> 'v data \<Rightarrow> 'v data" where
  "purge_key key d = d\<lparr>storage := AList.delete key (storage d)\<rparr>"

definition data_get :: "'c clock_scheme \<Rightarrow> bytes \<Rightarrow> 'v data \<Rightarrow> 'v data \<times> bytes list \<times> 'v option" where
  "data_get ck key d =
     (case map_of (storage d) key of
        None \<Rightarrow> (d, [], None)
      | Some entry \<Rightarrow>
          if \<not> live ck entry then (purge_key key d, [key], None)
          else (d, [], Some (stored entry)))"

definition data_contains :: "'c clock_scheme \<Rightarrow> 'v data \<Rightarrow> bytes \<Rightarrow> bool" where
  "data_contains ck d key =
     (case map_of (storage d) key of None \<Rightarrow> False | Some entry \<Rightarrow> live ck entry)"

definition dead_keys :: "'c clock_scheme \<Rightarrow> 'v data \<Rightarrow> bytes list" where
  "dead_keys ck d = map fst (filter (\<lambda>(key, entry). \<not> live ck entry) (storage d))"

definition sweep :: "'c clock_scheme \<Rightarrow> 'v data \<Rightarrow> 'v data \<times> bytes list \<times> nat" where
  "sweep ck d = (let dead = dead_keys ck d in (fold purge_key dead d, dead, length dead))"

definition data_iter :: "'c clock_scheme \<Rightarrow> 'v data \<Rightarrow> 'v data \<times> bytes list \<times> bytes list" where
  "data_iter ck d = (case sweep ck d of (d', dead, _) \<Rightarrow> (d', dead, map fst (storage d')))"

definition data_len :: "'c clock_scheme \<Rightarrow> 'v data \<Rightarrow> 'v data \<times> bytes list \<times> nat" where
  "data_len ck d = (case sweep ck d of (d', dead, _) \<Rightarrow> (d', dead, length (storage d')))"

section \<open>Writes\<close>

definition data_clear :: "'v data \<Rightarrow> 'v data" where
  "data_clear d = d\<lparr>storage := [], generations := [], epoch := epoch d + 1\<rparr>"

text \<open>
  A snapshot is a dictionary from keys to a value and an absolute wall-clock deadline.
  \<^verbatim>\<open>_copy_value\<close> duplicates a mutable container; on values it is the identity.
\<close>

definition copy_value :: "'v \<Rightarrow> 'v" where
  "copy_value v = v"

definition snapshot_row :: "'c clock_scheme \<Rightarrow> 'v entry \<Rightarrow> 'v \<times> int option" where
  "snapshot_row ck entry =
     (copy_value (stored entry),
      map_option (\<lambda>t. wall_ns ck + (t - mono_ns ck)) (expires_at entry))"

definition data_snapshot ::
  "'c clock_scheme \<Rightarrow> 'v data \<Rightarrow> 'v data \<times> bytes list \<times> (bytes \<times> ('v \<times> int option)) list" where
  "data_snapshot ck d =
     (let dead = dead_keys ck d;
          out = map (\<lambda>(key, entry). (key, snapshot_row ck entry))
                  (filter (\<lambda>(key, entry). live ck entry) (storage d))
      in (fold purge_key dead d, dead, out))"

text \<open>A persisted row is a pair as above, or a bare value of an older snapshot.\<close>

datatype 'v row = Row 'v "int option" | Legacy 'v

fun restore_row :: "'c clock_scheme \<Rightarrow> bytes \<times> 'v row \<Rightarrow> 'v data \<Rightarrow> 'v data" where
  "restore_row ck (key, item) d =
     (let (v, deadline) = (case item of Row v deadline \<Rightarrow> (v, deadline) | Legacy v \<Rightarrow> (v, None))
      in case deadline of
           None \<Rightarrow> d\<lparr>storage := AList.update key \<lparr>stored = v, expires_at = None\<rparr> (storage d)\<rparr>
         | Some w \<Rightarrow>
             let t = mono_ns ck + (w - wall_ns ck)
             in if t \<le> mono_ns ck then d
                else d\<lparr>storage := AList.update key \<lparr>stored = v, expires_at = Some t\<rparr> (storage d)\<rparr>)"

definition data_restore :: "'c clock_scheme \<Rightarrow> (bytes \<times> 'v row) list \<Rightarrow> 'v data \<Rightarrow> 'v data" where
  "data_restore ck snapshot d = fold (restore_row ck) snapshot d"

definition data_set ::
  "'c clock_scheme \<Rightarrow> bytes \<Rightarrow> 'v \<Rightarrow> int option \<Rightarrow> bool \<Rightarrow> 'v data \<Rightarrow> 'v data" where
  "data_set ck key v wall_deadline_ns keep_ttl d =
     (let entry = map_of (storage d) key;
          t = (if keep_ttl \<and> (case entry of None \<Rightarrow> False | Some e \<Rightarrow> live ck e)
               then (case entry of None \<Rightarrow> None | Some e \<Rightarrow> expires_at e)
               else case wall_deadline_ns of
                      None \<Rightarrow> None
                    | Some w \<Rightarrow> Some (mono_ns ck + (w - wall_ns ck)))
      in d\<lparr>storage := AList.update key \<lparr>stored = v, expires_at = t\<rparr> (storage d)\<rparr>)"

definition data_setitem :: "bytes \<Rightarrow> 'v \<Rightarrow> 'v data \<Rightarrow> 'v data" where
  "data_setitem key v d =
     d\<lparr>storage := AList.update key \<lparr>stored = v, expires_at = None\<rparr> (storage d)\<rparr>"

text \<open>
  A command that mutates the container it got from \<open>get\<close> changes the value of the entry in
  place and leaves the deadline alone.
\<close>

definition data_mutate :: "bytes \<Rightarrow> 'v \<Rightarrow> 'v data \<Rightarrow> 'v data" where
  "data_mutate key v d =
     (case map_of (storage d) key of
        None \<Rightarrow> d
      | Some entry \<Rightarrow> d\<lparr>storage := AList.update key (entry\<lparr>stored := v\<rparr>) (storage d)\<rparr>)"

definition data_generation :: "'v data \<Rightarrow> bytes \<Rightarrow> int" where
  "data_generation d key = (case map_of (generations d) key of None \<Rightarrow> 0 | Some g \<Rightarrow> g)"

definition data_touch :: "bytes \<Rightarrow> 'v data \<Rightarrow> 'v data" where
  "data_touch key d = d\<lparr>generations := AList.update key (data_generation d key + 1) (generations d)\<rparr>"

definition data_is_live :: "'c clock_scheme \<Rightarrow> 'v data \<Rightarrow> bytes \<Rightarrow> bool" where
  "data_is_live ck d key =
     (case map_of (storage d) key of None \<Rightarrow> False | Some entry \<Rightarrow> live ck entry)"

definition data_remove :: "'c clock_scheme \<Rightarrow> bytes \<Rightarrow> 'v data \<Rightarrow> 'v data \<times> int" where
  "data_remove ck key d =
     (case map_of (storage d) key of
        None \<Rightarrow> (d, 0)
      | Some entry \<Rightarrow>
          (d\<lparr>storage := AList.delete key (storage d)\<rparr>, if live ck entry then 1 else 0))"

section \<open>Expiration\<close>

definition data_expire ::
  "'c clock_scheme \<Rightarrow> bytes \<Rightarrow> int \<Rightarrow> 'v data \<Rightarrow> 'v data \<times> bytes list \<times> int" where
  "data_expire ck key expire_secs d =
     (case map_of (storage d) key of
        None \<Rightarrow> (d, [], 0)
      | Some entry \<Rightarrow>
          if \<not> live ck entry then (purge_key key d, [key], 0)
          else if expire_secs \<le> 0 then (d\<lparr>storage := AList.delete key (storage d)\<rparr>, [], 1)
          else (d\<lparr>storage := AList.update key
                   (entry\<lparr>expires_at := Some (mono_ns ck + expire_secs * 10 ^ 9)\<rparr>) (storage d)\<rparr>, [], 1))"

definition data_expire_at ::
  "'c clock_scheme \<Rightarrow> bytes \<Rightarrow> int \<Rightarrow> 'v data \<Rightarrow> 'v data \<times> bytes list \<times> int" where
  "data_expire_at ck key wall_deadline_ns d =
     (case map_of (storage d) key of
        None \<Rightarrow> (d, [], 0)
      | Some entry \<Rightarrow>
          if \<not> live ck entry then (purge_key key d, [key], 0)
          else
            let t = mono_ns ck + (wall_deadline_ns - wall_ns ck)
            in if t \<le> mono_ns ck then (d\<lparr>storage := AList.delete key (storage d)\<rparr>, [], 1)
               else (d\<lparr>storage := AList.update key (entry\<lparr>expires_at := Some t\<rparr>) (storage d)\<rparr>, [], 1))"

text \<open>\<^verbatim>\<open>ceil((expires_at - now) / 1_000_000)\<close>: a true division, so a rounded quotient.\<close>

definition data_ttl_ms :: "'c clock_scheme \<Rightarrow> bytes \<Rightarrow> 'v data \<Rightarrow> 'v data \<times> bytes list \<times> int" where
  "data_ttl_ms ck key d =
     (case map_of (storage d) key of
        None \<Rightarrow> (d, [], -2)
      | Some entry \<Rightarrow>
          (case expires_at entry of
             None \<Rightarrow> (d, [], -1)
           | Some t \<Rightarrow>
               if t \<le> mono_ns ck then (purge_key key d, [key], -2)
               else (d, [], \<lceil>true_div (t - mono_ns ck) (10 ^ 6)\<rceil>)))"

definition data_ttl :: "'c clock_scheme \<Rightarrow> bytes \<Rightarrow> 'v data \<Rightarrow> 'v data \<times> bytes list \<times> int" where
  "data_ttl ck key d =
     (case data_ttl_ms ck key d of
        (d', purged, ms) \<Rightarrow> (d', purged, if ms < 0 then ms else (ms + 500) div 1000))"

definition data_wall_expiry :: "'c clock_scheme \<Rightarrow> bytes \<Rightarrow> 'v data \<Rightarrow> 'v data \<times> bytes list \<times> int" where
  "data_wall_expiry ck key d =
     (case map_of (storage d) key of
        None \<Rightarrow> (d, [], -2)
      | Some entry \<Rightarrow>
          (case expires_at entry of
             None \<Rightarrow> (d, [], -1)
           | Some t \<Rightarrow>
               if t \<le> mono_ns ck then (purge_key key d, [key], -2)
               else (d, [], wall_ns ck + (t - mono_ns ck))))"

definition keyspace_stats ::
  "'c clock_scheme \<Rightarrow> 'v data \<Rightarrow> 'v data \<times> bytes list \<times> (int \<times> int \<times> int)" where
  "keyspace_stats ck d =
     (case sweep ck d of
        (d', dead, _) \<Rightarrow>
          let deadlines = List.map_filter (\<lambda>(key, entry). expires_at entry) (storage d');
              expires = int (length deadlines);
              ttl_sum = sum_list (map (\<lambda>t. t - mono_ns ck) deadlines);
              avg = (if expires \<noteq> 0 then ttl_sum div expires div 1000000 else 0)
          in (d', dead, (int (length (storage d')), expires, avg)))"

text \<open>An expired key is deleted without running the callback here.\<close>

definition data_persist :: "'c clock_scheme \<Rightarrow> bytes \<Rightarrow> 'v data \<Rightarrow> 'v data \<times> int" where
  "data_persist ck key d =
     (case map_of (storage d) key of
        None \<Rightarrow> (d, 0)
      | Some entry \<Rightarrow>
          if \<not> live ck entry then (d\<lparr>storage := AList.delete key (storage d)\<rparr>, 0)
          else if expires_at entry = None then (d, 0)
          else (d\<lparr>storage := AList.update key (entry\<lparr>expires_at := None\<rparr>) (storage d)\<rparr>, 1))"

section \<open>The abstract store\<close>

definition peek :: "'c clock_scheme \<Rightarrow> 'v data \<Rightarrow> bytes \<Rightarrow> ('v \<times> int option) option" where
  "peek ck d key =
     (case map_of (storage d) key of
        None \<Rightarrow> None
      | Some entry \<Rightarrow> if live ck entry then Some (stored entry, expires_at entry) else None)"

definition wf_data :: "'v data \<Rightarrow> bool" where
  "wf_data d \<longleftrightarrow> distinct (map fst (storage d)) \<and> distinct (map fst (generations d))"

named_theorems peek_simps \<open>what an operation does to the abstract store\<close>
named_theorems wf_intros \<open>an operation keeps its component well-formed\<close>

lemma wf_Data [simp]: "wf_data Data"
  by (simp add: wf_data_def Data_def)

lemma peek_Data [simp]: "peek ck Data = (\<lambda>_. None)"
  by (simp add: peek_def Data_def fun_eq_iff)

lemma getitem_peek: "data_getitem ck d key = map_option fst (peek ck d key)"
  by (simp add: data_getitem_def peek_def split: option.splits)

lemma contains_peek: "data_contains ck d key \<longleftrightarrow> peek ck d key \<noteq> None"
  by (simp add: data_contains_def peek_def split: option.splits)

lemma is_live_peek: "data_is_live ck d key \<longleftrightarrow> peek ck d key \<noteq> None"
  by (simp add: data_is_live_def peek_def split: option.splits)

lemma peek_None_cases:
  "peek ck d key = None \<longleftrightarrow>
     (case map_of (storage d) key of None \<Rightarrow> True | Some e \<Rightarrow> \<not> live ck e)"
  by (simp add: peek_def split: option.splits)

lemma peek_storage_delete:
  "peek ck (d\<lparr>storage := AList.delete key (storage d)\<rparr>) = (peek ck d)(key := None)"
  by (auto simp: peek_def fun_eq_iff map_of_delete_if)

lemma peek_storage_update:
  "peek ck (d\<lparr>storage := AList.update key e (storage d)\<rparr>) =
     (peek ck d)(key := if live ck e then Some (stored e, expires_at e) else None)"
  by (auto simp: peek_def fun_eq_iff map_of_update)

lemma peek_purge_key: "peek ck d key = None \<Longrightarrow> peek ck (purge_key key d) = peek ck d"
  by (auto simp: purge_key_def peek_storage_delete)

lemma peek_purge_keys:
  "\<forall>k \<in> set ks. peek ck d k = None \<Longrightarrow> peek ck (fold purge_key ks d) = peek ck d"
  by (induction ks arbitrary: d) (auto simp: peek_purge_key)

lemma storage_purge_keys: "storage (fold purge_key ks d) = fold AList.delete ks (storage d)"
  by (induction ks arbitrary: d) (auto simp: purge_key_def)

lemma purge_keys_frame [frame_simps]:
  "generations (fold purge_key ks d) = generations d" "epoch (fold purge_key ks d) = epoch d"
  by (induction ks arbitrary: d) (auto simp: purge_key_def)

lemma entry_cases:
  obtains (missing) "map_of (storage d) key = None" "peek ck d key = None"
  | (expired) e where "map_of (storage d) key = Some e" "\<not> live ck e" "peek ck d key = None"
  | (present) e where "map_of (storage d) key = Some e" "live ck e"
      "peek ck d key = Some (stored e, expires_at e)"
  by (cases "map_of (storage d) key") (auto simp: peek_def split: if_splits)

lemma data_get_result: "snd (snd (data_get ck key d)) = data_getitem ck d key"
  by (simp add: data_get_def data_getitem_def split: option.splits)

lemma peek_get [peek_simps]: "peek ck (fst (data_get ck key d)) = peek ck d"
  by (auto simp: data_get_def peek_purge_key peek_None_cases split: option.splits)

lemma peek_set [peek_simps]:
  "peek ck (data_set ck key v w keep d) =
     (peek ck d)(key :=
        (if keep \<and> peek ck d key \<noteq> None then Some (v, snd (the (peek ck d key)))
         else case w of
                None \<Rightarrow> Some (v, None)
              | Some w \<Rightarrow>
                  if wall_ns ck < w then Some (v, Some (mono_ns ck + (w - wall_ns ck))) else None))"
  by (auto simp: data_set_def Let_def peek_storage_update live_def peek_def fun_eq_iff
      split: option.splits)

lemma peek_setitem [peek_simps]:
  "peek ck (data_setitem key v d) = (peek ck d)(key \<mapsto> (v, None))"
  by (auto simp: data_setitem_def peek_storage_update live_def)

lemma peek_mutate [peek_simps]:
  "peek ck (data_mutate key v d) =
     (case peek ck d key of None \<Rightarrow> peek ck d | Some (_, t) \<Rightarrow> (peek ck d)(key \<mapsto> (v, t)))"
  by (auto simp: data_mutate_def peek_storage_update live_def peek_def fun_eq_iff map_of_update
      split: option.splits)

lemma peek_touch [peek_simps]: "peek ck (data_touch key d) = peek ck d"
  by (simp add: data_touch_def peek_def fun_eq_iff)

lemma peek_remove [peek_simps]: "peek ck (fst (data_remove ck key d)) = (peek ck d)(key := None)"
  by (auto simp: data_remove_def peek_storage_delete peek_def fun_eq_iff map_of_delete_if
      split: option.splits)

lemma remove_result: "snd (data_remove ck key d) = (if peek ck d key = None then 0 else 1)"
  by (simp add: data_remove_def peek_def split: option.splits)

lemma peek_clear [peek_simps]: "peek ck (data_clear d) = (\<lambda>_. None)"
  by (simp add: data_clear_def peek_def fun_eq_iff)

lemma peek_expire [peek_simps]:
  "peek ck (fst (data_expire ck key secs d)) =
     (case peek ck d key of
        None \<Rightarrow> peek ck d
      | Some (v, _) \<Rightarrow>
          (peek ck d)(key := if secs \<le> 0 then None else Some (v, Some (mono_ns ck + secs * 10 ^ 9))))"
  by (cases rule: entry_cases [of d key ck])
    (simp_all add: data_expire_def peek_storage_update peek_storage_delete peek_purge_key live_def)

lemma expire_result: "snd (snd (data_expire ck key secs d)) = (if peek ck d key = None then 0 else 1)"
  by (simp add: data_expire_def peek_def split: option.splits)

lemma peek_expire_at [peek_simps]:
  "peek ck (fst (data_expire_at ck key w d)) =
     (case peek ck d key of
        None \<Rightarrow> peek ck d
      | Some (v, _) \<Rightarrow>
          (peek ck d)(key := if w \<le> wall_ns ck then None
                              else Some (v, Some (mono_ns ck + (w - wall_ns ck)))))"
  by (cases rule: entry_cases [of d key ck])
    (auto simp: data_expire_at_def Let_def peek_storage_update peek_storage_delete peek_purge_key live_def)

lemma expire_at_result:
  "snd (snd (data_expire_at ck key w d)) = (if peek ck d key = None then 0 else 1)"
  by (simp add: data_expire_at_def peek_def Let_def split: option.splits)

lemma peek_ttl_ms [peek_simps]: "peek ck (fst (data_ttl_ms ck key d)) = peek ck d"
  by (auto simp: data_ttl_ms_def peek_purge_key peek_None_cases live_def split: option.splits)

lemma ttl_ms_result:
  "snd (snd (data_ttl_ms ck key d)) =
     (case peek ck d key of
        None \<Rightarrow> -2
      | Some (_, None) \<Rightarrow> -1
      | Some (_, Some t) \<Rightarrow> \<lceil>true_div (t - mono_ns ck) (10 ^ 6)\<rceil>)"
  by (auto simp: data_ttl_ms_def peek_def live_def split: option.splits)

lemma peek_ttl [peek_simps]: "peek ck (fst (data_ttl ck key d)) = peek ck d"
  using peek_ttl_ms [of ck key d] by (cases "data_ttl_ms ck key d") (simp add: data_ttl_def)

lemma peek_wall_expiry [peek_simps]: "peek ck (fst (data_wall_expiry ck key d)) = peek ck d"
  by (auto simp: data_wall_expiry_def peek_purge_key peek_None_cases live_def split: option.splits)

lemma wall_expiry_result:
  "snd (snd (data_wall_expiry ck key d)) =
     (case peek ck d key of
        None \<Rightarrow> -2
      | Some (_, None) \<Rightarrow> -1
      | Some (_, Some t) \<Rightarrow> wall_ns ck + (t - mono_ns ck))"
  by (auto simp: data_wall_expiry_def peek_def live_def split: option.splits)

lemma peek_persist [peek_simps]:
  "peek ck (fst (data_persist ck key d)) =
     (case peek ck d key of None \<Rightarrow> peek ck d | Some (v, _) \<Rightarrow> (peek ck d)(key \<mapsto> (v, None)))"
  by (cases rule: entry_cases [of d key ck])
    (auto simp: data_persist_def peek_storage_update peek_storage_delete live_def fun_eq_iff)

lemma persist_result:
  "snd (data_persist ck key d) =
     (case peek ck d key of Some (_, Some _) \<Rightarrow> 1 | _ \<Rightarrow> 0)"
  by (auto simp: data_persist_def peek_def split: option.splits)

section \<open>Sweeping\<close>

lemma storage_sweep:
  "wf_data d \<Longrightarrow> storage (fst (sweep ck d)) = filter (\<lambda>(key, entry). live ck entry) (storage d)"
proof -
  assume wf: "wf_data d"
  have dels: "fold AList.delete ks m = filter (\<lambda>(k, v). k \<notin> set ks) m" for ks and m :: "(bytes \<times> 'a entry) list"
    by (induction ks arbitrary: m) (auto simp: AList.delete_eq intro!: filter_cong)
  have "k \<in> set (dead_keys ck d) \<longleftrightarrow> \<not> live ck e" if "(k, e) \<in> set (storage d)" for k e
    using that wf by (auto simp: dead_keys_def wf_data_def image_iff dest: eq_key_imp_eq_value)
  then show ?thesis
    by (auto simp: sweep_def Let_def storage_purge_keys dels intro!: filter_cong)
qed

lemma peek_distinct: "wf_data d \<Longrightarrow> (key, e) \<in> set (storage d) \<Longrightarrow>
    peek ck d key = (if live ck e then Some (stored e, expires_at e) else None)"
  by (simp add: peek_def wf_data_def)

lemma dead_keys_peek: "wf_data d \<Longrightarrow> key \<in> set (dead_keys ck d) \<Longrightarrow> peek ck d key = None"
  by (auto simp: dead_keys_def peek_distinct)

lemma peek_sweep [peek_simps]: "wf_data d \<Longrightarrow> peek ck (fst (sweep ck d)) = peek ck d"
  using peek_purge_keys [of "dead_keys ck d" ck d] dead_keys_peek [of d _ ck]
  by (auto simp: sweep_def Let_def)

lemma iter_keys_result:
  assumes "wf_data d"
  shows "distinct (snd (snd (data_iter ck d)))"
    and "set (snd (snd (data_iter ck d))) = dom (peek ck d)"
proof -
  have keys: "snd (snd (data_iter ck d)) = map fst (filter (\<lambda>(key, entry). live ck entry) (storage d))"
    using storage_sweep [OF assms, of ck] by (auto simp: data_iter_def split: prod.splits)
  have "distinct (map fst (storage d))" using assms by (simp add: wf_data_def)
  then show "distinct (snd (snd (data_iter ck d)))"
    unfolding keys by (rule distinct_map_filter)
  show "set (snd (snd (data_iter ck d))) = dom (peek ck d)"
    unfolding keys using assms
    by (auto simp: peek_distinct image_iff Bex_def) (auto simp: peek_def dest!: map_of_SomeD split: option.splits if_splits)
qed

lemma len_result:
  assumes "wf_data d"
  shows "snd (snd (data_len ck d)) = card (dom (peek ck d))"
proof -
  have "snd (snd (data_len ck d)) = length (snd (snd (data_iter ck d)))"
    by (simp add: data_len_def data_iter_def split: prod.splits)
  then show ?thesis using iter_keys_result [OF assms, of ck] by (metis distinct_card)
qed

section \<open>Well-formedness\<close>

lemma wf_storage_update [wf_intros]:
  "wf_data d \<Longrightarrow> wf_data (d\<lparr>storage := AList.update key e (storage d)\<rparr>)"
  by (simp add: wf_data_def alist.inv_put)

lemma wf_storage_delete [wf_intros]:
  "wf_data d \<Longrightarrow> wf_data (d\<lparr>storage := AList.delete key (storage d)\<rparr>)"
  by (simp add: wf_data_def alist.inv_del)

lemma wf_purge_key [wf_intros]: "wf_data d \<Longrightarrow> wf_data (purge_key key d)"
  by (simp add: purge_key_def wf_storage_delete)

lemma wf_purge_keys [wf_intros]: "wf_data d \<Longrightarrow> wf_data (fold purge_key ks d)"
  by (induction ks arbitrary: d) (auto intro: wf_purge_key)

lemma wf_touch [wf_intros]: "wf_data d \<Longrightarrow> wf_data (data_touch key d)"
  by (simp add: wf_data_def data_touch_def alist.inv_put)

lemma wf_clear [wf_intros]: "wf_data (data_clear d)"
  by (simp add: wf_data_def data_clear_def)

lemma wf_reads [wf_intros]:
  assumes "wf_data d"
  shows "wf_data (fst (data_get ck key d))" "wf_data (fst (sweep ck d))"
    "wf_data (fst (data_iter ck d))" "wf_data (fst (data_len ck d))"
    "wf_data (fst (data_ttl_ms ck key d))" "wf_data (fst (data_ttl ck key d))"
    "wf_data (fst (data_wall_expiry ck key d))" "wf_data (fst (data_snapshot ck d))"
    "wf_data (fst (keyspace_stats ck d))"
  using assms
  by (auto simp: data_get_def sweep_def data_iter_def data_len_def data_ttl_ms_def data_ttl_def
      data_wall_expiry_def data_snapshot_def keyspace_stats_def Let_def wf_purge_key wf_purge_keys
      split: option.splits)

lemma wf_writes [wf_intros]:
  assumes "wf_data d"
  shows "wf_data (data_set ck key v w keep d)" "wf_data (data_setitem key v d)"
    "wf_data (data_mutate key v d)" "wf_data (fst (data_remove ck key d))"
    "wf_data (fst (data_expire ck key secs d))" "wf_data (fst (data_expire_at ck key w' d))"
    "wf_data (fst (data_persist ck key d))"
  using assms
  by (auto simp: data_set_def data_setitem_def data_mutate_def data_remove_def data_expire_def
      data_expire_at_def data_persist_def Let_def wf_purge_key wf_storage_update wf_storage_delete
      split: option.splits)

section \<open>Generations\<close>

lemma generation_touch:
  "data_generation (data_touch key d) k = data_generation d k + (if k = key then 1 else 0)"
  by (simp add: data_generation_def data_touch_def map_of_update)

lemma generation_Data [simp]: "data_generation Data k = 0"
  by (simp add: data_generation_def Data_def)

lemma generation_clear: "data_generation (data_clear d) k = 0"
  by (simp add: data_generation_def data_clear_def)

lemma generations_frame [frame_simps]:
  "generations (fst (data_get ck key d)) = generations d"
  "generations (fst (sweep ck d)) = generations d"
  "generations (fst (data_iter ck d)) = generations d"
  "generations (fst (data_len ck d)) = generations d"
  "generations (fst (data_ttl_ms ck key d)) = generations d"
  "generations (fst (data_ttl ck key d)) = generations d"
  "generations (fst (data_wall_expiry ck key d)) = generations d"
  "generations (data_set ck key v w keep d) = generations d"
  "generations (data_setitem key v d) = generations d"
  "generations (data_mutate key v d) = generations d"
  "generations (fst (data_remove ck key d)) = generations d"
  "generations (fst (data_expire ck key secs d)) = generations d"
  "generations (fst (data_expire_at ck key w' d)) = generations d"
  "generations (fst (data_persist ck key d)) = generations d"
  by (auto simp: data_get_def sweep_def data_iter_def data_len_def data_ttl_ms_def data_ttl_def
      data_wall_expiry_def data_set_def data_setitem_def data_mutate_def data_remove_def
      data_expire_def data_expire_at_def data_persist_def Let_def purge_key_def purge_keys_frame
      split: option.splits)

lemma generation_cong: "generations d = generations d' \<Longrightarrow> data_generation d = data_generation d'"
  by (simp add: data_generation_def fun_eq_iff)

section \<open>Snapshots\<close>

text \<open>The rows of a snapshot as they are read back.\<close>

definition rows_of :: "(bytes \<times> ('v \<times> int option)) list \<Rightarrow> (bytes \<times> 'v row) list" where
  "rows_of out = map (\<lambda>(key, v, deadline). (key, Row v deadline)) out"

lemma peek_restore_other:
  "key \<notin> set (map fst rows) \<Longrightarrow> peek ck (fold (restore_row ck) rows d) key = peek ck d key"
proof (induction rows arbitrary: d)
  case Nil
  then show ?case by simp
next
  case (Cons r rows)
  obtain k item where r: "r = (k, item)" by (cases r)
  have "peek ck (restore_row ck r d) key = peek ck d key"
    using Cons.prems r
    by (auto simp: Let_def peek_storage_update split: row.splits option.splits)
  then show ?case using Cons by simp
qed

lemma peek_restore:
  assumes "distinct (map fst out)" "peek ck d key = None"
  shows "peek ck (data_restore ck (rows_of out) d) key =
    (case map_of out key of
       None \<Rightarrow> None
     | Some (v, None) \<Rightarrow> Some (v, None)
     | Some (v, Some w) \<Rightarrow>
         if wall_ns ck < w then Some (v, Some (mono_ns ck + (w - wall_ns ck))) else None)"
  using assms
proof (induction out arbitrary: d)
  case Nil
  then show ?case by (simp add: data_restore_def rows_of_def)
next
  case (Cons r out)
  obtain k v w where r: "r = (k, v, w)" by (cases r) auto
  let ?d = "restore_row ck (k, Row v w) d"
  have step: "data_restore ck (rows_of (r # out)) d = data_restore ck (rows_of out) ?d"
    by (simp add: data_restore_def rows_of_def r)
  show ?case
  proof (cases "key = k")
    case True
    then have "key \<notin> set (map fst (rows_of out))" using Cons.prems(1)
      by (auto simp: rows_of_def r image_iff)
    then have "peek ck (data_restore ck (rows_of out) ?d) key = peek ck ?d key"
      unfolding data_restore_def by (rule peek_restore_other)
    then show ?thesis using True Cons.prems step
      by (auto simp: r Let_def peek_storage_update live_def split: option.splits)
  next
    case False
    then have "peek ck ?d key = None" using Cons.prems
      by (auto simp: Let_def peek_storage_update split: option.splits)
    then show ?thesis using False Cons step by (simp add: r)
  qed
qed

lemma snapshot_out:
  assumes "wf_data d"
  shows "distinct (map fst (snd (snd (data_snapshot ck d))))"
    and "map_of (snd (snd (data_snapshot ck d))) key =
      map_option (\<lambda>(v, t). (v, map_option (\<lambda>t. wall_ns ck + (t - mono_ns ck)) t)) (peek ck d key)"
proof -
  let ?live = "filter (\<lambda>(key, entry). live ck entry) (storage d)"
  have d: "distinct (map fst (storage d))" using assms by (simp add: wf_data_def)
  have out: "snd (snd (data_snapshot ck d)) = map (\<lambda>(key, entry). (key, snapshot_row ck entry)) ?live"
    by (simp add: data_snapshot_def Let_def)
  have "map fst (map (\<lambda>(key, entry). (key, snapshot_row ck entry)) ?live) = map fst ?live" by auto
  then show "distinct (map fst (snd (snd (data_snapshot ck d))))"
    unfolding out by (simp only: distinct_map_filter [OF d])
  show "map_of (snd (snd (data_snapshot ck d))) key =
      map_option (\<lambda>(v, t). (v, map_option (\<lambda>t. wall_ns ck + (t - mono_ns ck)) t)) (peek ck d key)"
    unfolding out map_of_map_snd using map_of_filter_distinct [OF d, of "\<lambda>(key, entry). live ck entry" key]
    by (auto simp: peek_def snapshot_row_def copy_value_def split: option.splits)
qed

section \<open>The contract of the keyspace\<close>

text \<open>
  What the command layer relies on: a lookup does not change what is visible, a store makes
  its value visible, a removal hides the key and says whether it was visible.
\<close>

locale keyspace =
  fixes view :: "'s \<Rightarrow> bytes \<Rightarrow> 'v option"
    and lookup :: "bytes \<Rightarrow> 's \<Rightarrow> 's \<times> bytes list \<times> 'v option"
    and store :: "bytes \<Rightarrow> 'v \<Rightarrow> 's \<Rightarrow> 's"
    and remove :: "bytes \<Rightarrow> 's \<Rightarrow> 's \<times> int"
    and touch :: "bytes \<Rightarrow> 's \<Rightarrow> 's"
    and invar :: "'s \<Rightarrow> bool"
  assumes lookup_result: "snd (snd (lookup key s)) = view s key"
    and view_lookup: "view (fst (lookup key s)) = view s"
    and view_store: "view (store key v s) = (view s)(key \<mapsto> v)"
    and view_remove: "view (fst (remove key s)) = (view s)(key := None)"
    and remove_count: "snd (remove key s) = (if view s key = None then 0 else 1)"
    and view_touch: "view (touch key s) = view s"
    and invar_lookup: "invar s \<Longrightarrow> invar (fst (lookup key s))"
    and invar_store: "invar s \<Longrightarrow> invar (store key v s)"
    and invar_remove: "invar s \<Longrightarrow> invar (fst (remove key s))"
    and invar_touch: "invar s \<Longrightarrow> invar (touch key s)"
begin

lemma view_stores:
  "view (fold (\<lambda>(key, v) s. touch key (store key v s)) kvs s) = view s ++ map_of (rev kvs)"
  by (induction kvs arbitrary: s) (auto simp: view_store view_touch fun_eq_iff map_add_def split: option.splits)

lemma invar_stores:
  "invar s \<Longrightarrow> invar (fold (\<lambda>(key, v) s. touch key (store key v s)) kvs s)"
  by (induction kvs arbitrary: s) (auto intro: invar_store invar_touch)

lemma view_removes:
  "view (fold (\<lambda>key s. fst (remove key s)) keys s) = (\<lambda>key. if key \<in> set keys then None else view s key)"
  by (induction keys arbitrary: s) (auto simp: view_remove fun_eq_iff)

lemma invar_removes: "invar s \<Longrightarrow> invar (fold (\<lambda>key s. fst (remove key s)) keys s)"
  by (induction keys arbitrary: s) (auto intro: invar_remove)

lemma store_lookup: "snd (snd (lookup key (store key v s))) = Some v"
  by (simp add: lookup_result view_store)

lemma remove_lookup: "snd (snd (lookup key (fst (remove key s)))) = None"
  by (simp add: lookup_result view_remove)

end

lemma data_getitem_peek: "data_getitem ck d key = map_option fst (peek ck d key)"
  by (simp add: data_getitem_def peek_def split: option.splits)

interpretation kv: keyspace "data_getitem ck" "data_get ck" data_setitem "data_remove ck" data_touch wf_data
  for ck
  by unfold_locales
    (auto simp: data_get_result data_getitem_peek fun_eq_iff peek_simps remove_result intro: wf_intros)

section \<open>Properties\<close>

text \<open>
  C4: on the visible part of the store, the operations are those of a map from keys to a value and
  an optional deadline: \<^verbatim>\<open>set\<close> writes the key with the deadline translated to the monotonic
  clock (or kept, or already past), \<^verbatim>\<open>expire\<close> moves or drops a live key, \<^verbatim>\<open>persist\<close>
  clears the deadline, \<^verbatim>\<open>remove\<close> hides the key, \<^verbatim>\<open>get\<close> changes nothing even when it
  purges; the result says whether a live key was there.
\<close>

theorem store_refines_map:
  "peek ck (data_set ck key v w keep d) = (peek ck d)(key :=
      (case (keep, peek ck d key) of
         (True, Some (_, t)) \<Rightarrow> Some (v, t)
       | _ \<Rightarrow> (case w of
                 None \<Rightarrow> Some (v, None)
               | Some w \<Rightarrow> if wall_ns ck < w then Some (v, Some (mono_ns ck + (w - wall_ns ck))) else None)))
   \<and> peek ck (fst (data_get ck key d)) = peek ck d
   \<and> snd (snd (data_get ck key d)) = map_option fst (peek ck d key)
   \<and> peek ck (fst (data_remove ck key d)) = (peek ck d)(key := None)
   \<and> snd (data_remove ck key d) = of_bool (peek ck d key \<noteq> None)
   \<and> peek ck (fst (data_expire ck key secs d)) = (peek ck d)(key :=
      (case peek ck d key of
         Some (v, _) \<Rightarrow> if 0 < secs then Some (v, Some (mono_ns ck + secs * 10 ^ 9)) else None
       | None \<Rightarrow> None))
   \<and> snd (snd (data_expire ck key secs d)) = of_bool (peek ck d key \<noteq> None)
   \<and> peek ck (fst (data_persist ck key d)) = (peek ck d)(key := map_option (\<lambda>(v, _). (v, None)) (peek ck d key))
   \<and> peek ck (data_clear d) = Map.empty"
  by (auto simp: peek_simps data_get_result data_getitem_peek remove_result expire_result fun_eq_iff
      split: option.splits bool.splits)

text \<open>What a new process sees of a snapshot.\<close>

lemma restored_snapshot:
  fixes d :: "'v data"
  assumes "wf_data d"
  shows "peek ck' (data_restore ck' (rows_of (snd (snd (data_snapshot ck d)))) Data) key =
    (case peek ck d key of
       None \<Rightarrow> None
     | Some (v, None) \<Rightarrow> Some (v, None)
     | Some (v, Some t) \<Rightarrow>
         let ttl = (t - mono_ns ck) - (wall_ns ck' - wall_ns ck)
         in if 0 < ttl then Some (v, Some (mono_ns ck' + ttl)) else None)"
proof -
  have "peek ck' (Data :: 'v data) key = None" by (simp add: peek_def Data_def)
  from peek_restore [OF snapshot_out(1) [OF assms, of ck] this] show ?thesis
    by (auto simp: snapshot_out(2) [OF assms] Let_def algebra_simps split: option.splits)
qed

definition demo_data :: "bytes data" where
  "demo_data = \<lparr>storage = [(''a'', \<lparr>stored = ''1'', expires_at = None\<rparr>),
                          (''b'', \<lparr>stored = ''2'', expires_at = Some 5000000\<rparr>)],
               epoch = 0, generations = []\<rparr>"

definition demo_clock :: clock where
  "demo_clock = \<lparr>mono_ns = 100, wall_ns = 7000\<rparr>"

text \<open>
  \<^verbatim>\<open>PTTL\<close> is the remaining time rounded up to the millisecond, although it is computed by
  a floating-point division (exact for a deadline up to 99 days away), and \<^verbatim>\<open>TTL\<close> is the
  nearest second.
\<close>

theorem ttl_bounds:
  assumes "peek ck d key = Some (v, Some t)" "t - mono_ns ck < 2 ^ 33 * 10 ^ 6"
  defines "ms \<equiv> snd (snd (data_ttl_ms ck key d))"
  shows "10 ^ 6 * (ms - 1) < t - mono_ns ck \<and> t - mono_ns ck \<le> 10 ^ 6 * ms \<and> 0 < ms
    \<and> \<bar>1000 * snd (snd (data_ttl ck key d)) - ms\<bar> \<le> 500"
proof -
  have pos: "0 < t - mono_ns ck"
    using assms(1) by (auto simp: peek_def live_def split: option.splits if_splits)
  have ms: "ms = \<lceil>rat_of_int (t - mono_ns ck) / 10 ^ 6\<rceil>"
    unfolding ms_def using assms(1,2) pos ceiling_true_div [of "t - mono_ns ck"]
    by (simp add: ttl_ms_result)
  have "rat_of_int ms - 1 < rat_of_int (t - mono_ns ck) / 10 ^ 6"
    "rat_of_int (t - mono_ns ck) / 10 ^ 6 \<le> rat_of_int ms"
    unfolding ms using ceiling_correct by blast+
  then have "of_int (10 ^ 6 * (ms - 1)) < (of_int (t - mono_ns ck) :: rat)"
    "(of_int (t - mono_ns ck) :: rat) \<le> of_int (10 ^ 6 * ms)"
    by (simp_all add: field_simps)
  then have b: "10 ^ 6 * (ms - 1) < t - mono_ns ck" "t - mono_ns ck \<le> 10 ^ 6 * ms"
    by (simp_all only: of_int_less_iff of_int_le_iff)
  have ttl: "snd (snd (data_ttl ck key d)) = (if ms < 0 then ms else (ms + 500) div 1000)"
    unfolding ms_def by (cases "data_ttl_ms ck key d") (simp add: data_ttl_def)
  have "0 < ms" using b pos by simp
  moreover from this have "\<bar>1000 * snd (snd (data_ttl ck key d)) - ms\<bar> \<le> 500"
    unfolding ttl abs_le_iff by (simp del: distrib_left_numeral) linarith
  ultimately show ?thesis using b by simp
qed

theorem ttl_bounds_witness:
  "snd (snd (data_ttl_ms demo_clock ''b'' demo_data)) = 5"
proof -
  have "peek demo_clock demo_data ''b'' = Some (''2'', Some 5000000)"
    by (simp add: peek_def demo_data_def demo_clock_def live_def)
  from ttl_bounds [OF this] show ?thesis by (simp add: demo_clock_def)
qed

end
