(* ===== verification/ZSetContainer.thy ===== *)
theory ZSetContainer
  imports Prelude "HOL-Library.List_Lexorder" "HOL-Library.Char_ord" "HOL-Library.Product_Lexorder"
begin

text \<open>
  \<open>zset.py\<close>: the sorted-set container, a dictionary from members to scores beside a list of
  \<open>(score, member)\<close> pairs kept in order with \<^verbatim>\<open>bisect\<close>.  The scores are generic: any linear
  order.  Bytes are ordered lexicographically by byte value, pairs lexicographically, as Python's
  bytes and tuples are.

  The binary searches are the loops of \<^verbatim>\<open>bisect\<close>; the invariant \<open>wf_zset\<close> says that the list is the
  strictly sorted graph of the dictionary, and under it every operation is the obvious one on the
  map \<open>zset_map\<close>.
\<close>

section \<open>Binary search\<close>

function bisect_loop :: "('a \<Rightarrow> bool) \<Rightarrow> 'a list \<Rightarrow> nat \<Rightarrow> nat \<Rightarrow> nat" where
  "bisect_loop below a lo hi =
     (if lo < hi then
        let mid = (lo + hi) div 2
        in if below (a ! mid) then bisect_loop below a (mid + 1) hi else bisect_loop below a lo mid
      else lo)"
  by pat_completeness auto
termination
  by (relation "measure (\<lambda>(below, a, lo, hi). hi - lo)") auto

declare bisect_loop.simps [simp del]

definition bisect_left :: "'a list \<Rightarrow> 'k :: linorder \<Rightarrow> ('a \<Rightarrow> 'k) \<Rightarrow> nat" where
  "bisect_left a x key = bisect_loop (\<lambda>y. key y < x) a 0 (length a)"

definition bisect_right :: "'a list \<Rightarrow> 'k :: linorder \<Rightarrow> ('a \<Rightarrow> 'k) \<Rightarrow> nat" where
  "bisect_right a x key = bisect_loop (\<lambda>y. \<not> x < key y) a 0 (length a)"

definition insort :: "'a :: linorder list \<Rightarrow> 'a \<Rightarrow> 'a list" where
  "insort a x = (let i = bisect_right a x id in take i a @ x # drop i a)"

text \<open>The statement \<^verbatim>\<open>del a[i]\<close>, for an index in range.\<close>

definition del_at :: "nat \<Rightarrow> 'a list \<Rightarrow> 'a list" where
  "del_at i a = take i a @ drop (Suc i) a"

lemma bisect_loop_boundary:
  assumes "lo \<le> k" "k \<le> hi" "hi \<le> length a"
    and "\<And>i. i < length a \<Longrightarrow> below (a ! i) \<longleftrightarrow> i < k"
  shows "bisect_loop below a lo hi = k"
  using assms
proof (induction below a lo hi rule: bisect_loop.induct)
  case (1 below a lo hi)
  show ?case
  proof (cases "lo < hi")
    case False
    then show ?thesis using 1(3,4) by (simp add: bisect_loop.simps)
  next
    case True
    define mid where "mid = (lo + hi) div 2"
    have mid: "lo \<le> mid" "mid < hi" "mid < length a" using True 1(5) by (auto simp: mid_def)
    have dec: "below (a ! mid) \<longleftrightarrow> mid < k" using 1(6) [OF mid(3)] .
    show ?thesis
    proof (cases "mid < k")
      case lt: True
      then have "bisect_loop below a (mid + 1) hi = k"
        using 1(1) [OF True mid_def] dec 1(3-6) by simp
      then show ?thesis using True dec lt by (subst bisect_loop.simps) (simp add: mid_def)
    next
      case ge: False
      then have "bisect_loop below a lo mid = k"
        using 1(2) [OF True mid_def] dec 1(3-6) mid by simp
      then show ?thesis using True dec ge by (subst bisect_loop.simps) (simp add: mid_def)
    qed
  qed
qed

lemma bisect_loop_takeWhile:
  assumes "sorted_wrt (\<lambda>x y. below y \<longrightarrow> below x) a"
  shows "bisect_loop below a 0 (length a) = length (takeWhile below a)"
proof (rule bisect_loop_boundary)
  fix i assume i: "i < length a"
  let ?k = "length (takeWhile below a)"
  show "below (a ! i) \<longleftrightarrow> i < ?k"
  proof
    assume b: "below (a ! i)"
    show "i < ?k"
    proof (rule ccontr)
      assume "\<not> i < ?k"
      then have k: "?k \<le> i" "?k < length a" using i by auto
      have nb: "\<not> below (a ! ?k)" using k(2) by (rule nth_length_takeWhile)
      then have "?k \<noteq> i" using b by metis
      then have "below (a ! ?k)" using sorted_wrt_nth_less [OF assms, of ?k i] k i b by simp
      with nb show False ..
    qed
  next
    assume "i < ?k"
    then show "below (a ! i)" by (metis nth_mem set_takeWhileD takeWhile_nth)
  qed
qed (auto simp: length_takeWhile_le)

lemma takeWhile_eq_filter_down:
  "sorted_wrt (\<lambda>x y. P y \<longrightarrow> P x) a \<Longrightarrow> takeWhile P a = filter P a"
  by (induction a) (auto simp: filter_empty_conv)

lemma bisect_left_eq:
  "sorted (map key a) \<Longrightarrow> bisect_left a x key = length (filter (\<lambda>y. key y < x) a)"
  unfolding bisect_left_def
  by (subst bisect_loop_takeWhile, simp add: sorted_wrt_map,
      erule sorted_wrt_mono_rel [rotated], force, subst takeWhile_eq_filter_down)
    (auto simp: sorted_wrt_map elim: sorted_wrt_mono_rel [rotated])

lemma bisect_right_eq:
  "sorted (map key a) \<Longrightarrow> bisect_right a x key = length (filter (\<lambda>y. key y \<le> x) a)"
  unfolding bisect_right_def not_less
  by (subst bisect_loop_takeWhile, simp add: sorted_wrt_map,
      erule sorted_wrt_mono_rel [rotated], force, subst takeWhile_eq_filter_down)
    (auto simp: sorted_wrt_map elim: sorted_wrt_mono_rel [rotated])

text \<open>Cutting a sorted list at a bisection point.\<close>

lemma take_filter_down:
  "sorted_wrt (\<lambda>x y. P y \<longrightarrow> P x) a \<Longrightarrow> take (length (filter P a)) a = filter P a"
  by (metis takeWhile_eq_filter_down takeWhile_eq_take)

lemma drop_filter_down:
  "sorted_wrt (\<lambda>x y. P y \<longrightarrow> P x) a \<Longrightarrow> drop (length (filter P a)) a = filter (\<lambda>x. \<not> P x) a"
proof (induction a)
  case (Cons x a)
  then show ?case by (cases "P x") (auto simp: filter_empty_conv intro!: filter_True [symmetric])
qed simp

section \<open>The ordered list of pairs\<close>

text \<open>
  What the container needs of its list: insertion and deletion by binary search keep it strictly
  ordered and do what they should to the set of its elements, and the bisection point of an
  element is the number of smaller ones.
\<close>

locale ordered_index =
  fixes ins del_elem :: "'a :: linorder \<Rightarrow> 't \<Rightarrow> 't"
    and pos :: "'a \<Rightarrow> 't \<Rightarrow> nat"
    and elems :: "'t \<Rightarrow> 'a set"
    and ordered :: "'t \<Rightarrow> bool"
  assumes ordered_ins: "ordered t \<Longrightarrow> x \<notin> elems t \<Longrightarrow> ordered (ins x t)"
    and elems_ins: "ordered t \<Longrightarrow> x \<notin> elems t \<Longrightarrow> elems (ins x t) = insert x (elems t)"
    and ordered_del: "ordered t \<Longrightarrow> x \<in> elems t \<Longrightarrow> ordered (del_elem x t)"
    and elems_del: "ordered t \<Longrightarrow> x \<in> elems t \<Longrightarrow> elems (del_elem x t) = elems t - {x}"
    and pos_card: "ordered t \<Longrightarrow> pos x t = card {y \<in> elems t. y < x}"
begin

lemma elems_move:
  "ordered t \<Longrightarrow> x \<in> elems t \<Longrightarrow> y \<notin> elems t \<Longrightarrow>
    ordered (ins y (del_elem x t)) \<and> elems (ins y (del_elem x t)) = insert y (elems t - {x})"
  by (simp add: ordered_ins ordered_del elems_ins elems_del)

lemma pos_mono: "ordered t \<Longrightarrow> finite (elems t) \<Longrightarrow> x \<le> y \<Longrightarrow> pos x t \<le> pos y t"
  by (auto simp: pos_card intro!: card_mono)

lemma pos_less: "ordered t \<Longrightarrow> finite (elems t) \<Longrightarrow> x \<in> elems t \<Longrightarrow> x < y \<Longrightarrow> pos x t < pos y t"
  by (auto simp: pos_card intro!: psubset_card_mono)

end

lemma strict_sorted_le: "sorted_wrt (<) (a :: 'a :: linorder list) \<Longrightarrow> sorted a"
  by (simp add: strict_sorted_iff)

lemma sorted_down_less: "sorted a \<Longrightarrow> sorted_wrt (\<lambda>y z. z < x \<longrightarrow> y < x) (a :: 'a :: linorder list)"
  by (erule sorted_wrt_mono_rel [rotated]) auto

lemma sorted_down_le: "sorted a \<Longrightarrow> sorted_wrt (\<lambda>y z. z \<le> x \<longrightarrow> y \<le> x) (a :: 'a :: linorder list)"
  by (erule sorted_wrt_mono_rel [rotated]) auto

lemma insort_eq:
  assumes "sorted a"
  shows "insort a x = filter (\<lambda>y. y \<le> x) a @ x # filter (\<lambda>y. x < y) a"
  using assms sorted_down_le [OF assms, of x]
  by (simp add: insort_def Let_def bisect_right_eq take_filter_down drop_filter_down not_le)

lemma del_at_bisect:
  assumes "sorted_wrt (<) a" "x \<in> set a"
  shows "del_at (bisect_left a x id) a = filter (\<lambda>y. y \<noteq> x) a"
proof -
  have s: "sorted a" using assms(1) by (rule strict_sorted_le)
  have "drop (length (filter (\<lambda>y. y < x) a)) a = filter (\<lambda>y. \<not> y < x) a"
    using sorted_down_less [OF s] by (rule drop_filter_down)
  moreover have "filter (\<lambda>y. \<not> y < x) a = x # filter (\<lambda>y. x < y) a"
    using assms by (induction a) (auto simp: filter_id_conv not_less less_le intro!: filter_cong)
  ultimately have "drop (Suc (length (filter (\<lambda>y. y < x) a))) a = filter (\<lambda>y. x < y) a"
    by (metis drop_Suc drop_tl list.sel(3))
  moreover have "filter (\<lambda>y. y < x) a @ filter (\<lambda>y. x < y) a = filter (\<lambda>y. y \<noteq> x) a"
    using assms(1)
  proof (induction a)
    case (Cons z a)
    have "x < z \<Longrightarrow> filter (\<lambda>y. y < x) a = []"
      using Cons.prems by (auto simp: filter_empty_conv)
    then show ?case using Cons by (cases z x rule: linorder_cases) auto
  qed simp
  ultimately show ?thesis
    using s sorted_down_less [OF s, of x]
    by (simp add: del_at_def bisect_left_eq take_filter_down)
qed

interpretation ordered_pairs: ordered_index "\<lambda>x a. insort a x" "\<lambda>x a. del_at (bisect_left a x id) a"
  "\<lambda>x a. bisect_left a x id" set "sorted_wrt (<)"
proof unfold_locales
  fix t :: "'a list" and x :: 'a
  assume t: "sorted_wrt (<) t"
  then have s: "sorted t" by (rule strict_sorted_le)
  show "sorted_wrt (<) (insort t x)" if "x \<notin> set t"
    using t that by (auto simp: insort_eq [OF s] sorted_wrt_append sorted_wrt_filter intro: le_neq_trans)
  show "set (insort t x) = insert x (set t)" by (auto simp: insort_eq [OF s])
  show "sorted_wrt (<) (del_at (bisect_left t x id) t)" "set (del_at (bisect_left t x id) t) = set t - {x}"
    if "x \<in> set t"
    using t that by (auto simp: del_at_bisect sorted_wrt_filter)
  have "distinct t" using t strict_sorted_iff by blast
  then show "bisect_left t x id = card {y \<in> set t. y < x}"
    using s by (simp add: bisect_left_eq distinct_length_filter Int_def conj_commute)
qed

section \<open>The container\<close>

record 's zset =
  scores :: "(bytes \<times> 's) list"
  sorted_pairs :: "('s \<times> bytes) list"

definition zset_empty :: "'s zset" where
  "zset_empty = \<lparr>scores = [], sorted_pairs = []\<rparr>"

definition zset_len :: "'s zset \<Rightarrow> nat" where
  "zset_len z = length (sorted_pairs z)"

definition zset_contains :: "'s zset \<Rightarrow> bytes \<Rightarrow> bool" where
  "zset_contains z member = (map_of (scores z) member \<noteq> None)"

definition zset_score :: "'s zset \<Rightarrow> bytes \<Rightarrow> 's option" where
  "zset_score z member = map_of (scores z) member"

definition zset_rank :: "'s :: linorder zset \<Rightarrow> bytes \<Rightarrow> nat option" where
  "zset_rank z member =
     (case map_of (scores z) member of
        None \<Rightarrow> None
      | Some score \<Rightarrow> Some (bisect_left (sorted_pairs z) (score, member) id))"

definition zset_pairs :: "'s zset \<Rightarrow> ('s \<times> bytes) list" where
  "zset_pairs z = sorted_pairs z"

definition zset_members :: "'s zset \<Rightarrow> bytes list" where
  "zset_members z = map snd (sorted_pairs z)"

definition zset_add :: "bytes \<Rightarrow> 's :: linorder \<Rightarrow> 's zset \<Rightarrow> 's zset \<times> bool" where
  "zset_add member score z =
     (let current = map_of (scores z) member in
      if current = Some score then (z, False)
      else
        let pairs = (case current of
                       None \<Rightarrow> sorted_pairs z
                     | Some c \<Rightarrow> del_at (bisect_left (sorted_pairs z) (c, member) id) (sorted_pairs z))
        in (z\<lparr>sorted_pairs := insort pairs (score, member),
             scores := AList.update member score (scores z)\<rparr>, True))"

definition zset_of_pairs :: "(bytes \<times> 's :: linorder) list \<Rightarrow> 's zset" where
  "zset_of_pairs pairs = fold (\<lambda>(member, score) z. fst (zset_add member score z)) pairs zset_empty"

definition zset_remove :: "bytes \<Rightarrow> 's :: linorder zset \<Rightarrow> 's zset \<times> bool" where
  "zset_remove member z =
     (case map_of (scores z) member of
        None \<Rightarrow> (z, False)
      | Some score \<Rightarrow>
          (z\<lparr>scores := AList.delete member (scores z),
             sorted_pairs := del_at (bisect_left (sorted_pairs z) (score, member) id) (sorted_pairs z)\<rparr>,
           True))"

definition score_bounds :: "'s :: linorder zset \<Rightarrow> 's \<Rightarrow> bool \<Rightarrow> 's \<Rightarrow> bool \<Rightarrow> nat \<times> nat" where
  "score_bounds z lo lo_open hi hi_open =
     (if lo_open then bisect_right (sorted_pairs z) lo fst else bisect_left (sorted_pairs z) lo fst,
      if hi_open then bisect_left (sorted_pairs z) hi fst else bisect_right (sorted_pairs z) hi fst)"

text \<open>The slice \<^verbatim>\<open>xs[i:j]\<close> with non-negative bounds.\<close>

definition slice :: "nat \<Rightarrow> nat \<Rightarrow> 'a list \<Rightarrow> 'a list" where
  "slice i j xs = drop i (take j xs)"

text \<open>The statement \<^verbatim>\<open>del xs[i:j]\<close>, for \<open>i\<close> at most \<open>j\<close>.\<close>

definition del_slice :: "nat \<Rightarrow> nat \<Rightarrow> 'a list \<Rightarrow> 'a list" where
  "del_slice i j xs = take i xs @ drop j xs"

definition score_pairs :: "'s :: linorder zset \<Rightarrow> 's \<Rightarrow> bool \<Rightarrow> 's \<Rightarrow> bool \<Rightarrow> ('s \<times> bytes) list" where
  "score_pairs z lo lo_open hi hi_open =
     (case score_bounds z lo lo_open hi hi_open of (start, stop) \<Rightarrow> slice start stop (sorted_pairs z))"

definition outside_member :: "bytes option \<Rightarrow> bool \<Rightarrow> bytes option \<Rightarrow> bool \<Rightarrow> bytes \<Rightarrow> bool" where
  "outside_member min_member min_open max_member max_open member =
     ((case min_member of None \<Rightarrow> False | Some m \<Rightarrow> member < m \<or> min_open \<and> member = m) \<or>
      (case max_member of None \<Rightarrow> False | Some m \<Rightarrow> member > m \<or> max_open \<and> member = m))"

definition member_pairs ::
  "'s zset \<Rightarrow> bytes option \<Rightarrow> bool \<Rightarrow> bytes option \<Rightarrow> bool \<Rightarrow> ('s \<times> bytes) list" where
  "member_pairs z min_member min_open max_member max_open =
     filter (\<lambda>(score, member). \<not> outside_member min_member min_open max_member max_open member)
       (sorted_pairs z)"

definition drop_members :: "('s \<times> bytes) list \<Rightarrow> (bytes \<times> 's) list \<Rightarrow> (bytes \<times> 's) list" where
  "drop_members pairs m = fold (\<lambda>(score, member). AList.delete member) pairs m"

definition remove_rank :: "int \<Rightarrow> int \<Rightarrow> 's zset \<Rightarrow> 's zset \<times> int" where
  "remove_rank start stop z =
     (let n = int (length (sorted_pairs z));
          start = (if start < 0 then start + n else start);
          stop = (if stop < 0 then stop + n else stop);
          start = (if start < 0 then 0 else start)
      in if start > stop \<or> start \<ge> n then (z, 0)
         else
           let stop = (if stop \<ge> n then n - 1 else stop);
               i = nat start; j = nat (stop + 1)
           in (z\<lparr>scores := drop_members (slice i j (sorted_pairs z)) (scores z),
                 sorted_pairs := del_slice i j (sorted_pairs z)\<rparr>, stop - start + 1))"

definition remove_score :: "'s :: linorder \<Rightarrow> bool \<Rightarrow> 's \<Rightarrow> bool \<Rightarrow> 's zset \<Rightarrow> 's zset \<times> int" where
  "remove_score lo lo_open hi hi_open z =
     (case score_bounds z lo lo_open hi hi_open of (start, stop) \<Rightarrow>
        if start \<ge> stop then (z, 0)
        else (z\<lparr>scores := drop_members (slice start stop (sorted_pairs z)) (scores z),
                sorted_pairs := del_slice start stop (sorted_pairs z)\<rparr>, int stop - int start))"

fun remove_member_loop ::
  "(bytes \<Rightarrow> bool) \<Rightarrow> ('s \<times> bytes) list \<Rightarrow> ('s \<times> bytes) list \<Rightarrow> (bytes \<times> 's) list \<Rightarrow> int
    \<Rightarrow> ('s \<times> bytes) list \<times> (bytes \<times> 's) list \<times> int" where
  "remove_member_loop outside [] kept m removed = (kept, m, removed)"
| "remove_member_loop outside ((score, member) # rest) kept m removed =
     (if outside member then remove_member_loop outside rest (kept @ [(score, member)]) m removed
      else remove_member_loop outside rest kept (AList.delete member m) (removed + 1))"

definition remove_member ::
  "bytes option \<Rightarrow> bool \<Rightarrow> bytes option \<Rightarrow> bool \<Rightarrow> 's zset \<Rightarrow> 's zset \<times> int" where
  "remove_member min_member min_open max_member max_open z =
     (case remove_member_loop (outside_member min_member min_open max_member max_open)
             (sorted_pairs z) [] (scores z) 0 of
        (kept, m, removed) \<Rightarrow> (z\<lparr>scores := m, sorted_pairs := kept\<rparr>, removed))"

definition zset_copy :: "'s zset \<Rightarrow> 's zset" where
  "zset_copy z = \<lparr>scores = scores z, sorted_pairs = sorted_pairs z\<rparr>"

section \<open>The invariant\<close>

definition zset_map :: "'s zset \<Rightarrow> bytes \<Rightarrow> 's option" where
  "zset_map z = map_of (scores z)"

definition wf_zset :: "'s :: linorder zset \<Rightarrow> bool" where
  "wf_zset z \<longleftrightarrow> distinct (map fst (scores z)) \<and> sorted_wrt (<) (sorted_pairs z)
     \<and> set (sorted_pairs z) = {(s, m). zset_map z m = Some s}"

lemma wf_zset_empty [simp]: "wf_zset zset_empty"
  by (simp add: wf_zset_def zset_empty_def zset_map_def)

lemma zset_map_empty [simp]: "zset_map zset_empty = Map.empty"
  by (simp add: zset_empty_def zset_map_def)

lemma zset_add_map: "zset_map (fst (zset_add member score z)) = (zset_map z)(member \<mapsto> score)"
  by (auto simp: zset_add_def zset_map_def Let_def map_of_update fun_eq_iff)

lemma zset_add_changed: "snd (zset_add member score z) \<longleftrightarrow> zset_map z member \<noteq> Some score"
  by (simp add: zset_add_def zset_map_def Let_def)

lemma wf_zset_add:
  assumes wf: "wf_zset z"
  shows "wf_zset (fst (zset_add member score z))"
proof (cases "zset_map z member = Some score")
  case True
  then show ?thesis using wf by (simp add: zset_add_def zset_map_def Let_def)
next
  case new: False
  have inv: "distinct (map fst (scores z))" "sorted_wrt (<) (sorted_pairs z)"
    and pairs: "set (sorted_pairs z) = {(s, m). zset_map z m = Some s}"
    using wf by (auto simp: wf_zset_def)
  have out: "(score, member) \<notin> set (sorted_pairs z)" using new by (simp add: pairs)
  let ?rest = "case zset_map z member of None \<Rightarrow> sorted_pairs z
     | Some c \<Rightarrow> del_at (bisect_left (sorted_pairs z) (c, member) id) (sorted_pairs z)"
  have z': "fst (zset_add member score z) =
      z\<lparr>sorted_pairs := insort ?rest (score, member), scores := AList.update member score (scores z)\<rparr>"
    using new by (simp add: zset_add_def zset_map_def Let_def)
  have "sorted_wrt (<) (insort ?rest (score, member)) \<and>
      set (insort ?rest (score, member)) = {(s, m). ((zset_map z)(member \<mapsto> score)) m = Some s}"
  proof (cases "zset_map z member")
    case None
    then show ?thesis
      using ordered_pairs.ordered_ins [OF inv(2) out] ordered_pairs.elems_ins [OF inv(2) out]
      by (auto simp: pairs split: if_splits)
  next
    case (Some c)
    then have "(c, member) \<in> set (sorted_pairs z)" by (simp add: pairs)
    from ordered_pairs.elems_move [OF inv(2) this out] show ?thesis
      using Some by (auto simp: pairs split: if_splits)
  qed
  then show ?thesis
    using inv(1) zset_add_map [of member score z] unfolding z'
    by (simp add: wf_zset_def alist.inv_put)
qed

lemma wf_zset_of_pairs: "wf_zset (zset_of_pairs pairs)"
proof -
  have "wf_zset z \<Longrightarrow> wf_zset (fold (\<lambda>(member, score) z. fst (zset_add member score z)) pairs z)" for z
    by (induction pairs arbitrary: z) (auto intro: wf_zset_add)
  then show ?thesis by (simp add: zset_of_pairs_def)
qed

lemma zset_of_pairs_map: "zset_map (zset_of_pairs pairs) = map_of (rev pairs)"
proof -
  have "zset_map (fold (\<lambda>(member, score) z. fst (zset_add member score z)) pairs z) =
      zset_map z ++ map_of (rev pairs)" for z :: "'a zset"
    by (induction pairs arbitrary: z) (auto simp: zset_add_map fun_eq_iff map_add_def split: option.splits)
  then show ?thesis by (simp add: zset_of_pairs_def)
qed

subsection \<open>Dropping pairs\<close>

lemma map_of_drop_members:
  "map_of (drop_members ps m) k = (if k \<in> snd ` set ps then None else map_of m k)"
  by (induction ps arbitrary: m) (auto simp: drop_members_def map_of_delete_if)

lemma distinct_drop_members: "distinct (map fst m) \<Longrightarrow> distinct (map fst (drop_members ps m))"
  by (induction ps arbitrary: m) (auto simp: drop_members_def intro!: alist.inv_del)

lemma wf_zset_drop:
  assumes "wf_zset z" "set ps \<subseteq> set (sorted_pairs z)" "sorted_wrt (<) kept"
    "set kept = set (sorted_pairs z) - set ps"
  shows "wf_zset (z\<lparr>scores := drop_members ps (scores z), sorted_pairs := kept\<rparr>)"
    and "zset_map (z\<lparr>scores := drop_members ps (scores z), sorted_pairs := kept\<rparr>) m =
      (if m \<in> snd ` set ps then None else zset_map z m)"
proof -
  have uniq: "s = s'" if "(s, m) \<in> set ps" "zset_map z m = Some s'" for s s' m
    using that assms(1,2) by (auto simp: wf_zset_def)
  show "zset_map (z\<lparr>scores := drop_members ps (scores z), sorted_pairs := kept\<rparr>) m =
      (if m \<in> snd ` set ps then None else zset_map z m)" for m
    by (simp add: zset_map_def map_of_drop_members)
  then show "wf_zset (z\<lparr>scores := drop_members ps (scores z), sorted_pairs := kept\<rparr>)"
    using assms uniq
    by (auto simp: wf_zset_def distinct_drop_members image_iff Bex_def split: if_splits)
qed

lemma slice_split: "i \<le> j \<Longrightarrow> xs = take i xs @ slice i j xs @ drop j xs"
  by (metis append.assoc append_take_drop_id drop_take le_add_diff_inverse slice_def take_add)

lemma del_slice_set: "i \<le> j \<Longrightarrow> distinct xs \<Longrightarrow> set (del_slice i j xs) = set xs - set (slice i j xs)"
proof -
  assume "i \<le> j" "distinct xs"
  then have "set xs = set (take i xs) \<union> set (slice i j xs) \<union> set (drop j xs)"
    and "distinct (take i xs @ slice i j xs @ drop j xs)"
    using slice_split [of i j xs] by (metis Un_assoc set_append, metis)
  then show ?thesis by (auto simp: del_slice_def)
qed

lemma sorted_del_slice: "i \<le> j \<Longrightarrow> sorted_wrt R xs \<Longrightarrow> sorted_wrt R (del_slice i j xs)"
  using slice_split [of i j xs] unfolding del_slice_def
  by (metis (mono_tags, lifting) Un_iff set_append sorted_wrt_append)

lemma set_slice: "set (slice i j xs) \<subseteq> set xs"
  by (auto simp: slice_def dest: in_set_dropD in_set_takeD)

lemma wf_zset_del_slice:
  assumes "wf_zset z" "i \<le> j"
  shows "wf_zset (z\<lparr>scores := drop_members (slice i j (sorted_pairs z)) (scores z),
                   sorted_pairs := del_slice i j (sorted_pairs z)\<rparr>)"
    and "zset_map (z\<lparr>scores := drop_members (slice i j (sorted_pairs z)) (scores z),
                   sorted_pairs := del_slice i j (sorted_pairs z)\<rparr>) m =
      (if m \<in> snd ` set (slice i j (sorted_pairs z)) then None else zset_map z m)"
proof -
  have "sorted_wrt (<) (sorted_pairs z)" using assms(1) by (simp add: wf_zset_def)
  moreover from this have "distinct (sorted_pairs z)" using strict_sorted_iff by blast
  ultimately have "set (slice i j (sorted_pairs z)) \<subseteq> set (sorted_pairs z)"
    "sorted_wrt (<) (del_slice i j (sorted_pairs z))"
    "set (del_slice i j (sorted_pairs z)) = set (sorted_pairs z) - set (slice i j (sorted_pairs z))"
    using assms(2) by (simp_all add: set_slice sorted_del_slice del_slice_set)
  from wf_zset_drop [OF assms(1) this]
  show "wf_zset (z\<lparr>scores := drop_members (slice i j (sorted_pairs z)) (scores z),
                   sorted_pairs := del_slice i j (sorted_pairs z)\<rparr>)"
    and "zset_map (z\<lparr>scores := drop_members (slice i j (sorted_pairs z)) (scores z),
                   sorted_pairs := del_slice i j (sorted_pairs z)\<rparr>) m =
      (if m \<in> snd ` set (slice i j (sorted_pairs z)) then None else zset_map z m)" by auto
qed

lemma wf_zset_remove:
  assumes wf: "wf_zset z"
  shows "wf_zset (fst (zset_remove member z))"
    and "zset_map (fst (zset_remove member z)) = (zset_map z)(member := None)"
    and "snd (zset_remove member z) \<longleftrightarrow> zset_map z member \<noteq> None"
proof -
  show "zset_map (fst (zset_remove member z)) = (zset_map z)(member := None)"
    by (auto simp: zset_remove_def zset_map_def fun_eq_iff map_of_delete_if split: option.splits)
  show "snd (zset_remove member z) \<longleftrightarrow> zset_map z member \<noteq> None"
    by (simp add: zset_remove_def zset_map_def split: option.splits)
  show "wf_zset (fst (zset_remove member z))"
  proof (cases "zset_map z member")
    case None
    then show ?thesis using wf by (simp add: zset_remove_def zset_map_def)
  next
    case (Some c)
    have s: "sorted_wrt (<) (sorted_pairs z)" using wf by (simp add: wf_zset_def)
    have "(c, member) \<in> set (sorted_pairs z)" using Some wf by (simp add: wf_zset_def)
    from ordered_pairs.ordered_del [OF s this] ordered_pairs.elems_del [OF s this]
    show ?thesis
      using Some wf by (auto simp: wf_zset_def zset_remove_def zset_map_def map_of_delete_if
          alist.inv_del simp del: map_of_eq_Some_iff split: if_splits)
  qed
qed

lemma sorted_scores: "wf_zset z \<Longrightarrow> sorted (map fst (sorted_pairs z))"
  unfolding wf_zset_def sorted_wrt_map
  by (auto elim!: sorted_wrt_mono_rel [rotated] simp: less_prod_def')

lemma slice_window:
  assumes "sorted_wrt (\<lambda>x y. P y \<longrightarrow> P x) xs" "sorted_wrt (\<lambda>x y. Q y \<longrightarrow> Q x) xs"
  shows "slice (length (filter P xs)) (length (filter Q xs)) xs = filter (\<lambda>x. \<not> P x \<and> Q x) xs"
  using assms
proof (induction xs)
  case (Cons x xs)
  have "\<not> P x \<Longrightarrow> filter P xs = []" "\<not> Q x \<Longrightarrow> filter Q xs = []"
    using Cons.prems by (auto simp: filter_empty_conv)
  then show ?case
    using Cons take_filter_down [of Q xs]
    by (cases "P x"; cases "Q x") (auto simp: slice_def filter_empty_conv intro!: filter_cong)
qed (simp add: slice_def)

text \<open>The window of scores the commands ask for.\<close>

definition in_window :: "'s :: linorder \<Rightarrow> bool \<Rightarrow> 's \<Rightarrow> bool \<Rightarrow> 's \<Rightarrow> bool" where
  "in_window lo lo_open hi hi_open s \<longleftrightarrow>
     (if lo_open then lo < s else lo \<le> s) \<and> (if hi_open then s < hi else s \<le> hi)"

lemma score_pairs_window:
  assumes "wf_zset z"
  shows "score_pairs z lo lo_open hi hi_open =
    filter (\<lambda>(s, m). in_window lo lo_open hi hi_open s) (sorted_pairs z)"
proof -
  let ?P = "\<lambda>p :: 'a \<times> bytes. if lo_open then fst p \<le> lo else fst p < lo"
  let ?Q = "\<lambda>p :: 'a \<times> bytes. if hi_open then fst p < hi else fst p \<le> hi"
  have s: "sorted (map fst (sorted_pairs z))" using assms by (rule sorted_scores)
  then have w: "sorted_wrt (\<lambda>p q. fst p \<le> fst q) (sorted_pairs z)" by (simp add: sorted_wrt_map)
  have down: "sorted_wrt (\<lambda>x y. ?P y \<longrightarrow> ?P x) (sorted_pairs z)"
    "sorted_wrt (\<lambda>x y. ?Q y \<longrightarrow> ?Q x) (sorted_pairs z)"
    by (rule sorted_wrt_mono_rel [OF _ w], auto)+
  have "score_bounds z lo lo_open hi hi_open =
      (length (filter ?P (sorted_pairs z)), length (filter ?Q (sorted_pairs z)))"
    by (simp add: score_bounds_def bisect_left_eq [OF s] bisect_right_eq [OF s])
  then show ?thesis
    unfolding score_pairs_def using slice_window [OF down]
    by (auto simp: in_window_def intro!: filter_cong)
qed

lemma zset_rank_card:
  assumes "wf_zset z"
  shows "zset_rank z member = map_option
    (\<lambda>score. card {(s, m). zset_map z m = Some s \<and> (s, m) < (score, member)}) (zset_map z member)"
proof -
  have "sorted_wrt (<) (sorted_pairs z)" using assms by (simp add: wf_zset_def)
  from ordered_pairs.pos_card [OF this] show ?thesis
    using assms unfolding wf_zset_def
    by (auto simp: zset_rank_def zset_map_def split: option.splits intro!: arg_cong [where f = card])
qed

lemma zset_len_card:
  assumes "wf_zset z"
  shows "zset_len z = card (dom (zset_map z))"
proof -
  have s: "sorted_wrt (<) (sorted_pairs z)" "set (sorted_pairs z) = {(s, m). zset_map z m = Some s}"
    using assms by (auto simp: wf_zset_def)
  have "snd ` set (sorted_pairs z) = dom (zset_map z)" by (force simp: s(2))
  moreover have "inj_on snd (set (sorted_pairs z))" by (auto simp: s(2) inj_on_def)
  moreover have "distinct (sorted_pairs z)" using s(1) strict_sorted_iff by blast
  ultimately show ?thesis by (metis card_image distinct_card zset_len_def)
qed

lemma remove_rank_window:
  fixes z :: "'s :: linorder zset" and start stop :: int
  defines "n \<equiv> int (length (sorted_pairs z))"
  defines "i \<equiv> max 0 (if start < 0 then start + n else start)"
    and "j \<equiv> min (n - 1) (if stop < 0 then stop + n else stop)"
  assumes wf: "wf_zset z"
  shows "wf_zset (fst (remove_rank start stop z))"
    and "sorted_pairs (fst (remove_rank start stop z)) =
      take (nat i) (sorted_pairs z) @ drop (max (nat i) (nat (j + 1))) (sorted_pairs z)"
    and "snd (remove_rank start stop z) = max 0 (j - i + 1)"
proof -
  have cut: "remove_rank start stop z =
    (if j < i then (z, 0)
     else (z\<lparr>scores := drop_members (slice (nat i) (nat (j + 1)) (sorted_pairs z)) (scores z),
             sorted_pairs := del_slice (nat i) (nat (j + 1)) (sorted_pairs z)\<rparr>, j - i + 1))"
    by (auto simp: remove_rank_def Let_def i_def j_def n_def)
  show "wf_zset (fst (remove_rank start stop z))"
    unfolding cut using wf wf_zset_del_slice(1) [OF wf, of "nat i" "nat (j + 1)"] by auto
  show "snd (remove_rank start stop z) = max 0 (j - i + 1)" unfolding cut by auto
  show "sorted_pairs (fst (remove_rank start stop z)) =
      take (nat i) (sorted_pairs z) @ drop (max (nat i) (nat (j + 1))) (sorted_pairs z)"
  proof (cases "j < i")
    case True
    then have "max (nat i) (nat (j + 1)) = nat i" by auto
    then show ?thesis unfolding cut using True by simp
  next
    case False
    then have "max (nat i) (nat (j + 1)) = nat (j + 1)" by auto
    then show ?thesis unfolding cut using False by (simp add: del_slice_def)
  qed
qed

lemma remove_score_window:
  assumes wf: "wf_zset z"
  shows "wf_zset (fst (remove_score lo lo_open hi hi_open z))"
    and "zset_map (fst (remove_score lo lo_open hi hi_open z)) m =
      (case zset_map z m of
         Some s \<Rightarrow> if in_window lo lo_open hi hi_open s then None else Some s
       | None \<Rightarrow> None)"
    and "snd (remove_score lo lo_open hi hi_open z) = int (length (score_pairs z lo lo_open hi hi_open))"
proof -
  obtain i j where b: "score_bounds z lo lo_open hi hi_open = (i, j)" by (cases "score_bounds z lo lo_open hi hi_open")
  let ?ps = "score_pairs z lo lo_open hi hi_open"
  have ps: "?ps = slice i j (sorted_pairs z)" by (simp add: score_pairs_def b)
  have bound: "j \<le> length (sorted_pairs z)"
    using b by (auto simp: score_bounds_def bisect_left_eq bisect_right_eq sorted_scores [OF wf] split: if_splits)
  have cut: "remove_score lo lo_open hi hi_open z =
    (if j \<le> i then (z, 0)
     else (z\<lparr>scores := drop_members ?ps (scores z), sorted_pairs := del_slice i j (sorted_pairs z)\<rparr>,
           int j - int i))"
    by (simp add: remove_score_def b ps)
  show "wf_zset (fst (remove_score lo lo_open hi hi_open z))"
    unfolding cut ps using wf wf_zset_del_slice(1) [OF wf, of i j] by auto
  show "snd (remove_score lo lo_open hi hi_open z) = int (length ?ps)"
    unfolding cut ps using bound by (simp add: slice_def of_nat_diff)
  have mem: "m \<in> snd ` set ?ps \<longleftrightarrow> (\<exists>s. zset_map z m = Some s \<and> in_window lo lo_open hi hi_open s)"
    using wf unfolding score_pairs_window [OF wf] wf_zset_def by force
  have "zset_map (fst (remove_score lo lo_open hi hi_open z)) m = (if m \<in> snd ` set ?ps then None else zset_map z m)"
    using wf_zset_del_slice(2) [OF wf, of i j m] unfolding cut ps by (auto simp: slice_def)
  then show "zset_map (fst (remove_score lo lo_open hi hi_open z)) m =
      (case zset_map z m of
         Some s \<Rightarrow> if in_window lo lo_open hi hi_open s then None else Some s
       | None \<Rightarrow> None)"
    by (auto simp: mem split: option.splits)
qed

lemma remove_member_loop_eq:
  "remove_member_loop outside pairs kept m removed =
     (kept @ filter (\<lambda>(s, k). outside k) pairs,
      drop_members (filter (\<lambda>(s, k). \<not> outside k) pairs) m,
      removed + int (length (filter (\<lambda>(s, k). \<not> outside k) pairs)))"
  by (induction outside pairs kept m removed rule: remove_member_loop.induct) (auto simp: drop_members_def)

lemma remove_member_window:
  assumes wf: "wf_zset z"
  shows "wf_zset (fst (remove_member mn mno mx mxo z))"
    and "zset_map (fst (remove_member mn mno mx mxo z)) m =
      (if outside_member mn mno mx mxo m then zset_map z m else None)"
    and "snd (remove_member mn mno mx mxo z) = int (length (member_pairs z mn mno mx mxo))"
proof -
  let ?ps = "member_pairs z mn mno mx mxo"
  let ?kept = "filter (\<lambda>(s, k). outside_member mn mno mx mxo k) (sorted_pairs z)"
  have eq: "remove_member mn mno mx mxo z =
      (z\<lparr>scores := drop_members ?ps (scores z), sorted_pairs := ?kept\<rparr>, int (length ?ps))"
    by (simp add: remove_member_def remove_member_loop_eq member_pairs_def)
  have "sorted_wrt (<) ?kept" using wf by (simp add: wf_zset_def sorted_wrt_filter)
  note drop = wf_zset_drop [OF wf _ this, of ?ps]
  show "wf_zset (fst (remove_member mn mno mx mxo z))"
    unfolding eq fst_conv by (rule drop(1)) (auto simp: member_pairs_def)
  show "snd (remove_member mn mno mx mxo z) = int (length ?ps)" by (simp add: eq)
  have "m \<in> snd ` set ?ps \<longleftrightarrow> \<not> outside_member mn mno mx mxo m \<and> zset_map z m \<noteq> None"
    using wf by (force simp: member_pairs_def wf_zset_def)
  moreover have "zset_map (fst (remove_member mn mno mx mxo z)) m =
      (if m \<in> snd ` set ?ps then None else zset_map z m)"
    unfolding eq fst_conv by (rule drop(2)) (auto simp: member_pairs_def)
  ultimately show "zset_map (fst (remove_member mn mno mx mxo z)) m =
      (if outside_member mn mno mx mxo m then zset_map z m else None)"
    by auto
qed

section \<open>Properties\<close>

text \<open>
  C7: inserting, updating and removing members keeps the dictionary and the sorted list in
  agreement (the list is strictly sorted and is the graph of the dictionary), acts on the map from
  members to scores as a map update and a map removal, and reports a change of score and a presence
  exactly.
\<close>

theorem zset_writes_refine_map:
  assumes "wf_zset z"
  shows "wf_zset (fst (zset_add member score z)) \<and> wf_zset (fst (zset_remove member z))
    \<and> zset_map (fst (zset_add member score z)) = (zset_map z)(member \<mapsto> score)
    \<and> (snd (zset_add member score z) \<longleftrightarrow> zset_map z member \<noteq> Some score)
    \<and> zset_map (fst (zset_remove member z)) = (zset_map z)(member := None)
    \<and> (snd (zset_remove member z) \<longleftrightarrow> zset_map z member \<noteq> None)"
  using wf_zset_add [OF assms] wf_zset_remove [OF assms] zset_add_map zset_add_changed by blast

definition demo_zset :: "int zset" where
  "demo_zset = zset_of_pairs [(''b'', 2), (''a'', 2), (''c'', 1)]"

lemma wf_demo_zset: "wf_zset demo_zset"
  by (simp add: demo_zset_def wf_zset_of_pairs)

lemma demo_zset_map: "zset_map demo_zset = [''b'' \<mapsto> 2, ''a'' \<mapsto> 2, ''c'' \<mapsto> 1]"
  by (auto simp: demo_zset_def zset_of_pairs_map)

theorem zset_writes_refine_map_witness:
  "wf_zset (fst (zset_add ''b'' 0 demo_zset)) \<and> snd (zset_add ''b'' 0 demo_zset)
    \<and> \<not> snd (zset_add ''a'' 2 demo_zset) \<and> \<not> snd (zset_remove ''x'' demo_zset)"
  using zset_writes_refine_map [OF wf_demo_zset, of "''b''" 0]
    zset_writes_refine_map [OF wf_demo_zset, of "''a''" 2]
    zset_writes_refine_map [OF wf_demo_zset, of "''x''" 0]
  by (simp add: demo_zset_map)

text \<open>
  The binary searches answer the specification.  The rank of a member is the number of pairs
  below its own in the order by score and then member; a score range is the filtered list of pairs,
  in rank order; the length is the number of members.
\<close>

theorem zset_reads_correct:
  assumes "wf_zset z"
  shows "zset_rank z member = map_option
      (\<lambda>score. card {(s, m). zset_map z m = Some s \<and> (s, m) < (score, member)}) (zset_map z member)
    \<and> score_pairs z lo lo_open hi hi_open =
        filter (\<lambda>(s, m). in_window lo lo_open hi hi_open s) (zset_pairs z)
    \<and> sorted_wrt (<) (zset_pairs z)
    \<and> set (zset_pairs z) = {(s, m). zset_map z m = Some s}
    \<and> zset_len z = card (dom (zset_map z))"
  using zset_rank_card [OF assms, of member] score_pairs_window [OF assms, of lo lo_open hi hi_open]
    zset_len_card [OF assms] assms
  by (simp add: wf_zset_def zset_pairs_def)

theorem zset_reads_correct_witness: "zset_len demo_zset = 3"
proof -
  have "dom (zset_map demo_zset) = {''a'', ''b'', ''c''}" by (auto simp: demo_zset_map)
  then show ?thesis using zset_reads_correct [OF wf_demo_zset] by simp
qed

text \<open>
  The range removals remove exactly the range.  By rank, the pairs at positions \<open>start\<close> to
  \<open>stop\<close>, negative positions counting from the end and positions outside the list ignored; by score,
  the members scored in the window; by member, those in the lexicographic window.  Each returns how
  many it removed and keeps the invariant.
\<close>

theorem zset_range_removals:
  assumes "wf_zset z"
  shows "(let n = int (zset_len z);
             i = max 0 (if start < 0 then start + n else start);
             j = min (n - 1) (if stop < 0 then stop + n else stop)
         in zset_pairs (fst (remove_rank start stop z)) =
              take (nat i) (zset_pairs z) @ drop (max (nat i) (nat (j + 1))) (zset_pairs z)
            \<and> snd (remove_rank start stop z) = max 0 (j - i + 1))
    \<and> wf_zset (fst (remove_rank start stop z)) \<and> wf_zset (fst (remove_score lo lo_open hi hi_open z))
      \<and> wf_zset (fst (remove_member mn mno mx mxo z))
    \<and> zset_map (fst (remove_score lo lo_open hi hi_open z)) m =
      (case zset_map z m of
         Some s \<Rightarrow> if in_window lo lo_open hi hi_open s then None else Some s
       | None \<Rightarrow> None)
    \<and> zset_map (fst (remove_member mn mno mx mxo z)) m =
      (if outside_member mn mno mx mxo m then zset_map z m else None)
    \<and> snd (remove_score lo lo_open hi hi_open z) = int (length (score_pairs z lo lo_open hi hi_open))
      \<and> snd (remove_member mn mno mx mxo z) = int (length (member_pairs z mn mno mx mxo))"
  by (simp only: Let_def zset_len_def zset_pairs_def remove_rank_window [OF assms]
      remove_score_window [OF assms] remove_member_window [OF assms] simp_thms)

theorem zset_range_removals_witness:
  "snd (remove_rank 1 (-1) demo_zset) = 2 \<and> zset_map (fst (remove_score 2 False 5 True demo_zset)) ''a'' = None
    \<and> zset_map (fst (remove_member (Some ''b'') True None False demo_zset)) ''c'' = None"
proof -
  have "dom (zset_map demo_zset) = {''a'', ''b'', ''c''}" by (auto simp: demo_zset_map)
  then have "zset_len demo_zset = 3" by (simp add: zset_len_card [OF wf_demo_zset])
  then show ?thesis
    using zset_range_removals [OF wf_demo_zset, where start = 1 and stop = "-1" and m = "''a''"
        and lo = 2 and lo_open = False and hi = 5 and hi_open = True]
      zset_range_removals [OF wf_demo_zset, where m = "''c''" and mn = "Some ''b''" and mno = True
        and mx = None and mxo = False]
    by (simp add: demo_zset_map in_window_def outside_member_def less_char_def)
qed

end
