(* ===== verification/Constants.thy ===== *)
theory Constants
  imports Prelude
begin

text \<open>
  \<open>constants.py\<close>: the fixed replies, the error class with its shared instances, and the
  type of the values a command hands to the protocol encoder.

  A Python \<open>str\<close> that ends up on the wire is kept as the bytes of its UTF-8 encoding; every
  literal below is ASCII.
\<close>

definition SYM_CRLF :: bytes where
  "SYM_CRLF = [CR, LF]"

datatype Response = OK | QUEUED | PONG | NIL | NIL_ARRAY

datatype error = Error (error_class: bytes) (error_message: bytes)

text \<open>
  What a handler can raise: an \<^verbatim>\<open>Error\<close>, or any other Python exception (which the dispatcher
  answers with a fixed internal-error reply).
\<close>

datatype exn = Raised error | Crashed

text \<open>The values \<^verbatim>\<open>protocolBuilder\<close> is called with.\<close>

datatype reply =
    RBytes bytes
  | RInt int
  | RList "reply list"
  | RResponse Response
  | RSimple bytes
  | RError error

abbreviation quote_char :: bytes where "quote_char \<equiv> [CHR 0x27]"

definition err :: "bytes \<Rightarrow> error" where
  "err msg = Error ''ERR'' msg"

definition INVALID_CURSOR :: error where "INVALID_CURSOR = err ''invalid cursor''"
definition NOT_INT :: error where
  "NOT_INT = err ''value is not an integer or out of range''"
definition WRONGTYPE :: error where
  "WRONGTYPE = Error ''WRONGTYPE'' ''Operation against a key holding the wrong kind of value''"
definition SYNTAX :: error where "SYNTAX = err ''syntax error''"
definition NOKEY :: error where "NOKEY = err ''no such key''"
definition INDEX_RANGE :: error where "INDEX_RANGE = err ''index out of range''"
definition RANK_ZERO :: error where
  "RANK_ZERO = err (''RANK can'' @ quote_char @ ''t be zero: use 1 to start from the first match, 2 from ''
     @ ''the second ... or use negative to start from the end of the list'')"
definition COUNT_NEG :: error where
  "COUNT_NEG = err (''COUNT can'' @ quote_char @ ''t be negative'')"
definition MAXLEN_NEG :: error where
  "MAXLEN_NEG = err (''MAXLEN can'' @ quote_char @ ''t be negative'')"
definition RANGE_OFFSET :: error where "RANGE_OFFSET = err ''offset is out of range''"
definition NOT_POSITIVE :: error where
  "NOT_POSITIVE = err ''value is out of range, must be positive''"
definition OVERFLOW :: error where
  "OVERFLOW = err ''increment or decrement would overflow''"
definition STRING_OVERFLOW :: error where
  "STRING_OVERFLOW = err ''string exceeds maximum allowed size (proto-max-bulk-len)''"
definition WRONGTYPE_STRING :: error where
  "WRONGTYPE_STRING = err ''The specified keys must contain string values''"

definition NOT_FLOAT :: error where "NOT_FLOAT = err ''value is not a valid float''"
definition FLOAT_OVERFLOW :: error where "FLOAT_OVERFLOW = err ''increment would produce NaN or Infinity''"
definition BIT_OFFSET :: error where "BIT_OFFSET = err ''bit offset is not an integer or out of range''"
definition BIT_VALUE :: error where "BIT_VALUE = err ''bit is not an integer or out of range''"
definition BIT_ARG :: error where "BIT_ARG = err ''The bit argument must be 1 or 0.''"
definition MIN_MAX_FLOAT :: error where "MIN_MAX_FLOAT = err ''min or max is not a float''"
definition LEX_RANGE :: error where "LEX_RANGE = err ''min or max not valid string range item''"
definition NAN_RESULT :: error where "NAN_RESULT = err ''resulting score is not a number (NaN)''"
definition ZADD_CONFLICT :: error where
  "ZADD_CONFLICT = err ''GT, LT, and/or NX options at the same time are not compatible''"
definition ZADD_XX_NX :: error where
  "ZADD_XX_NX = err ''XX and NX options at the same time are not compatible''"
definition ZADD_INCR_PAIR :: error where
  "ZADD_INCR_PAIR = err ''INCR option supports a single increment-element pair''"
definition LIMIT_NEEDS_BY :: error where
  "LIMIT_NEEDS_BY =
     err ''syntax error, LIMIT is only supported in combination with either BYSCORE or BYLEX''"
definition WITHSCORES_BYLEX :: error where
  "WITHSCORES_BYLEX = err ''syntax error, WITHSCORES not supported in combination with BYLEX''"
definition WEIGHT_FLOAT :: error where "WEIGHT_FLOAT = err ''weight value is not a float''"
definition HASH_NOT_INT :: error where "HASH_NOT_INT = err ''hash value is not an integer''"
definition HASH_NOT_FLOAT :: error where "HASH_NOT_FLOAT = err ''hash value is not a float''"
definition HASH_NAN_OR_INF :: error where "HASH_NAN_OR_INF = err ''value is NaN or Infinity''"

definition BITFIELD_TYPE :: error where
  "BITFIELD_TYPE =
     err ''Invalid bitfield type. Use something like i16 u8. Note that u64 is not supported but i64 is.''"
definition BITFIELD_OVERFLOW :: error where "BITFIELD_OVERFLOW = err ''Invalid OVERFLOW type specified''"
definition BITFIELD_RO_ERROR :: error where
  "BITFIELD_RO_ERROR = err ''BITFIELD_RO only supports the GET subcommand''"

definition no_keys :: "bytes \<Rightarrow> error" where
  "no_keys command =
     err (''at least 1 input key is needed for '' @ quote_char @ command @ quote_char @ '' command'')"

definition arity :: "bytes \<Rightarrow> error" where
  "arity command =
     err (''wrong number of arguments for '' @ quote_char @ command @ quote_char @ '' command'')"

text \<open>
  A raised \<^verbatim>\<open>Error\<close> and a returned value, in the shape every handler uses.
\<close>

abbreviation raise_error :: "'s \<Rightarrow> error \<Rightarrow> ('s, exn, 'a) result" where
  "raise_error s e \<equiv> raises s (Raised e)"

end
