(* ===== verification/Scalars.thy ===== *)
theory Scalars
  imports Constants
begin

text \<open>
  The scalar parsers and printers of \<open>commands/common.py\<close> and the pieces of Python's number
  syntax the program relies on: \<open>string2ll\<close> (redis' strict integer syntax), \<^verbatim>\<open>int(bytes)\<close>
  (Python's lenient one, used by the protocol parser), \<^verbatim>\<open>RE_NUMERIC\<close> with
  \<^verbatim>\<open>int(val, 10)\<close> (the counters), and decimal printing (\<^verbatim>\<open>b"%d"\<close>).
  \<open>None\<close> stands for a \<^verbatim>\<open>ValueError\<close>.
\<close>

definition INT64_MIN :: int where "INT64_MIN = - (2 ^ 63)"
definition INT64_MAX :: int where "INT64_MAX = 2 ^ 63 - 1"

definition digit_val :: "char \<Rightarrow> nat" where
  "digit_val c = ord_char c - 48"

definition digit_char :: "nat \<Rightarrow> char" where
  "digit_char n = char_of (48 + n)"

definition dec_val :: "bytes \<Rightarrow> nat" where
  "dec_val b = foldl (\<lambda>n c. 10 * n + digit_val c) 0 b"

fun show_nat :: "nat \<Rightarrow> bytes" where
  "show_nat n = (if n < 10 then [digit_char n] else show_nat (n div 10) @ [digit_char (n mod 10)])"

declare show_nat.simps [simp del]

definition show_int :: "int \<Rightarrow> bytes" where
  "show_int i = (if i < 0 then CHR ''-'' # show_nat (nat (- i)) else show_nat (nat i))"

definition string2ll :: "bytes \<Rightarrow> int option" where
  "string2ll raw =
     (if raw = [] then None
      else if raw = ''0'' then Some 0
      else
        let negative = (hd raw = CHR ''-'');
            digits = (if negative then tl raw else raw)
        in if digits = [] \<or> hd digits = CHR ''0'' then None
           else if \<not> list_all is_digit digits then None
           else
             let magnitude = int (dec_val digits);
                 v = (if negative then - magnitude else magnitude)
             in if v < INT64_MIN \<or> INT64_MAX < v then None else Some v)"

section \<open>Python's own integer syntax\<close>

text \<open>
  \<^verbatim>\<open>int()\<close> of more than 4300 digits raises \<^verbatim>\<open>ValueError\<close> (CPython's default
  \<^verbatim>\<open>sys.int_info.default_max_str_digits\<close>).
\<close>

definition MAX_STR_DIGITS :: nat where "MAX_STR_DIGITS = 4300"

definition is_space :: "char \<Rightarrow> bool" where
  "is_space c \<longleftrightarrow> ord_char c = 32 \<or> (9 \<le> ord_char c \<and> ord_char c \<le> 13)"

definition strip :: "bytes \<Rightarrow> bytes" where
  "strip b = rev (dropWhile is_space (rev (dropWhile is_space b)))"

fun no_double_underscore :: "bytes \<Rightarrow> bool" where
  "no_double_underscore (c # d # cs) =
     (\<not> (c = CHR ''_'' \<and> d = CHR ''_'') \<and> no_double_underscore (d # cs))"
| "no_double_underscore _ = True"

definition py_int :: "bytes \<Rightarrow> int option" where
  "py_int raw =
     (let b = strip raw;
          signed = (b \<noteq> [] \<and> (hd b = CHR ''-'' \<or> hd b = CHR ''+''));
          body = (if signed then tl b else b);
          digits = filter (\<lambda>c. c \<noteq> CHR ''_'') body
      in if body = [] \<or> hd body = CHR ''_'' \<or> last body = CHR ''_'' \<or> \<not> no_double_underscore body
            \<or> \<not> list_all is_digit digits \<or> MAX_STR_DIGITS < length digits
         then None
         else if signed \<and> hd b = CHR ''-'' then Some (- int (dec_val digits))
         else Some (int (dec_val digits)))"

definition unsigned_part :: "bytes \<Rightarrow> bytes" where
  "unsigned_part v = (if v \<noteq> [] \<and> hd v = CHR ''-'' then tl v else v)"

definition RE_NUMERIC :: "bytes \<Rightarrow> bool" where
  "RE_NUMERIC v \<longleftrightarrow> unsigned_part v \<noteq> [] \<and> list_all is_digit (unsigned_part v)"

text \<open>\<^verbatim>\<open>int(val, 10)\<close> of a byte string that \<open>RE_NUMERIC\<close> matches.\<close>

definition int_of_numeric :: "bytes \<Rightarrow> int option" where
  "int_of_numeric v =
     (if MAX_STR_DIGITS < length (unsigned_part v) then None
      else if v \<noteq> [] \<and> hd v = CHR ''-'' then Some (- int (dec_val (unsigned_part v)))
      else Some (int (dec_val (unsigned_part v))))"

section \<open>Printing and parsing are inverse\<close>

lemma dec_val_Nil [simp]: "dec_val [] = 0"
  and dec_val_snoc [simp]: "dec_val (b @ [c]) = 10 * dec_val b + digit_val c"
  by (simp_all add: dec_val_def)

lemma ord_char_eq_iff: "ord_char c = (ord_char d :: nat) \<longleftrightarrow> c = d"
  by (metis char_of_char)

lemma ord_digit_char: "n < 10 \<Longrightarrow> ord_char (digit_char n) = 48 + n"
  by (simp add: digit_char_def of_char_of)

lemma digit_val_digit_char [simp]: "n < 10 \<Longrightarrow> digit_val (digit_char n) = n"
  and is_digit_digit_char [simp]: "n < 10 \<Longrightarrow> is_digit (digit_char n)"
  by (simp_all add: digit_val_def is_digit_def ord_digit_char)

lemma digit_char_digit_val [simp]: "is_digit c \<Longrightarrow> digit_char (digit_val c) = c"
  by (simp add: digit_char_def digit_val_def is_digit_def)

lemma digit_char_simps [simp]:
  "digit_char 0 = CHR ''0''" "digit_char 1 = CHR ''1''" "digit_char (Suc 0) = CHR ''1''"
  "digit_char 2 = CHR ''2''" "digit_char 3 = CHR ''3''" "digit_char 4 = CHR ''4''"
  "digit_char 5 = CHR ''5''" "digit_char 6 = CHR ''6''" "digit_char 7 = CHR ''7''"
  "digit_char 8 = CHR ''8''" "digit_char 9 = CHR ''9''"
  by code_simp+

lemma digit_val_less: "is_digit c \<Longrightarrow> digit_val c < 10"
  by (auto simp: digit_val_def is_digit_def)

lemma not_digit_minus [simp]: "\<not> is_digit (CHR ''-'')"
  and not_digit_plus [simp]: "\<not> is_digit (CHR ''+'')"
  and not_digit_underscore [simp]: "\<not> is_digit (CHR ''_'')"
  by (simp_all add: is_digit_def)

lemma show_nat_nonempty [simp]: "show_nat n \<noteq> []"
  by (subst show_nat.simps) simp

lemma show_nat_digits: "list_all is_digit (show_nat n)"
  by (induction n rule: show_nat.induct) (subst show_nat.simps, auto)

lemma dec_val_show_nat [simp]: "dec_val (show_nat n) = n"
proof (induction n rule: show_nat.induct)
  case (1 n)
  show ?case
  proof (cases "n < 10")
    case True
    have "dec_val ([] @ [digit_char n]) = n" using True by (simp del: append_Nil)
    then show ?thesis using True by (simp add: show_nat.simps)
  next
    case False
    with 1 have "dec_val (show_nat (n div 10)) = n div 10" by simp
    then have "dec_val (show_nat (n div 10) @ [digit_char (n mod 10)]) = 10 * (n div 10) + n mod 10"
      by simp
    then show ?thesis using False by (simp add: show_nat.simps [of n])
  qed
qed

lemma hd_show_nat: "0 < n \<Longrightarrow> hd (show_nat n) \<noteq> CHR ''0''"
proof (induction n rule: show_nat.induct)
  case (1 n)
  show ?case
  proof (cases "n < 10")
    case True
    then have "ord_char (digit_char n) \<noteq> ord_char (CHR ''0'')"
      using 1(2) by (simp only: ord_digit_char) simp
    then have "digit_char n \<noteq> CHR ''0''" by metis
    then show ?thesis using True by (simp add: show_nat.simps)
  next
    case False
    with 1 have "hd (show_nat (n div 10)) \<noteq> CHR ''0''" by simp
    then show ?thesis using False by (subst show_nat.simps) (simp add: hd_append)
  qed
qed

lemma show_nat_0: "show_nat 0 = ''0''"
  using digit_char_digit_val [of "CHR ''0''"]
  by (subst show_nat.simps) (simp add: digit_val_def is_digit_def)

lemma dec_val_pos:
  "list_all is_digit b \<Longrightarrow> b \<noteq> [] \<Longrightarrow> hd b \<noteq> CHR ''0'' \<Longrightarrow> 0 < dec_val b"
proof (induction b rule: rev_induct)
  case Nil
  then show ?case by simp
next
  case (snoc c b)
  show ?case
  proof (cases "b = []")
    case True
    with snoc.prems have "is_digit c" "c \<noteq> CHR ''0''" by auto
    then have "ord_char c \<noteq> ord_char (CHR ''0'')" by (metis ord_char_eq_iff)
    then have "digit_val c \<noteq> 0" using \<open>is_digit c\<close> by (simp add: digit_val_def is_digit_def)
    then show ?thesis using True dec_val_snoc [of "[]" c] by simp
  next
    case False
    with snoc show ?thesis by simp
  qed
qed

lemma show_nat_dec_val:
  "list_all is_digit b \<Longrightarrow> b \<noteq> [] \<Longrightarrow> hd b \<noteq> CHR ''0'' \<Longrightarrow> show_nat (dec_val b) = b"
proof (induction b rule: rev_induct)
  case Nil
  then show ?case by simp
next
  case (snoc c b)
  from snoc.prems have c: "is_digit c" and b: "list_all is_digit b" by auto
  show ?case
  proof (cases "b = []")
    case True
    then show ?thesis using c dec_val_snoc [of "[]" c]
      by (subst show_nat.simps) (simp add: digit_val_less)
  next
    case False
    with snoc.prems b have pos: "0 < dec_val b" by (intro dec_val_pos) auto
    have IH: "show_nat (dec_val b) = b" using snoc False by simp
    have "\<not> 10 * dec_val b + digit_val c < 10" using pos by simp
    moreover have "(10 * dec_val b + digit_val c) div 10 = dec_val b"
      and "(10 * dec_val b + digit_val c) mod 10 = digit_val c"
      using digit_val_less [OF c] by simp_all
    ultimately show ?thesis using IH c by (subst show_nat.simps) simp
  qed
qed

lemma hd_show_nat_digit: "is_digit (hd (show_nat n))"
  using show_nat_digits [of n] show_nat_nonempty [of n]
  by (cases "show_nat n") auto

lemma hd_show_nat_minus [simp]: "hd (show_nat n) \<noteq> CHR ''-''"
  and hd_show_nat_plus [simp]: "hd (show_nat n) \<noteq> CHR ''+''"
  using hd_show_nat_digit [of n] by auto

lemma show_nat_eq_0 [simp]: "show_nat n = ''0'' \<longleftrightarrow> n = 0"
  by (metis dec_val_show_nat show_nat_0)

lemma show_int_nonempty [simp]: "show_int i \<noteq> []"
  by (simp add: show_int_def)

text \<open>The accepted integers are exactly the canonical decimals of the signed 64-bit range.\<close>

lemma string2ll_show_int:
  assumes "INT64_MIN \<le> i" "i \<le> INT64_MAX"
  shows "string2ll (show_int i) = Some i"
proof (cases "i = 0")
  case True
  then show ?thesis by (simp add: string2ll_def show_int_def show_nat_0)
next
  case False
  have *: "hd (show_nat (nat (- i))) \<noteq> CHR ''0''" if "i < 0" using that by (intro hd_show_nat) simp
  have **: "hd (show_nat (nat i)) \<noteq> CHR ''0''" if "\<not> i < 0"
    using that False by (intro hd_show_nat) simp
  show ?thesis using assms False * ** show_nat_digits
    by (cases "i < 0") (simp_all add: string2ll_def show_int_def Let_def)
qed

lemma string2ll_Some:
  assumes "string2ll raw = Some i"
  shows "raw = show_int i \<and> INT64_MIN \<le> i \<and> i \<le> INT64_MAX"
proof (cases "raw = ''0''")
  case True
  then show ?thesis using assms
    by (simp add: string2ll_def show_int_def show_nat_0 INT64_MIN_def INT64_MAX_def)
next
  case False
  define negative where "negative = (hd raw = CHR ''-'')"
  define digits where "digits = (if negative then tl raw else raw)"
  define m where "m = int (dec_val digits)"
  have *: "raw \<noteq> []" "digits \<noteq> []" "hd digits \<noteq> CHR ''0''" "list_all is_digit digits"
    and i: "i = (if negative then - m else m)" and "INT64_MIN \<le> i" "i \<le> INT64_MAX"
    using assms False
    by (auto simp: string2ll_def Let_def negative_def digits_def m_def not_less split: if_splits)
  moreover have "0 < m" using dec_val_pos * by (simp add: m_def)
  moreover have "show_nat (nat m) = digits" using show_nat_dec_val * by (simp add: m_def)
  moreover have "negative \<Longrightarrow> raw = CHR ''-'' # digits" using *(1)
    by (cases raw) (auto simp: negative_def digits_def)
  moreover have "\<not> negative \<Longrightarrow> raw = digits" by (simp add: digits_def)
  ultimately show ?thesis by (auto simp: show_int_def)
qed

lemma string2ll_iff:
  "string2ll raw = Some i \<longleftrightarrow> raw = show_int i \<and> INT64_MIN \<le> i \<and> i \<le> INT64_MAX"
  using string2ll_Some string2ll_show_int by blast

lemma unsigned_part_show_int: "unsigned_part (show_int i) = show_nat (nat \<bar>i\<bar>)"
  by (simp add: unsigned_part_def show_int_def)

lemma RE_NUMERIC_show_int [simp]: "RE_NUMERIC (show_int i)"
  by (simp add: RE_NUMERIC_def unsigned_part_show_int show_nat_digits)

lemma length_show_nat_le: "n < 10 ^ Suc k \<Longrightarrow> length (show_nat n) \<le> Suc k"
proof (induction k arbitrary: n)
  case 0
  then show ?case by (subst show_nat.simps) simp
next
  case (Suc k)
  then have "n div 10 < 10 ^ Suc k" by auto
  then have "length (show_nat (n div 10)) \<le> Suc k" by (rule Suc.IH)
  then show ?case by (subst show_nat.simps) auto
qed

lemma int_of_numeric_show_int:
  assumes "INT64_MIN \<le> i" "i \<le> INT64_MAX"
  shows "int_of_numeric (show_int i) = Some i"
proof -
  have "nat \<bar>i\<bar> < 10 ^ Suc 19"
    using assms by (auto simp: INT64_MIN_def INT64_MAX_def)
  from length_show_nat_le [OF this] have "length (show_nat (nat \<bar>i\<bar>)) \<le> 20" by simp
  then show ?thesis
    by (cases "i < 0") (simp_all add: int_of_numeric_def unsigned_part_show_int MAX_STR_DIGITS_def,
      simp_all add: show_int_def)
qed

section \<open>Python's \<open>int\<close> accepts what the encoder prints\<close>

lemma digit_not_space: "is_digit c \<Longrightarrow> \<not> is_space c"
  by (auto simp: is_digit_def is_space_def)

lemma strip_id:
  assumes "b \<noteq> []" "\<not> is_space (hd b)" "\<not> is_space (last b)"
  shows "strip b = b"
proof -
  have "dropWhile is_space b = b" using assms by (cases b) auto
  moreover have "dropWhile is_space (rev b) = rev b" using assms
    by (cases "rev b") (auto simp: hd_rev [symmetric])
  ultimately show ?thesis by (simp add: strip_def)
qed

lemma no_double_underscore_digits: "list_all is_digit b \<Longrightarrow> no_double_underscore b"
  by (induction b rule: no_double_underscore.induct) auto

lemma filter_digits_id: "list_all is_digit b \<Longrightarrow> filter (\<lambda>c. c \<noteq> CHR ''_'') b = b"
  by (auto simp: filter_id_conv list_all_iff)

lemma show_nat_short: "n < 10 ^ Suc k \<Longrightarrow> length (show_nat n) \<le> Suc k"
proof (induction k arbitrary: n)
  case (Suc k)
  have "n div 10 < 10 ^ Suc k" using Suc.prems by (simp add: div_less_iff_less_mult)
  then have "length (show_nat (n div 10)) \<le> Suc k" by (rule Suc.IH)
  then show ?case by (subst show_nat.simps) simp
qed (simp add: show_nat.simps)

lemma py_int_show_nat:
  assumes "length (show_nat n) \<le> MAX_STR_DIGITS"
  shows "py_int (show_nat n) = Some (int n)"
proof -
  let ?b = "show_nat n"
  have d: "list_all is_digit ?b" by (rule show_nat_digits)
  have hl: "is_digit (hd ?b)" "is_digit (last ?b)"
    using d show_nat_nonempty [of n] by (auto simp: list_all_iff)
  then have "strip ?b = ?b" by (intro strip_id) (auto simp: digit_not_space)
  moreover have "hd ?b \<noteq> CHR ''_''" "last ?b \<noteq> CHR ''_''" using hl by auto
  ultimately show ?thesis
    using d assms by (simp add: py_int_def Let_def filter_digits_id no_double_underscore_digits)
qed

lemma py_int_show_int:
  assumes "length (show_int i) \<le> MAX_STR_DIGITS"
  shows "py_int (show_int i) = Some i"
proof (cases "i < 0")
  case True
  let ?b = "show_nat (nat (- i))"
  have d: "list_all is_digit ?b" by (rule show_nat_digits)
  have hl: "is_digit (hd ?b)" "is_digit (last ?b)"
    using d show_nat_nonempty [of "nat (- i)"] by (auto simp: list_all_iff)
  then have "strip (CHR ''-'' # ?b) = CHR ''-'' # ?b"
    by (intro strip_id) (simp_all add: digit_not_space, simp add: is_space_def)
  moreover have "hd ?b \<noteq> CHR ''_''" "last ?b \<noteq> CHR ''_''" using hl by auto
  ultimately show ?thesis using True d assms
    by (simp add: show_int_def py_int_def Let_def filter_digits_id no_double_underscore_digits)
next
  case False
  then show ?thesis using assms py_int_show_nat [of "nat i"] by (simp add: show_int_def)
qed

lemma length_show_nat_int64: "int n \<le> INT64_MAX \<Longrightarrow> length (show_nat n) \<le> MAX_STR_DIGITS"
  using length_show_nat_le [of n 19] by (simp add: INT64_MAX_def MAX_STR_DIGITS_def)

section \<open>Properties\<close>

text \<open>
  C3: the integer parser of the commands accepts exactly the canonical decimal form of the signed
  64-bit integers: no sign but a minus, no leading zeros, no space, no empty input, no overflow.
\<close>

theorem string2ll_canonical:
  "string2ll raw = Some i \<longleftrightarrow> raw = show_int i \<and> INT64_MIN \<le> i \<and> i \<le> INT64_MAX"
  by (rule string2ll_iff)

end
