(* ===== verification/Glob.thy ===== *)
theory Glob
  imports Prelude "HOL-Library.Char_ord"
begin

text \<open>
  \<open>commands/common.py\<close>: \<^verbatim>\<open>compile_glob\<close>, the glob patterns of \<^verbatim>\<open>KEYS\<close>, \<^verbatim>\<open>SCAN\<close>
  and the pattern subscriptions.  \<^verbatim>\<open>fnmatch.translate\<close> turns the pattern into a regular expression, a
  sequence of items; matching is anchored at both ends.  The pattern is read byte by byte: inside a
  bracket expression Python compares code points, which is the same for ASCII.
\<close>

datatype glob_item = Star | AnyByte | ByteClass bool "(char \<times> char) list" | Literal char | Never

section \<open>Bracket expressions\<close>

text \<open>The pieces of the body between the hyphens that make ranges: \<open>k\<close> is where the search goes on.\<close>

fun find_hyphen :: "bytes \<Rightarrow> nat \<Rightarrow> nat option" where
  "find_hyphen [] k = None"
| "find_hyphen (c # cs) 0 = (if c = CHR ''-'' then Some 0 else map_option Suc (find_hyphen cs 0))"
| "find_hyphen (c # cs) (Suc k) = map_option Suc (find_hyphen cs k)"

lemma find_hyphen_less: "find_hyphen cs k = Some i \<Longrightarrow> k \<le> i \<and> i < length cs"
  by (induction cs k arbitrary: i rule: find_hyphen.induct) (auto split: if_splits)

function class_chunks :: "bytes \<Rightarrow> nat \<Rightarrow> bytes list" where
  "class_chunks body k =
     (case find_hyphen body k of
        None \<Rightarrow> [body]
      | Some i \<Rightarrow> take i body # class_chunks (drop (Suc i) body) 2)"
  by pat_completeness auto
termination
  by (relation "measure (\<lambda>(body, k). length body)") (auto dest: find_hyphen_less)

declare class_chunks.simps [simp del]

text \<open>A last empty piece stands for a hyphen at the end of the body.\<close>

definition trailing_hyphen :: "bytes list \<Rightarrow> bytes list" where
  "trailing_hyphen chunks =
     (if 1 < length chunks \<and> last chunks = []
      then butlast (butlast chunks) @ [last (butlast chunks) @ ''-''] else chunks)"

text \<open>Removing empty ranges, from the last pair of pieces to the first.\<close>

fun drop_empty_ranges :: "bytes list \<Rightarrow> bytes list" where
  "drop_empty_ranges (c # d # rest) =
     (case drop_empty_ranges (d # rest) of
        [] \<Rightarrow> [c]
      | d' # rest' \<Rightarrow>
          if c \<noteq> [] \<and> d' \<noteq> [] \<and> last c > hd d' then (butlast c @ tl d') # rest' else c # d' # rest')"
| "drop_empty_ranges chunks = chunks"

text \<open>The pieces joined again: \<open>None\<close> is a hyphen that makes a range.\<close>

fun class_tokens :: "bytes list \<Rightarrow> char option list" where
  "class_tokens [] = []"
| "class_tokens [c] = map Some c"
| "class_tokens (c # d # rest) = map Some c @ None # class_tokens (d # rest)"

fun class_ranges :: "char option list \<Rightarrow> (char \<times> char) list" where
  "class_ranges (Some a # None # Some b # rest) = (a, b) # class_ranges rest"
| "class_ranges (Some a # rest) = (a, a) # class_ranges rest"
| "class_ranges (None # rest) = (CHR ''-'', CHR ''-'') # class_ranges rest"
| "class_ranges [] = []"

definition class_item :: "bytes \<Rightarrow> glob_item" where
  "class_item body =
     (let tokens = (if CHR ''-'' \<in> set body
                    then class_tokens (drop_empty_ranges (trailing_hyphen
                           (class_chunks body (if hd body = CHR ''!'' then 2 else 1))))
                    else map Some body)
      in if tokens = [] then Never
         else if tokens = [Some (CHR ''!'')] then AnyByte
         else if hd tokens = Some (CHR ''!'') then ByteClass True (class_ranges (tl tokens))
         else ByteClass False (class_ranges tokens))"

section \<open>Translation\<close>

text \<open>Length of the body of a bracket expression, when a closing bracket follows.\<close>

definition class_length :: "bytes \<Rightarrow> nat option" where
  "class_length rest =
     (let j = (if rest \<noteq> [] \<and> hd rest = CHR ''!'' then 1 else 0);
          j = (if j < length rest \<and> rest ! j = CHR '']'' then j + 1 else j);
          n = length (takeWhile (\<lambda>c. c \<noteq> CHR '']'') (drop j rest))
      in if j + n < length rest then Some (j + n) else None)"

function glob_translate :: "bytes \<Rightarrow> glob_item list" where
  "glob_translate [] = []"
| "glob_translate (c # rest) =
     (if c = CHR ''*'' then Star # glob_translate rest
      else if c = CHR ''?'' then AnyByte # glob_translate rest
      else if c = CHR ''['' then
        (case class_length rest of
           None \<Rightarrow> Literal c # glob_translate rest
         | Some n \<Rightarrow> class_item (take n rest) # glob_translate (drop (Suc n) rest))
      else Literal c # glob_translate rest)"
  by pat_completeness auto
termination
  by (relation "measure length") (auto simp: less_Suc_eq_le)

fun item_matches :: "glob_item \<Rightarrow> char \<Rightarrow> bool" where
  "item_matches Star c = True"
| "item_matches AnyByte c = True"
| "item_matches (ByteClass negated ranges) c =
     (negated \<noteq> list_ex (\<lambda>(a, b). a \<le> c \<and> c \<le> b) ranges)"
| "item_matches (Literal d) c = (c = d)"
| "item_matches Never c = False"

fun glob_match :: "glob_item list \<Rightarrow> bytes \<Rightarrow> bool" where
  "glob_match [] s = (s = [])"
| "glob_match (Star # items) [] = glob_match items []"
| "glob_match (Star # items) (c # s) = (glob_match items (c # s) \<or> glob_match (Star # items) s)"
| "glob_match (item # items) [] = False"
| "glob_match (item # items) (c # s) = (item_matches item c \<and> glob_match items s)"

definition compile_glob :: "bytes \<Rightarrow> bytes \<Rightarrow> bool" where
  "compile_glob pattern s = glob_match (glob_translate pattern) s"

section \<open>Facts\<close>

definition plain :: "bytes \<Rightarrow> bool" where
  "plain p = list_all (\<lambda>c. c \<noteq> CHR ''*'' \<and> c \<noteq> CHR ''?'' \<and> c \<noteq> CHR ''['') p"

lemma glob_match_Star: "glob_match (Star # items) s \<longleftrightarrow> (\<exists>u v. s = u @ v \<and> glob_match items v)"
proof (induction s)
  case (Cons c s)
  have "(\<exists>u v. c # s = u @ v \<and> glob_match items v) \<longleftrightarrow>
      glob_match items (c # s) \<or> (\<exists>u v. s = u @ v \<and> glob_match items v)"
    by (metis append_Cons append_Nil list.exhaust list.inject)
  then show ?case using Cons by simp
qed simp

lemma glob_match_literals: "glob_match (map Literal p @ items) s \<longleftrightarrow> (\<exists>v. s = p @ v \<and> glob_match items v)"
proof (induction p arbitrary: s)
  case (Cons c p)
  show ?case using Cons by (cases s) auto
qed simp

lemma glob_translate_plain: "plain p \<Longrightarrow> glob_translate (p @ q) = map Literal p @ glob_translate q"
  by (induction p) (auto simp: plain_def)

text \<open>
  The wildcards mean what the documentation of the pattern commands says.  A pattern without
  special characters matches itself only; a star stands for any bytes, a question mark for exactly
  one byte, and the match covers the whole name.
\<close>

theorem glob_wildcards:
  assumes "plain p" "plain q"
  shows "(compile_glob p s \<longleftrightarrow> s = p)
    \<and> (compile_glob (p @ ''*'' @ q) s \<longleftrightarrow> (\<exists>v. s = p @ v @ q))
    \<and> (compile_glob (p @ ''?'' @ q) s \<longleftrightarrow> (\<exists>c. s = p @ c # q))"
proof -
  have lit: "glob_translate q = map Literal q" "glob_translate p = map Literal p"
    using glob_translate_plain [OF assms(2), of "[]"] glob_translate_plain [OF assms(1), of "[]"] by simp_all
  have all: "glob_match (map Literal r) s \<longleftrightarrow> s = r" for r s
    using glob_match_literals [of r "[]" s] by simp
  have any: "glob_match (AnyByte # items) s \<longleftrightarrow> (\<exists>c v. s = c # v \<and> glob_match items v)" for items s
    by (cases s) auto
  show ?thesis
    by (auto simp: compile_glob_def glob_translate_plain [OF assms(1)] lit all any
        glob_match_literals glob_match_Star)
qed

theorem glob_wildcards_witness:
  "compile_glob ''user:*:name'' ''user:42:name'' \<and> \<not> compile_glob ''user:?'' ''user:42''"
  using glob_wildcards [of "''user:''" "'':name''" "''user:42:name''"]
    glob_wildcards [of "''user:''" "[]" "''user:42''"]
  by (simp add: plain_def)

end
