(* ===== verification/Values.thy ===== *)
theory Values
  imports DataStore ZSetContainer Scalars Constants Glob "HOL-Library.FSet"
begin

text \<open>
  The kinds of stored values and the parsers that \<open>commands/common.py\<close> shares between the
  commands.

  A string is bytes, a list a \<^verbatim>\<open>deque\<close> of bytes, a set a Python set, a hash a dictionary whose
  fields are bytes or a pair of bytes and a wall-clock deadline, a sorted set a \<open>zset\<close> with double
  scores.  The bitmaps of the bit commands are objects of a third-party library: their type is the
  parameter \<open>'bm\<close>.
\<close>

datatype field = Plain bytes | Expiring bytes int

datatype 'bm val =
    VBitmap 'bm
  | VStr bytes
  | VHash "(bytes \<times> field) list"
  | VSet "bytes fset"
  | VList "bytes list"
  | VZSet "double zset"

datatype kind = KIND_BITMAP | KIND_STRING | KIND_HASH | KIND_SET | KIND_LIST | KIND_ZSET

fun kind_of :: "'bm val \<Rightarrow> kind" where
  "kind_of (VBitmap b) = KIND_BITMAP"
| "kind_of (VStr b) = KIND_STRING"
| "kind_of (VHash h) = KIND_HASH"
| "kind_of (VSet S) = KIND_SET"
| "kind_of (VList xs) = KIND_LIST"
| "kind_of (VZSet z) = KIND_ZSET"

fun TYPE_NAMES :: "kind \<Rightarrow> bytes" where
  "TYPE_NAMES KIND_STRING = ''string''"
| "TYPE_NAMES KIND_LIST = ''list''"
| "TYPE_NAMES KIND_HASH = ''hash''"
| "TYPE_NAMES KIND_SET = ''set''"
| "TYPE_NAMES KIND_ZSET = ''zset''"
| "TYPE_NAMES KIND_BITMAP = ''string''"

section \<open>Well-formed values\<close>

text \<open>
  What the commands keep of a stored value: lists and sets are never empty, the fields of a hash are
  distinct, a sorted set satisfies its invariant.
\<close>

fun value_ok :: "'bm val \<Rightarrow> bool" where
  "value_ok (VBitmap b) = True"
| "value_ok (VStr b) = True"
| "value_ok (VHash h) = distinct (map fst h)"
| "value_ok (VSet S) = (S \<noteq> {||})"
| "value_ok (VList xs) = (xs \<noteq> [])"
| "value_ok (VZSet z) = wf_zset z"

section \<open>Shared parsers\<close>

text \<open>The text a name that is not ASCII decodes to, each bad byte replaced by U+FFFD, in UTF-8.\<close>

definition is_ascii :: "char \<Rightarrow> bool" where
  "is_ascii c = (of_char c < (128 :: nat))"

definition ascii_replace :: "bytes \<Rightarrow> bytes" where
  "ascii_replace raw = concat (map (\<lambda>c. if is_ascii c then [c] else [CHR 0xEF, CHR 0xBF, CHR 0xBD]) raw)"

definition parse_scan_cursor :: "bytes \<Rightarrow> error + int" where
  "parse_scan_cursor raw =
     (case string2ll raw of
        None \<Rightarrow> Inl INVALID_CURSOR
      | Some v \<Rightarrow> if v < 0 then Inl INVALID_CURSOR else Inr v)"

fun scan_options_loop :: "bytes list \<Rightarrow> bytes option \<Rightarrow> error + bytes option" where
  "scan_options_loop [] pattern = Inr pattern"
| "scan_options_loop [opt] pattern = Inl SYNTAX"
| "scan_options_loop (opt # v # rest) pattern =
     (if upper opt = ''MATCH'' then scan_options_loop rest (Some v)
      else if upper opt = ''COUNT'' then
        (case string2ll v of
           None \<Rightarrow> Inl NOT_INT
         | Some count \<Rightarrow> if count < 1 then Inl SYNTAX else scan_options_loop rest pattern)
      else Inl SYNTAX)"

definition parse_scan_options :: "bytes list \<Rightarrow> error + bytes option" where
  "parse_scan_options options = scan_options_loop options None"

definition glob_filter :: "bytes option \<Rightarrow> bytes \<Rightarrow> bool" where
  "glob_filter pattern name = (case pattern of None \<Rightarrow> True | Some p \<Rightarrow> compile_glob p name)"

end
