(* ===== verification/Resp.thy ===== *)
theory Resp
  imports Scalars
begin

text \<open>
  \<open>resp.py\<close>: the reply encoder (\<^verbatim>\<open>_resp_dumps\<close>, \<^verbatim>\<open>protocolBuilder\<close>), the incremental parser of
  the pure-Python engine (\<^verbatim>\<open>_read_line\<close>, \<^verbatim>\<open>_parse_message\<close>, \<^verbatim>\<open>_parse_array\<close>,
  \<^verbatim>\<open>_parse_bulk\<close>) and the per-connection reader (\<^verbatim>\<open>RESPReader._feed_python\<close>).

  A position in the buffer is represented by the rest of the buffer from there on, so a parser
  takes the unread bytes and returns the value with the bytes after it.  \<^verbatim>\<open>None\<close> (more data
  needed) is \<open>Incomplete\<close>, a raised \<^verbatim>\<open>ProtocolError\<close> is \<open>Malformed\<close>.  The hiredis engine is
  in \<open>HiredisReader\<close>.

  Lemmas: the encoding of a list is the concatenation of the encodings of its elements; parsing
  inverts encoding; a parsed message or a protocol error does not depend on the bytes that
  follow, so a reader produces the same messages however its input is cut into chunks.
\<close>

section \<open>Encoding\<close>

fun join :: "bytes \<Rightarrow> bytes list \<Rightarrow> bytes" where
  "join sep [] = []"
| "join sep [x] = x"
| "join sep (x # y # xs) = x @ sep @ join sep (y # xs)"

fun responses_dict :: "Response \<Rightarrow> bytes" where
  "responses_dict OK = ''+OK''"
| "responses_dict NIL = ''$-1''"
| "responses_dict NIL_ARRAY = ''*-1''"
| "responses_dict QUEUED = ''+QUEUED''"
| "responses_dict PONG = ''+PONG''"

definition error_line :: "error \<Rightarrow> bytes" where
  "error_line e =
     CHR ''-'' # error_class e @ (if error_message e \<noteq> [] then '' '' @ error_message e else [])"

fun resp_dumps :: "reply \<Rightarrow> bytes list" where
  "resp_dumps (RBytes b) = [CHR ''$'' # show_nat (length b), b]"
| "resp_dumps (RInt i) = [CHR '':'' # show_int i]"
| "resp_dumps (RList vs) = (CHR ''*'' # show_nat (length vs)) # concat (map resp_dumps vs)"
| "resp_dumps (RResponse r) = [responses_dict r]"
| "resp_dumps (RSimple v) = [CHR ''+'' # v]"
| "resp_dumps (RError e) = [error_line e]"

definition protocolBuilder :: "reply \<Rightarrow> bytes" where
  "protocolBuilder v = join SYM_CRLF (resp_dumps v) @ SYM_CRLF"

section \<open>Parsing\<close>

datatype msg = MBytes bytes | MInt int | MList "msg list" | MNone

datatype 'a parsed = Incomplete | Malformed bytes | Parsed 'a bytes

fun read_line :: "bytes \<Rightarrow> (bytes \<times> bytes) option" where
  "read_line (c # d # cs) =
     (if c = CR \<and> d = LF then Some ([], cs)
      else map_option (\<lambda>(line, rest). (c # line, rest)) (read_line (d # cs)))"
| "read_line _ = None"

text \<open>\<^verbatim>\<open>bytes.split()\<close> without arguments: the maximal runs of non-whitespace.\<close>

function split_ws :: "bytes \<Rightarrow> bytes list" where
  "split_ws b =
     (let b' = dropWhile is_space b
      in if b' = [] then []
         else takeWhile (\<lambda>c. \<not> is_space c) b' # split_ws (dropWhile (\<lambda>c. \<not> is_space c) b'))"
  by pat_completeness auto
termination
proof (relation "measure length")
  fix b x :: bytes
  assume x: "x = dropWhile is_space b" "x \<noteq> []"
  then have "\<not> is_space (hd x)" using hd_dropWhile by metis
  then have "length (dropWhile (\<lambda>c. \<not> is_space c) x) < length x"
    using x(2) by (cases x) (auto simp: le_imp_less_Suc length_dropWhile_le)
  also have "\<dots> \<le> length b" using x by (simp add: length_dropWhile_le)
  finally show "(dropWhile (\<lambda>c. \<not> is_space c) x, b) \<in> measure length" by simp
qed simp

declare split_ws.simps [simp del]

definition parse_bulk :: "bytes \<Rightarrow> msg parsed" where
  "parse_bulk buf =
     (case read_line buf of
        None \<Rightarrow> Incomplete
      | Some (line, rest) \<Rightarrow>
          (case py_int line of
             None \<Rightarrow> Malformed ''invalid bulk length''
           | Some len \<Rightarrow>
               if len = -1 then Parsed MNone rest
               else if len < -1 then Malformed ''invalid bulk length''
               else
                 let n = nat len
                 in if length rest < n + 2 then Incomplete
                    else if take 2 (drop n rest) \<noteq> SYM_CRLF
                    then Malformed ''bulk value is not CRLF terminated''
                    else Parsed (MBytes (take n rest)) (drop (n + 2) rest)))"

definition parse_integer :: "bytes \<Rightarrow> msg parsed" where
  "parse_integer buf =
     (case read_line buf of
        None \<Rightarrow> Incomplete
      | Some (line, rest) \<Rightarrow>
          (case py_int line of
             None \<Rightarrow> Malformed ''invalid integer''
           | Some i \<Rightarrow> Parsed (MInt i) rest))"

definition parse_line :: "bytes \<Rightarrow> msg parsed" where
  "parse_line buf =
     (case read_line buf of None \<Rightarrow> Incomplete | Some (line, rest) \<Rightarrow> Parsed (MBytes line) rest)"

definition parse_inline :: "bytes \<Rightarrow> msg parsed" where
  "parse_inline buf =
     (case read_line buf of
        None \<Rightarrow> Incomplete
      | Some (line, rest) \<Rightarrow> Parsed (MList (map MBytes (split_ws line))) rest)"

fun map_parsed :: "('a \<Rightarrow> 'b) \<Rightarrow> 'a parsed \<Rightarrow> 'b parsed" where
  "map_parsed f (Parsed a rest) = Parsed (f a) rest"
| "map_parsed f Incomplete = Incomplete"
| "map_parsed f (Malformed e) = Malformed e"

text \<open>
  \<^verbatim>\<open>_parse_message\<close> with \<^verbatim>\<open>_parse_array\<close> (the \<open>*\<close> branch and its loop over \<open>count\<close> items).
\<close>

function (sequential) parse_message :: "bytes \<Rightarrow> msg parsed"
  and parse_items :: "nat \<Rightarrow> bytes \<Rightarrow> msg list parsed" where
  "parse_message [] = Incomplete"
| "parse_message (marker # tail) =
     (if marker = CHR ''*'' then
        (case read_line tail of
           None \<Rightarrow> Incomplete
         | Some (line, rest) \<Rightarrow>
             (case py_int line of
                None \<Rightarrow> Malformed ''invalid multibulk length''
              | Some count \<Rightarrow>
                  if count = -1 then Parsed MNone rest
                  else if count < -1 then Malformed ''invalid multibulk length''
                  else map_parsed MList (parse_items (nat count) rest)))
      else if marker = CHR ''$'' then parse_bulk tail
      else if marker = CHR '':'' then parse_integer tail
      else if marker = CHR ''+'' \<or> marker = CHR ''-'' then parse_line (marker # tail)
      else parse_inline (marker # tail))"
| "parse_items 0 buf = Parsed [] buf"
| "parse_items (Suc n) buf =
     (case parse_message buf of
        Incomplete \<Rightarrow> Incomplete
      | Malformed e \<Rightarrow> Malformed e
      | Parsed item rest \<Rightarrow> map_parsed (\<lambda>items. item # items) (parse_items n rest))"
  by pat_completeness auto

lemma read_line_length: "read_line b = Some (line, rest) \<Longrightarrow> length rest + 2 + length line = length b"
  by (induction b arbitrary: line rest rule: read_line.induct) (auto split: if_splits)

lemma map_parsed_eq_Parsed:
  "map_parsed f p = Parsed b r \<longleftrightarrow> (\<exists>a. p = Parsed a r \<and> b = f a)"
  by (cases p) auto

lemma simple_parsers_length:
  "parse_bulk b = Parsed v r \<Longrightarrow> length r < length b"
  "parse_integer b = Parsed v r \<Longrightarrow> length r < length b"
  "parse_line b = Parsed v r \<Longrightarrow> length r < length b"
  "parse_inline b = Parsed v r \<Longrightarrow> length r < length b"
  by (fastforce simp: parse_bulk_def parse_integer_def parse_line_def parse_inline_def Let_def
      dest: read_line_length split: option.splits if_splits)+

lemma parse_length_partial:
  "parse_message_parse_items_dom (Inl b) \<Longrightarrow> parse_message b = Parsed v r \<Longrightarrow> length r < length b"
  "parse_message_parse_items_dom (Inr (n, b)) \<Longrightarrow> parse_items n b = Parsed vs r \<Longrightarrow> length r \<le> length b"
proof (induction b and n b arbitrary: v r and vs r rule: parse_message_parse_items.pinduct)
  case 1
  then show ?case by (simp add: parse_message.psimps)
next
  case (2 marker tail)
  show ?case
  proof (cases "marker = CHR ''*''")
    case False
    have "parse_bulk tail = Parsed v r \<or> parse_integer tail = Parsed v r
        \<or> parse_line (marker # tail) = Parsed v r \<or> parse_inline (marker # tail) = Parsed v r"
      using False 2(3) by (simp add: parse_message.psimps(2) [OF 2(1)] split: if_splits)
    then show ?thesis using simple_parsers_length by fastforce
  next
    case True
    then have *: "(case read_line tail of
           None \<Rightarrow> Incomplete
         | Some (line, rest) \<Rightarrow>
             (case py_int line of
                None \<Rightarrow> Malformed ''invalid multibulk length''
              | Some count \<Rightarrow>
                  if count = -1 then Parsed MNone rest
                  else if count < -1 then Malformed ''invalid multibulk length''
                  else map_parsed MList (parse_items (nat count) rest))) = Parsed v r"
      using 2(3) [unfolded parse_message.psimps(2) [OF 2(1)]] by simp
    then obtain line rest count where rl: "read_line tail = Some (line, rest)"
      and pi: "py_int line = Some count"
      by (auto split: option.splits)
    have len: "length rest < length tail" using read_line_length [OF rl] by simp
    show ?thesis
    proof (cases "count < 0")
      case True': True
      then have "r = rest" using * rl pi by (auto split: if_splits)
      then show ?thesis using len by simp
    next
      case False
      then obtain vs where "parse_items (nat count) rest = Parsed vs r"
        using * rl pi by (auto simp: map_parsed_eq_Parsed)
      then have "length r \<le> length rest"
        using 2(2) [OF True rl refl pi] False by simp
      then show ?thesis using len by simp
    qed
  qed
next
  case (3 buf)
  then show ?case by (simp add: parse_items.psimps)
next
  case (4 n buf)
  then show ?case
    by (fastforce simp: parse_items.psimps map_parsed_eq_Parsed split: parsed.splits)
qed

lemma parse_terminates: "All parse_message_parse_items_dom"
proof (relation "measures [case_sum length (\<lambda>(n, b). length b), case_sum (\<lambda>_. 0) (\<lambda>(n, b). Suc n)]")
  fix marker tail a line rest x2 count
  assume "read_line tail = Some a" "(line, rest) = a"
  then have "length rest < length (marker # tail)" using read_line_length by force
  then show "(Inr (nat count, rest), Inl (marker # tail)) \<in>
      measures [case_sum length (\<lambda>(n, b). length b), case_sum (\<lambda>_. 0) (\<lambda>(n, b). Suc n)]"
    by simp
next
  fix n buf item rest
  assume "parse_message buf = Parsed item rest" "parse_message_parse_items_dom (Inl buf)"
  then have "length rest < length buf" using parse_length_partial(1) by blast
  then show "(Inr (n, rest), Inr (Suc n, buf)) \<in>
      measures [case_sum length (\<lambda>(n, b). length b), case_sum (\<lambda>_. 0) (\<lambda>(n, b). Suc n)]"
    by simp
qed simp_all

termination parse_message
  by (rule parse_terminates)

lemma parse_message_length: "parse_message b = Parsed v r \<Longrightarrow> length r < length b"
  by (rule parse_length_partial(1) [OF spec [OF parse_terminates]])

section \<open>The reader\<close>

definition MAX_BUFFER :: nat where "MAX_BUFFER = 512 * 1024 * 1024"

record reader =
  buffer :: bytes

definition RESPReader :: reader where
  "RESPReader = \<lparr>buffer = []\<rparr>"

text \<open>
  The loop of \<^verbatim>\<open>_feed_python\<close>: what is left in the buffer, and the messages or the protocol
  error.  The messages parsed before an error are gone with the exception.
\<close>

function drain :: "bytes \<Rightarrow> bytes \<times> (bytes + msg list)" where
  "drain buf =
     (case parse_message buf of
        Incomplete \<Rightarrow> (buf, Inr [])
      | Malformed e \<Rightarrow> (buf, Inl e)
      | Parsed v rest \<Rightarrow> (case drain rest of (b, out) \<Rightarrow> (b, map_sum id (\<lambda>vs. v # vs) out)))"
  by pat_completeness auto
termination
  by (relation "measure length") (auto dest: parse_message_length)

declare drain.simps [simp del]

definition feed_python :: "reader \<Rightarrow> bytes \<Rightarrow> reader \<times> (bytes + msg list)" where
  "feed_python r data =
     (let buf = buffer r @ data
      in if MAX_BUFFER < length buf
         then (r\<lparr>buffer := buf\<rparr>, Inl ''request exceeds maximum allowed size'')
         else case drain buf of (rest, out) \<Rightarrow> (r\<lparr>buffer := rest\<rparr>, out))"

text \<open>
  \<^verbatim>\<open>protocolParser\<close> on the pure-Python engine: exactly one complete message.
\<close>

definition protocolParser :: "bytes \<Rightarrow> bytes + msg" where
  "protocolParser data =
     (case snd (feed_python RESPReader data) of
        Inl e \<Rightarrow> Inl e
      | Inr messages \<Rightarrow>
          if messages = [] then Inl ''incomplete RESP message''
          else if length messages \<noteq> 1 then Inl ''trailing data after RESP message''
          else Inr (hd messages))"

section \<open>Encoding is self-delimiting\<close>

lemma join_append_sep:
  "ls \<noteq> [] \<Longrightarrow> join sep ls @ sep = concat (map (\<lambda>l. l @ sep) ls)"
  by (induction sep ls rule: join.induct) auto

lemma resp_dumps_nonempty [simp]: "resp_dumps v \<noteq> []"
  by (cases v) auto

lemma protocolBuilder_lines: "protocolBuilder v = concat (map (\<lambda>l. l @ SYM_CRLF) (resp_dumps v))"
  by (simp add: protocolBuilder_def join_append_sep)

lemma protocolBuilder_list:
  "protocolBuilder (RList vs) =
     CHR ''*'' # show_nat (length vs) @ SYM_CRLF @ concat (map protocolBuilder vs)"
proof -
  have "concat (map (\<lambda>l. l @ SYM_CRLF) (concat (map resp_dumps vs))) = concat (map protocolBuilder vs)"
    by (induction vs) (simp_all add: protocolBuilder_lines)
  then show ?thesis by (simp add: protocolBuilder_lines [of "RList vs"])
qed

section \<open>Parsing is insensitive to what follows\<close>

lemma read_line_append:
  "read_line b = Some (line, rest) \<Longrightarrow> read_line (b @ x) = Some (line, rest @ x)"
proof (induction b arbitrary: line rest rule: read_line.induct)
  case (1 c d cs)
  then show ?case by (auto split: if_splits)
qed auto

lemma read_line_CRLF: "CR \<notin> set line \<Longrightarrow> read_line (line @ SYM_CRLF @ rest) = Some (line, rest)"
proof (induction line)
  case Nil
  then show ?case by (simp add: SYM_CRLF_def)
next
  case (Cons c line)
  then have "c \<noteq> CR" and IH: "read_line (line @ SYM_CRLF @ rest) = Some (line, rest)" by auto
  obtain d ds where "line @ SYM_CRLF @ rest = d # ds"
    by (cases line) (auto simp: SYM_CRLF_def)
  then show ?case using IH \<open>c \<noteq> CR\<close> by auto
qed

lemma parse_bulk_append:
  "parse_bulk b = Parsed v r \<Longrightarrow> parse_bulk (b @ x) = Parsed v (r @ x)"
  "parse_bulk b = Malformed e \<Longrightarrow> parse_bulk (b @ x) = Malformed e"
  by (auto simp: parse_bulk_def Let_def not_less split: option.splits if_splits
      dest: read_line_append [where x = x])

lemma parse_simple_append:
  "parse_integer b = Parsed v r \<Longrightarrow> parse_integer (b @ x) = Parsed v (r @ x)"
  "parse_integer b = Malformed e \<Longrightarrow> parse_integer (b @ x) = Malformed e"
  "parse_line b = Parsed v r \<Longrightarrow> parse_line (b @ x) = Parsed v (r @ x)"
  "parse_line b \<noteq> Malformed e"
  "parse_inline b = Parsed v r \<Longrightarrow> parse_inline (b @ x) = Parsed v (r @ x)"
  "parse_inline b \<noteq> Malformed e"
  by (auto simp: parse_integer_def parse_line_def parse_inline_def
      split: option.splits dest: read_line_append [where x = x])

lemmas parse_append = parse_bulk_append parse_simple_append

lemma parse_message_append:
  "parse_message b = Parsed v r \<Longrightarrow> parse_message (b @ x) = Parsed v (r @ x)"
  "parse_message b = Malformed e \<Longrightarrow> parse_message (b @ x) = Malformed e"
  "parse_items n b = Parsed vs r \<Longrightarrow> parse_items n (b @ x) = Parsed vs (r @ x)"
  "parse_items n b = Malformed e \<Longrightarrow> parse_items n (b @ x) = Malformed e"
proof -
  have "(\<forall>v r. parse_message b = Parsed v r \<longrightarrow> parse_message (b @ x) = Parsed v (r @ x))
      \<and> (\<forall>e. parse_message b = Malformed e \<longrightarrow> parse_message (b @ x) = Malformed e)"
    and "(\<forall>vs r. parse_items n b = Parsed vs r \<longrightarrow> parse_items n (b @ x) = Parsed vs (r @ x))
      \<and> (\<forall>e. parse_items n b = Malformed e \<longrightarrow> parse_items n (b @ x) = Malformed e)"
    for b n
  proof (induction b and n b rule: parse_message_parse_items.induct)
    case (2 marker tail)
    show ?case
    proof (cases "marker = CHR ''*''")
      case True
      show ?thesis
      proof (cases "read_line tail")
        case None
        then show ?thesis using True by simp
      next
        case (Some lr)
        obtain line rest where lr: "lr = (line, rest)" by (cases lr)
        show ?thesis
        proof (cases "py_int line")
          case None
          then show ?thesis using True Some lr read_line_append by simp
        next
          case (Some count)
          note IH = 2 [OF True \<open>read_line tail = Some lr\<close> lr [symmetric] Some]
          show ?thesis using True \<open>read_line tail = Some lr\<close> lr Some IH
              read_line_append [of tail line rest x]
            by (cases "parse_items (nat count) rest") auto
        qed
      qed
    next
      case False
      then show ?thesis
        using parse_bulk_append [of tail] parse_simple_append(1,2) [of tail]
          parse_simple_append(3,5) [of "marker # tail" _ _ x] parse_simple_append(4,6)
        by auto
    qed
  next
    case (4 n buf)
    show ?case
    proof (cases "parse_message buf")
      case (Parsed item rest)
      then show ?thesis using 4 by (cases "parse_items n rest") auto
    qed (use 4 in auto)
  qed auto
  then show "parse_message b = Parsed v r \<Longrightarrow> parse_message (b @ x) = Parsed v (r @ x)"
    "parse_message b = Malformed e \<Longrightarrow> parse_message (b @ x) = Malformed e"
    "parse_items n b = Parsed vs r \<Longrightarrow> parse_items n (b @ x) = Parsed vs (r @ x)"
    "parse_items n b = Malformed e \<Longrightarrow> parse_items n (b @ x) = Malformed e"
    by blast+
qed

section \<open>Parsing inverts encoding\<close>

text \<open>What a client reads back when it parses an encoded reply.\<close>

fun decoded :: "reply \<Rightarrow> msg" where
  "decoded (RBytes b) = MBytes b"
| "decoded (RInt i) = MInt i"
| "decoded (RList vs) = MList (map decoded vs)"
| "decoded (RResponse r) =
     (if r = NIL \<or> r = NIL_ARRAY then MNone else MBytes (responses_dict r))"
| "decoded (RSimple v) = MBytes (CHR ''+'' # v)"
| "decoded (RError e) = MBytes (error_line e)"

text \<open>
  What the wire format can carry: lengths and integers that Python's \<^verbatim>\<open>int()\<close> reads back
  (any size below its digit limit), and no carriage return inside a status or error line.
  Bulk strings are unrestricted.
\<close>

fun wire_ok :: "reply \<Rightarrow> bool" where
  "wire_ok (RBytes b) \<longleftrightarrow> length (show_nat (length b)) \<le> MAX_STR_DIGITS"
| "wire_ok (RInt i) \<longleftrightarrow> length (show_int i) \<le> MAX_STR_DIGITS"
| "wire_ok (RList vs) \<longleftrightarrow> length (show_nat (length vs)) \<le> MAX_STR_DIGITS \<and> list_all wire_ok vs"
| "wire_ok (RResponse r) \<longleftrightarrow> True"
| "wire_ok (RSimple v) \<longleftrightarrow> CR \<notin> set v"
| "wire_ok (RError e) \<longleftrightarrow> CR \<notin> set (error_line e)"

lemma CR_not_digit: "list_all is_digit b \<Longrightarrow> CR \<notin> set b"
  by (auto simp: list_all_iff)

lemma CR_show_nat [simp]: "CR \<notin> set (show_nat n)"
  using show_nat_digits by (rule CR_not_digit)

lemma CR_show_int [simp]: "CR \<notin> set (show_int i)"
  by (auto simp: show_int_def CR_def) (metis CR_def CR_show_nat)+

lemma parse_bulk_encoded:
  assumes "length (show_nat (length b)) \<le> MAX_STR_DIGITS"
  shows "parse_bulk (show_nat (length b) @ SYM_CRLF @ b @ SYM_CRLF @ rest) = Parsed (MBytes b) rest"
  using read_line_CRLF [of "show_nat (length b)" "b @ SYM_CRLF @ rest"] py_int_show_nat [OF assms]
  by (simp add: parse_bulk_def) (simp add: SYM_CRLF_def)

lemma parse_message_bulk:
  assumes "length (show_nat (length b)) \<le> MAX_STR_DIGITS"
  shows "parse_message (protocolBuilder (RBytes b) @ rest) = Parsed (MBytes b) rest"
  using parse_bulk_encoded [OF assms, of rest] by (simp add: protocolBuilder_lines)

lemma parse_line_encoded:
  "CR \<notin> set line \<Longrightarrow> parse_line (line @ SYM_CRLF @ rest) = Parsed (MBytes line) rest"
  by (simp add: parse_line_def read_line_CRLF)

lemma parse_message_line:
  assumes "CR \<notin> set line" "m = CHR ''+'' \<or> m = CHR ''-''"
  shows "parse_message (m # line @ SYM_CRLF @ rest) = Parsed (MBytes (m # line)) rest"
proof -
  have "CR \<notin> set (m # line)" using assms by (auto simp: CR_def)
  then show ?thesis using parse_line_encoded [of "m # line" rest] assms(2) by auto
qed

lemma py_int_minus_one: "py_int ''-1'' = Some (-1)"
proof -
  have "show_int (-1) = ''-1''" by (simp add: show_int_def show_nat.simps)
  then show ?thesis using py_int_show_int [of "-1"] by (simp add: MAX_STR_DIGITS_def)
qed

lemma parse_message_response:
  "parse_message (responses_dict r @ SYM_CRLF @ rest) = Parsed (decoded (RResponse r)) rest"
proof (cases r)
  case NIL
  have "py_int ''-1'' = Some (-1)" by (rule py_int_minus_one)
  then show ?thesis using NIL read_line_CRLF [of "''-1''" rest]
    by (simp add: parse_bulk_def CR_def)
next
  case NIL_ARRAY
  have "py_int ''-1'' = Some (-1)" by (rule py_int_minus_one)
  then show ?thesis using NIL_ARRAY read_line_CRLF [of "''-1''" rest] by (simp add: CR_def)
next
  case OK
  then show ?thesis using parse_message_line [of "''OK''" "CHR ''+''" rest] by (simp add: CR_def)
next
  case QUEUED
  then show ?thesis using parse_message_line [of "''QUEUED''" "CHR ''+''" rest] by (simp add: CR_def)
next
  case PONG
  then show ?thesis using parse_message_line [of "''PONG''" "CHR ''+''" rest] by (simp add: CR_def)
qed

lemma parse_message_encoded:
  "wire_ok v \<Longrightarrow> parse_message (protocolBuilder v @ rest) = Parsed (decoded v) rest"
proof (induction v arbitrary: rest)
  case (RBytes b)
  then show ?case by (simp add: parse_message_bulk)
next
  case (RInt i)
  then show ?case using read_line_CRLF [of "show_int i" rest]
    by (simp add: protocolBuilder_lines parse_integer_def py_int_show_int)
next
  case (RList vs)
  have "parse_items (length us) (concat (map protocolBuilder us) @ rest) = Parsed (map decoded us) rest"
    if "set us \<subseteq> set vs" for us
    using that RList by (induction us) (auto simp: list_all_iff)
  then have "parse_items (length vs) (concat (map protocolBuilder vs) @ rest)
      = Parsed (map decoded vs) rest" by simp
  moreover have "length (show_nat (length vs)) \<le> MAX_STR_DIGITS" using RList by simp
  ultimately show ?case
    using read_line_CRLF [of "show_nat (length vs)" "concat (map protocolBuilder vs) @ rest"]
    by (simp add: protocolBuilder_list py_int_show_nat)
next
  case (RResponse r)
  then show ?case using parse_message_response by (simp add: protocolBuilder_lines)
next
  case (RSimple v)
  then show ?case using parse_message_line [of v "CHR ''+''" rest] by (simp add: protocolBuilder_lines)
next
  case (RError e)
  then show ?case using parse_message_line [of "tl (error_line e)" "CHR ''-''" rest]
    by (simp add: protocolBuilder_lines error_line_def)
qed

section \<open>The reader and its chunks\<close>

lemma drain_append:
  "drain b = (b', Inr ms) \<Longrightarrow>
     drain (b @ x) = (case drain (b' @ x) of (b'', out) \<Rightarrow> (b'', map_sum id (\<lambda>vs. ms @ vs) out))"
proof (induction b arbitrary: b' ms rule: drain.induct)
  case (1 b)
  show ?case
  proof (cases "parse_message b")
    case Incomplete
    then have "b' = b" "ms = []" using 1(2) by (simp_all add: drain.simps [of b])
    then show ?thesis by (simp add: sum.map_ident id_def split: prod.splits)
  next
    case (Malformed e)
    then show ?thesis using 1(2) by (simp add: drain.simps [of b])
  next
    case (Parsed v rest)
    obtain c out where c: "drain rest = (c, out)" by (cases "drain rest")
    then obtain ms' where ms': "out = Inr ms'" "ms = v # ms'" "b' = c"
      using 1(2) Parsed by (cases out) (auto simp: drain.simps [of b])
    have "drain (b @ x) = (case drain (rest @ x) of (b'', out) \<Rightarrow> (b'', map_sum id (\<lambda>vs. v # vs) out))"
      using parse_message_append(1) [OF Parsed] by (simp add: drain.simps [of "b @ x"])
    then show ?thesis using 1(1) [OF Parsed] c ms'
      by (auto simp: sum.map_comp comp_def id_def split: prod.splits)
  qed
qed

lemma drain_append_error: "drain b = (b', Inl e) \<Longrightarrow> snd (drain (b @ x)) = Inl e"
proof (induction b arbitrary: b' rule: drain.induct)
  case (1 b)
  show ?case
  proof (cases "parse_message b")
    case Incomplete
    then show ?thesis using 1(2) by (simp add: drain.simps [of b])
  next
    case (Malformed e')
    then show ?thesis using 1(2) parse_message_append(2) [OF Malformed, of x]
      by (simp add: drain.simps)
  next
    case (Parsed v rest)
    then obtain c where "drain rest = (c, Inl e)"
      using 1(2) by (cases "drain rest"; cases "snd (drain rest)") (auto simp: drain.simps [of b])
    then have "snd (drain (rest @ x)) = Inl e" by (rule 1(1) [OF Parsed])
    then show ?thesis using parse_message_append(1) [OF Parsed, of x]
      by (auto simp: drain.simps [of "b @ x"] split: prod.splits)
  qed
qed

lemma drain_idle: "drain b = (b', Inr ms) \<Longrightarrow> parse_message b' = Incomplete"
proof (induction b arbitrary: b' ms rule: drain.induct)
  case (1 b)
  then show ?case
    by (cases "parse_message b"; cases "drain (case parse_message b of Parsed v r \<Rightarrow> r)";
        cases "snd (drain (case parse_message b of Parsed v r \<Rightarrow> r))")
      (auto simp: drain.simps [of b])
qed

lemma drain_messages:
  "list_all wire_ok vs \<Longrightarrow>
     drain (concat (map protocolBuilder vs)) = ([], Inr (map decoded vs))"
proof (induction vs)
  case Nil
  show ?case by (simp add: drain.simps)
next
  case (Cons v vs)
  then show ?case
    by (subst drain.simps) (simp add: parse_message_encoded)
qed

text \<open>A reader that waits for more bytes.\<close>

definition idle :: "reader \<Rightarrow> bool" where
  "idle r \<longleftrightarrow> parse_message (buffer r) = Incomplete"

lemma idle_RESPReader [simp]: "idle RESPReader"
  by (simp add: idle_def RESPReader_def)

lemma feed_python_idle: "feed_python r d = (r', Inr ms) \<Longrightarrow> idle r'"
  by (auto simp: feed_python_def idle_def Let_def split: if_splits prod.splits dest: drain_idle)

lemma feed_python_drain:
  "length (buffer r @ d) \<le> MAX_BUFFER \<Longrightarrow>
     feed_python r d = (case drain (buffer r @ d) of (rest, out) \<Rightarrow> (r\<lparr>buffer := rest\<rparr>, out))"
  by (simp add: feed_python_def)

lemma drain_length: "drain b = (b', out) \<Longrightarrow> length b' \<le> length b"
proof (induction b arbitrary: b' out rule: drain.induct)
  case (1 b)
  show ?case
  proof (cases "parse_message b")
    case (Parsed v rest)
    then obtain out' where "drain rest = (b', out')"
      using 1(2) by (auto simp: drain.simps [of b] split: prod.splits)
    then show ?thesis using 1(1) [OF Parsed] parse_message_length [OF Parsed] by fastforce
  qed (use 1(2) in \<open>auto simp: drain.simps [of b]\<close>)
qed

lemma drain_count: "drain b = (b', Inr ms) \<Longrightarrow> length ms + length b' \<le> length b"
proof (induction b arbitrary: b' ms rule: drain.induct)
  case (1 b)
  show ?case
  proof (cases "parse_message b")
    case (Parsed v rest)
    then obtain ms' where "drain rest = (b', Inr ms')" "ms = v # ms'"
      using 1(2) by (auto simp: drain.simps [of b] map_sum_def split: prod.splits sum.splits)
    then show ?thesis using 1(1) [OF Parsed] parse_message_length [OF Parsed] by fastforce
  qed (use 1(2) in \<open>auto simp: drain.simps [of b]\<close>)
qed

section \<open>Properties\<close>

text \<open>
  C1: parsing inverts encoding, and frames delimit themselves.  From an encoded reply followed by any
  bytes the parser takes exactly the reply and leaves the bytes; on a proper prefix of the encoding it
  waits for more input.
\<close>

theorem resp_roundtrip:
  assumes "wire_ok v"
  shows "parse_message (protocolBuilder v @ rest) = Parsed (decoded v) rest
    \<and> (\<forall>p x. protocolBuilder v = p @ x \<longrightarrow> x \<noteq> [] \<longrightarrow> parse_message p = Incomplete)"
proof (intro conjI allI impI)
  show "parse_message (protocolBuilder v @ rest) = Parsed (decoded v) rest"
    using assms by (rule parse_message_encoded)
  fix p x
  assume split: "protocolBuilder v = p @ x" and x: "x \<noteq> []"
  have whole: "parse_message (p @ x) = Parsed (decoded v) []"
    using parse_message_encoded [OF assms, of "[]"] split by simp
  show "parse_message p = Incomplete"
  proof (cases "parse_message p")
    case (Malformed e)
    then show ?thesis using parse_message_append(2) [OF Malformed, of x] whole by simp
  next
    case (Parsed w r)
    then show ?thesis using parse_message_append(1) [OF Parsed, of x] whole x by simp
  qed
qed

theorem resp_roundtrip_witness:
  "parse_message (protocolBuilder (RList [RBytes ''GET'', RBytes [CR, LF], RInt (- 7)]) @ ''+PING'')
     = Parsed (MList [MBytes ''GET'', MBytes [CR, LF], MInt (- 7)]) ''+PING''"
  using resp_roundtrip [of "RList [RBytes ''GET'', RBytes [CR, LF], RInt (- 7)]" "''+PING''"]
  by (simp add: show_nat.simps show_int_def MAX_STR_DIGITS_def)

text \<open>
  C2: the loop of the reader ends and leaves nothing behind.  Every message takes at least one byte, so
  on any input the reader returns at most as many messages as there were bytes; what stays in the buffer
  holds no complete message, and it is no longer than what was not consumed.
\<close>

theorem reader_progress:
  assumes "feed_python r chunk = (r', Inr ms)"
  shows "parse_message (buffer r') = Incomplete
    \<and> length ms + length (buffer r') \<le> length (buffer r) + length chunk"
  using feed_python_idle [OF assms] drain_count assms
  by (fastforce simp: feed_python_def idle_def Let_def split: if_splits prod.splits)

theorem reader_progress_witness:
  "case feed_python RESPReader (''+A'' @ SYM_CRLF @ '':7'' @ SYM_CRLF @ ''*2'') of (r', out) \<Rightarrow>
     (case out of Inr ms \<Rightarrow> length ms + length (buffer r') \<le> 10 | Inl e \<Rightarrow> False)"
proof -
  let ?c = "''+A'' @ SYM_CRLF @ '':7'' @ SYM_CRLF @ ''*2''"
  have "parse_message ?c = Parsed (MBytes ''+A'') ('':7'' @ SYM_CRLF @ ''*2'')"
    "parse_message ('':7'' @ SYM_CRLF @ ''*2'') = Parsed (MInt 7) ''*2''" "parse_message ''*2'' = Incomplete"
    by code_simp+
  then have "drain ?c = (''*2'', Inr [MBytes ''+A'', MInt 7])" by (simp add: drain.simps del: parse_message.simps)
  then have "feed_python RESPReader ?c = (\<lparr>buffer = ''*2''\<rparr>, Inr [MBytes ''+A'', MInt 7])"
    by (simp add: feed_python_def RESPReader_def MAX_BUFFER_def SYM_CRLF_def)
  note f = this
  from reader_progress [OF f] show ?thesis unfolding f by (simp add: RESPReader_def SYM_CRLF_def)
qed

end
