(* ===== verification/PubSubHub.thy ===== *)
theory PubSubHub
  imports Resp Glob "HOL-Library.FSet" "HOL-Library.Sublist"
begin

text \<open>
  The session object of \<open>commands/__init__.py\<close> and the publish/subscribe hub of \<open>pubsub.py\<close>.  A
  session is named by a number, the identity of the Python object; a Python set is an \<open>fset\<close>.  The
  hub runs over the sets of sessions in the order of those numbers: deliveries to different sessions
  do not influence each other.  The cache of compiled patterns is left out.

  A frame that is pushed to a session goes to its \<open>sender\<close>: the transport of the connection
  (\<open>sent\<close>), the collector that \<^verbatim>\<open>EXEC\<close> installs while it replays a command (\<open>collected\<close>),
  or, without a sender, the \<open>outbox\<close>.
\<close>

datatype sink = Transport | Collector

type_synonym sid = nat

record session =
  in_multi :: bool
  queue :: "bytes list list"
  channels :: "bytes fset"
  patterns :: "bytes fset"
  sender :: "sink option"
  outbox :: "bytes list"
  sent :: "bytes list"
  collected :: "bytes list"
  watched :: "(bytes \<times> (int \<times> bool)) list"

definition Session :: session where
  "Session = \<lparr>in_multi = False, queue = [], channels = {||}, patterns = {||}, sender = None,
     outbox = [], sent = [], collected = [], watched = []\<rparr>"

definition subscription_count :: "session \<Rightarrow> int" where
  "subscription_count ss = int (fcard (channels ss)) + int (fcard (patterns ss))"

definition subscribed :: "session \<Rightarrow> bool" where
  "subscribed ss \<longleftrightarrow> channels ss \<noteq> {||} \<or> patterns ss \<noteq> {||}"

definition deliver :: "bytes \<Rightarrow> session \<Rightarrow> session" where
  "deliver frame ss =
     (case sender ss of
        Some Transport \<Rightarrow> ss\<lparr>sent := sent ss @ [frame]\<rparr>
      | Some Collector \<Rightarrow> ss\<lparr>collected := collected ss @ [frame]\<rparr>
      | None \<Rightarrow> ss\<lparr>outbox := outbox ss @ [frame]\<rparr>)"

section \<open>The hub\<close>

record hub =
  hub_channels :: "(bytes \<times> sid fset) list"
  hub_patterns :: "(bytes \<times> sid fset) list"

definition PubSubHub :: hub where
  "PubSubHub = \<lparr>hub_channels = [], hub_patterns = []\<rparr>"

definition subscribers :: "(bytes \<times> sid fset) list \<Rightarrow> bytes \<Rightarrow> sid fset" where
  "subscribers table name = (case map_of table name of None \<Rightarrow> {||} | Some sids \<Rightarrow> sids)"

definition table_add :: "sid \<Rightarrow> bytes \<Rightarrow> (bytes \<times> sid fset) list \<Rightarrow> (bytes \<times> sid fset) list" where
  "table_add sid name table = AList.update name (finsert sid (subscribers table name)) table"

definition table_discard :: "sid \<Rightarrow> bytes \<Rightarrow> (bytes \<times> sid fset) list \<Rightarrow> (bytes \<times> sid fset) list" where
  "table_discard sid name table =
     (case map_of table name of
        None \<Rightarrow> table
      | Some sids \<Rightarrow>
          let sids' = sids |-| {|sid|} in
          if sids' = {||} then AList.delete name table else AList.update name sids' table)"

definition hub_subscribe :: "sid \<Rightarrow> bytes \<Rightarrow> hub \<Rightarrow> hub" where
  "hub_subscribe sid channel h = h\<lparr>hub_channels := table_add sid channel (hub_channels h)\<rparr>"

definition hub_unsubscribe :: "sid \<Rightarrow> bytes \<Rightarrow> hub \<Rightarrow> hub" where
  "hub_unsubscribe sid channel h = h\<lparr>hub_channels := table_discard sid channel (hub_channels h)\<rparr>"

definition hub_psubscribe :: "sid \<Rightarrow> bytes \<Rightarrow> hub \<Rightarrow> hub" where
  "hub_psubscribe sid pattern h = h\<lparr>hub_patterns := table_add sid pattern (hub_patterns h)\<rparr>"

definition hub_punsubscribe :: "sid \<Rightarrow> bytes \<Rightarrow> hub \<Rightarrow> hub" where
  "hub_punsubscribe sid pattern h = h\<lparr>hub_patterns := table_discard sid pattern (hub_patterns h)\<rparr>"

definition table_drop :: "sid \<Rightarrow> (bytes \<times> sid fset) list \<Rightarrow> (bytes \<times> sid fset) list" where
  "table_drop sid table = fold (table_discard sid) (map fst table) table"

definition remove_session :: "sid \<Rightarrow> hub \<Rightarrow> hub" where
  "remove_session sid h =
     h\<lparr>hub_channels := table_drop sid (hub_channels h), hub_patterns := table_drop sid (hub_patterns h)\<rparr>"

definition build_message :: "bytes \<Rightarrow> bytes \<Rightarrow> bytes" where
  "build_message channel payload = protocolBuilder (RList [RBytes ''message'', RBytes channel, RBytes payload])"

definition build_pmessage :: "bytes \<Rightarrow> bytes \<Rightarrow> bytes \<Rightarrow> bytes" where
  "build_pmessage pattern channel payload =
     protocolBuilder (RList [RBytes ''pmessage'', RBytes pattern, RBytes channel, RBytes payload])"

fun deliver_all :: "sid list \<Rightarrow> bytes \<Rightarrow> (sid \<Rightarrow> session) \<times> int \<Rightarrow> (sid \<Rightarrow> session) \<times> int" where
  "deliver_all [] frame (sess, receivers) = (sess, receivers)"
| "deliver_all (sid # sids) frame (sess, receivers) =
     deliver_all sids frame (sess(sid := deliver frame (sess sid)), receivers + 1)"

fun publish_patterns ::
  "(bytes \<times> sid fset) list \<Rightarrow> bytes \<Rightarrow> bytes \<Rightarrow> (sid \<Rightarrow> session) \<times> int \<Rightarrow> (sid \<Rightarrow> session) \<times> int" where
  "publish_patterns [] channel payload acc = acc"
| "publish_patterns ((pattern, sids) # rest) channel payload acc =
     publish_patterns rest channel payload
       (if compile_glob pattern channel
        then deliver_all (sorted_list_of_fset sids) (build_pmessage pattern channel payload) acc
        else acc)"

definition publish :: "hub \<Rightarrow> bytes \<Rightarrow> bytes \<Rightarrow> (sid \<Rightarrow> session) \<Rightarrow> (sid \<Rightarrow> session) \<times> int" where
  "publish h channel payload sess =
     publish_patterns (hub_patterns h) channel payload
       (deliver_all (sorted_list_of_fset (subscribers (hub_channels h) channel))
          (build_message channel payload) (sess, 0))"

definition active_channels :: "bytes option \<Rightarrow> hub \<Rightarrow> bytes list" where
  "active_channels pattern h =
     (case pattern of
        None \<Rightarrow> map fst (hub_channels h)
      | Some p \<Rightarrow> filter (compile_glob p) (map fst (hub_channels h)))"

definition numsub :: "hub \<Rightarrow> bytes \<Rightarrow> int" where
  "numsub h channel = int (fcard (subscribers (hub_channels h) channel))"

definition numpatterns :: "hub \<Rightarrow> int" where
  "numpatterns h = int (length (hub_patterns h))"

section \<open>The tables\<close>

definition wf_table :: "(bytes \<times> sid fset) list \<Rightarrow> bool" where
  "wf_table table \<longleftrightarrow> distinct (map fst table) \<and> (\<forall>name. map_of table name \<noteq> Some {||})"

declare map_of_eq_Some_iff [simp del]

lemma subscribers_add [simp]:
  "subscribers (table_add sid name table) n =
     (if n = name then finsert sid (subscribers table n) else subscribers table n)"
  by (simp add: subscribers_def table_add_def map_of_update)

lemma subscribers_discard [simp]:
  "subscribers (table_discard sid name table) n =
     (if n = name then subscribers table n |-| {|sid|} else subscribers table n)"
  by (auto simp: subscribers_def table_discard_def Let_def map_of_update map_of_delete_if split: option.splits)

lemma wf_table_add [simp]: "wf_table table \<Longrightarrow> wf_table (table_add sid name table)"
  by (auto simp: wf_table_def table_add_def map_of_update alist.inv_put)

lemma wf_table_discard [simp]: "wf_table table \<Longrightarrow> wf_table (table_discard sid name table)"
  by (auto simp: wf_table_def table_discard_def Let_def map_of_update map_of_delete_if alist.inv_put
      alist.inv_del split: option.splits if_splits)

lemma subscribers_discards:
  "subscribers (fold (table_discard sid) names table) n =
     (if n \<in> set names then subscribers table n |-| {|sid|} else subscribers table n)"
  by (induction names arbitrary: table) auto

lemma subscribers_drop [simp]: "subscribers (table_drop sid table) n = subscribers table n |-| {|sid|}"
proof (cases "n \<in> set (map fst table)")
  case False
  then have "subscribers table n = {||}"
    by (auto simp: subscribers_def split: option.splits dest: map_of_SomeD intro: rev_image_eqI)
  then show ?thesis using False by (simp add: table_drop_def subscribers_discards)
qed (simp add: table_drop_def subscribers_discards)

lemma wf_table_drop [simp]: "wf_table table \<Longrightarrow> wf_table (table_drop sid table)"
proof -
  have "wf_table t \<Longrightarrow> wf_table (fold (table_discard sid) names t)" for names t
    by (induction names arbitrary: t) auto
  then show "wf_table table \<Longrightarrow> wf_table (table_drop sid table)" by (simp add: table_drop_def)
qed

section \<open>Publishing\<close>

definition frames_for :: "hub \<Rightarrow> bytes \<Rightarrow> bytes \<Rightarrow> sid \<Rightarrow> bytes list" where
  "frames_for h channel payload sid =
     (if sid |\<in>| subscribers (hub_channels h) channel then [build_message channel payload] else [])
     @ map (\<lambda>(pattern, sids). build_pmessage pattern channel payload)
         (filter (\<lambda>(pattern, sids). compile_glob pattern channel \<and> sid |\<in>| sids) (hub_patterns h))"

text \<open>The sessions the hub knows; the others get no frames.\<close>

definition hub_sids :: "hub \<Rightarrow> sid set" where
  "hub_sids h = (\<Union>(name, sids)\<in>set (hub_channels h) \<union> set (hub_patterns h). fset sids)"

lemma finite_hub_sids: "finite (hub_sids h)"
  by (auto simp: hub_sids_def)

lemma frames_for_unknown: "sid \<notin> hub_sids h \<Longrightarrow> frames_for h channel payload sid = []"
  by (auto simp: frames_for_def hub_sids_def subscribers_def filter_empty_conv split: option.splits
      dest: map_of_SomeD)

lemma deliver_all_eq:
  assumes "distinct sids"
  shows "deliver_all sids frame (sess, n) =
    ((\<lambda>sid. if sid \<in> set sids then deliver frame (sess sid) else sess sid), n + int (length sids))"
  using assms by (induction sids arbitrary: sess n) (auto simp: fun_eq_iff)

lemma deliver_sids:
  "deliver_all (sorted_list_of_fset sids) frame (sess, n) =
    ((\<lambda>sid. if sid |\<in>| sids then deliver frame (sess sid) else sess sid), n + int (fcard sids))"
proof -
  have "distinct (sorted_list_of_fset sids)" "set (sorted_list_of_fset sids) = fset sids"
    "length (sorted_list_of_fset sids) = fcard sids"
    by (simp_all add: sorted_list_of_fset.rep_eq fcard.rep_eq)
  then show ?thesis using deliver_all_eq [of "sorted_list_of_fset sids" frame sess n] by simp
qed

lemma publish_patterns_eq:
  "publish_patterns table channel payload (sess, n) =
    ((\<lambda>sid. fold deliver (map (\<lambda>(pattern, sids). build_pmessage pattern channel payload)
         (filter (\<lambda>(pattern, sids). compile_glob pattern channel \<and> sid |\<in>| sids) table)) (sess sid)),
     n + (\<Sum>(pattern, sids) \<leftarrow> filter (\<lambda>(pattern, sids). compile_glob pattern channel) table. int (fcard sids)))"
proof (induction table arbitrary: sess n)
  case (Cons r table)
  obtain pattern sids where "r = (pattern, sids)" by (cases r)
  then show ?case by (auto simp: deliver_sids Cons fun_eq_iff)
qed simp

lemma publish_eq:
  "publish h channel payload sess =
    ((\<lambda>sid. fold deliver (frames_for h channel payload sid) (sess sid)),
     numsub h channel
     + (\<Sum>(pattern, sids) \<leftarrow> filter (\<lambda>(pattern, sids). compile_glob pattern channel) (hub_patterns h). int (fcard sids)))"
  by (simp add: publish_def deliver_sids publish_patterns_eq frames_for_def numsub_def fun_eq_iff)

lemma deliver_frame [frame_simps]:
  "in_multi (deliver frame ss) = in_multi ss" "queue (deliver frame ss) = queue ss"
  "channels (deliver frame ss) = channels ss" "patterns (deliver frame ss) = patterns ss"
  "sender (deliver frame ss) = sender ss" "watched (deliver frame ss) = watched ss"
  "sender ss \<noteq> Some Collector \<Longrightarrow> collected (deliver frame ss) = collected ss"
  by (simp_all add: deliver_def split: option.splits sink.splits)

lemma delivers_frame [frame_simps]:
  "in_multi (fold deliver frames ss) = in_multi ss" "queue (fold deliver frames ss) = queue ss"
  "channels (fold deliver frames ss) = channels ss" "patterns (fold deliver frames ss) = patterns ss"
  "sender (fold deliver frames ss) = sender ss" "watched (fold deliver frames ss) = watched ss"
  "sender ss \<noteq> Some Collector \<Longrightarrow> collected (fold deliver frames ss) = collected ss"
  by (induction frames arbitrary: ss) (simp_all add: frame_simps)

text \<open>All that a session has been sent, by destination.\<close>

definition received :: "session \<Rightarrow> bytes list" where
  "received ss = (case sender ss of Some Transport \<Rightarrow> sent ss | Some Collector \<Rightarrow> collected ss | None \<Rightarrow> outbox ss)"

lemma sent_deliver: "prefix (sent ss) (sent (deliver frame ss))"
  by (simp add: deliver_def split: option.splits sink.splits)

lemma sent_delivers: "prefix (sent ss) (sent (fold deliver frames ss))"
  by (induction frames arbitrary: ss) (auto intro: prefix_order.trans [OF sent_deliver])

lemma received_deliver [simp]: "received (deliver frame ss) = received ss @ [frame]"
  by (simp add: received_def deliver_def split: option.splits sink.splits)

lemma received_delivers [simp]: "received (fold deliver frames ss) = received ss @ frames"
  by (induction frames arbitrary: ss) simp_all

end
