(* ===== verification/Server.thy ===== *)
theory Server
  imports Values PubSubHub
begin

text \<open>
  The state every command works on (the \<^verbatim>\<open>Commands\<close> object of \<open>commands/__init__.py\<close> with its
  store, hub and sessions) and the helpers of \<open>commands/basic.py\<close> the commands share: keyspace
  notifications, the write hook \<^verbatim>\<open>_after_write\<close>, the expiry callback, the type-checked lookup.

  An \<open>env\<close> is what a command takes from outside: the clock, which is read once per command, the
  iteration order of Python's sets and the numbers \<^verbatim>\<open>random\<close> draws.  \<open>env_ok\<close> states what is
  documented of them.

  The last part is the frame of the command handlers: what a handler of a data command leaves alone
  (\<open>quiet\<close>), and that it keeps the store well-formed (\<open>safe\<close>).
\<close>

record env = clock +
  set_order :: "bytes fset \<Rightarrow> bytes list"
  rng_choice :: "nat \<Rightarrow> nat \<Rightarrow> nat"
  rng_sample :: "nat \<Rightarrow> nat \<Rightarrow> nat list"

definition env_ok :: "env \<Rightarrow> bool" where
  "env_ok ev \<longleftrightarrow>
     (\<forall>S. distinct (set_order ev S) \<and> fset_of_list (set_order ev S) = S) \<and>
     (\<forall>i n. 0 < n \<longrightarrow> rng_choice ev i n < n) \<and>
     (\<forall>n k. k \<le> n \<longrightarrow> length (rng_sample ev n k) = k \<and> distinct (rng_sample ev n k)
        \<and> set (rng_sample ev n k) \<subseteq> {..<n})"

record 'bm server =
  data :: "'bm val data"
  persistence :: "(bytes \<times> 'bm val row) list option"
  hub :: hub
  sessions :: "sid \<Rightarrow> session"
  cur_session :: "sid option"
  notify_keyspace_events :: bytes

definition Commands :: "'bm server" where
  "Commands = \<lparr>data = Data, persistence = None, hub = PubSubHub, sessions = (\<lambda>_. Session),
     cur_session = None, notify_keyspace_events = []\<rparr>"

section \<open>Notifications\<close>

definition hub_publish :: "bytes \<Rightarrow> bytes \<Rightarrow> 'bm server \<Rightarrow> 'bm server \<times> int" where
  "hub_publish channel payload s =
     (case publish (hub s) channel payload (sessions s) of
        (sess, receivers) \<Rightarrow> (s\<lparr>sessions := sess\<rparr>, receivers))"

definition EVENT_CLASS :: "(bytes \<times> char) list" where
  "EVENT_CLASS =
     map (\<lambda>e. (e, CHR ''$'')) [''set'', ''setrange'', ''append'', ''incrby'', ''incrbyfloat'', ''setbit''] @
     map (\<lambda>e. (e, CHR ''l''))
       [''lpush'', ''rpush'', ''lpop'', ''rpop'', ''ltrim'', ''lset'', ''linsert'', ''lrem''] @
     map (\<lambda>e. (e, CHR ''s'')) [''sadd'', ''srem'', ''spop'', ''sinterstore'', ''sunionstore'', ''sdiffstore''] @
     map (\<lambda>e. (e, CHR ''h'')) [''hset'', ''hdel'', ''hincrby'', ''hincrbyfloat'', ''hexpire'', ''hpersist''] @
     map (\<lambda>e. (e, CHR ''z''))
       [''zadd'', ''zincr'', ''zrem'', ''zpopmin'', ''zpopmax'', ''zremrangebyrank'', ''zremrangebyscore'',
        ''zremrangebylex'', ''zunionstore'', ''zinterstore'', ''zdiffstore''] @
     [(''del'', CHR ''g''), (''expire'', CHR ''g''), (''persist'', CHR ''g''), (''expired'', CHR ''x'')]"

definition notify :: "bytes \<Rightarrow> bytes \<Rightarrow> 'bm server \<Rightarrow> 'bm server" where
  "notify key event s =
     (let flags = notify_keyspace_events s in
      if flags = [] then s
      else case map_of EVENT_CLASS event of
        None \<Rightarrow> s
      | Some event_class \<Rightarrow>
          if CHR ''A'' \<notin> set flags \<and> event_class \<notin> set flags then s
          else
            let s1 = (if CHR ''K'' \<in> set flags
                      then fst (hub_publish (''__keyspace@0__:'' @ key) event s) else s)
            in if CHR ''E'' \<in> set flags
               then fst (hub_publish (''__keyevent@0__:'' @ event) key s1) else s1)"

definition upd_data :: "('bm val data \<Rightarrow> 'bm val data) \<Rightarrow> 'bm server \<Rightarrow> 'bm server" where
  "upd_data f s = s\<lparr>data := f (data s)\<rparr>"

definition after_write :: "bytes \<Rightarrow> bytes \<Rightarrow> 'bm server \<Rightarrow> 'bm server" where
  "after_write key event s = notify key event (upd_data (data_touch key) s)"

definition on_key_expired :: "bytes \<Rightarrow> 'bm server \<Rightarrow> 'bm server" where
  "on_key_expired key s = notify key ''expired'' s"

text \<open>A store operation that may purge: the callback runs on every purged key.\<close>

definition lift_data ::
  "('bm val data \<Rightarrow> 'bm val data \<times> bytes list \<times> 'a) \<Rightarrow> 'bm server \<Rightarrow> 'bm server \<times> 'a" where
  "lift_data f s =
     (case f (data s) of (d, purged, r) \<Rightarrow> (fold on_key_expired purged (s\<lparr>data := d\<rparr>), r))"

definition srv_get :: "env \<Rightarrow> bytes \<Rightarrow> 'bm server \<Rightarrow> 'bm server \<times> 'bm val option" where
  "srv_get ev key s = lift_data (data_get ev key) s"

definition srv_remove :: "env \<Rightarrow> bytes \<Rightarrow> 'bm server \<Rightarrow> 'bm server \<times> int" where
  "srv_remove ev key s = (case data_remove ev key (data s) of (d, n) \<Rightarrow> (s\<lparr>data := d\<rparr>, n))"

text \<open>\<^verbatim>\<open>expect_kind\<close> of \<open>commands/common.py\<close>.\<close>

definition expect_kind ::
  "env \<Rightarrow> bytes \<Rightarrow> kind \<Rightarrow> 'bm server \<Rightarrow> ('bm server, exn, 'bm val option) result" where
  "expect_kind ev key kind s =
     (case srv_get ev key s of
        (s, v) \<Rightarrow>
          (case v of
             None \<Rightarrow> returns s None
           | Some x \<Rightarrow> if kind_of x \<noteq> kind then raise_error s WRONGTYPE else returns s v))"

section \<open>What the notifications leave alone\<close>

text \<open>
  The part of a session that pushed frames do not change.  A session the hub does not know is not
  changed at all.
\<close>

definition standing :: "session \<Rightarrow> bool \<times> bytes list list \<times> bytes fset \<times> bytes fset \<times> sink option
    \<times> (bytes \<times> (int \<times> bool)) list \<times> bytes list" where
  "standing ss = (in_multi ss, queue ss, channels ss, patterns ss, sender ss, watched ss,
     if sender ss = Some Collector then [] else collected ss)"

definition quiet :: "'bm server \<Rightarrow> 'bm server \<Rightarrow> bool" where
  "quiet s s' \<longleftrightarrow> hub s' = hub s \<and> cur_session s' = cur_session s
     \<and> (\<forall>sid. standing (sessions s' sid) = standing (sessions s sid))
     \<and> (\<forall>sid. sid \<notin> hub_sids (hub s) \<longrightarrow> sessions s' sid = sessions s sid)
     \<and> (\<forall>sid. prefix (sent (sessions s sid)) (sent (sessions s' sid)))"

lemma quiet_refl [simp, intro]: "quiet s s"
  by (simp add: quiet_def)

lemma quiet_trans: "quiet s s' \<Longrightarrow> quiet s' s'' \<Longrightarrow> quiet s s''"
  unfolding quiet_def by (auto intro: prefix_order.trans)

lemma quiet_publish: "quiet s (fst (hub_publish channel payload s))"
  by (simp add: quiet_def hub_publish_def publish_eq standing_def frame_simps frames_for_unknown sent_delivers)

lemma data_publish [simp]: "data (fst (hub_publish channel payload s)) = data s"
  by (simp add: hub_publish_def publish_eq)

lemma data_notify [simp]: "data (notify key event s) = data s"
  by (simp add: notify_def Let_def split: option.splits)

lemma quiet_notify: "quiet s (notify key event s)"
  by (auto simp: notify_def Let_def quiet_publish quiet_trans [OF quiet_publish quiet_publish]
      split: option.splits)

lemma data_expired [simp]: "data (fold on_key_expired purged s) = data s"
  by (induction purged arbitrary: s) (simp_all add: on_key_expired_def)

lemma quiet_expired: "quiet s (fold on_key_expired purged s)"
proof (induction purged arbitrary: s)
  case (Cons key purged)
  have "quiet s (on_key_expired key s)" by (simp add: on_key_expired_def quiet_notify)
  then show ?case using Cons [of "on_key_expired key s"] by (auto intro: quiet_trans)
qed simp

lemma data_upd_data [simp]: "data (upd_data f s) = f (data s)"
  by (simp add: upd_data_def)

lemma quiet_upd_data: "quiet s (upd_data f s)"
  by (simp add: upd_data_def quiet_def)

lemma data_after_write [simp]: "data (after_write key event s) = data_touch key (data s)"
  by (simp add: after_write_def)

lemma quiet_set_data: "quiet s (s\<lparr>data := d\<rparr>)"
  by (simp add: quiet_def)

lemma data_lift_data [simp]: "data (fst (lift_data f s)) = fst (f (data s))"
  by (simp add: lift_data_def split: prod.splits)

lemma lift_data_result [simp]: "snd (lift_data f s) = snd (snd (f (data s)))"
  by (simp add: lift_data_def split: prod.splits)

lemma quiet_lift_data: "quiet s (fst (lift_data f s))"
  by (auto simp: lift_data_def quiet_trans [OF quiet_set_data quiet_expired] split: prod.splits)

lemma quiet_after_write: "quiet s (after_write key event s)"
  unfolding after_write_def using quiet_trans [OF quiet_upd_data quiet_notify] .

section \<open>The view\<close>

text \<open>The keyspace as a client can see it: the live keys with their value and deadline.\<close>

definition view :: "env \<Rightarrow> 'bm server \<Rightarrow> bytes \<Rightarrow> ('bm val \<times> int option) option" where
  "view ev s = peek ev (data s)"

definition value_at :: "env \<Rightarrow> 'bm server \<Rightarrow> bytes \<Rightarrow> 'bm val option" where
  "value_at ev s key = map_option fst (view ev s key)"

named_theorems view_simps

lemma view_publish [view_simps]: "view ev (fst (hub_publish channel payload s)) = view ev s"
  and view_notify [view_simps]: "view ev (notify key event s) = view ev s"
  and view_after_write [view_simps]: "view ev (after_write key event s) = view ev s"
  and view_set_data [view_simps]: "view ev (s\<lparr>data := d\<rparr>) = peek ev d"
  by (simp_all add: view_def peek_touch)

lemma view_lift_data [view_simps]: "view ev (fst (lift_data f s)) = peek ev (fst (f (data s)))"
  by (simp add: view_def)

lemma view_get [view_simps]: "view ev (fst (srv_get ev key s)) = view ev s"
  by (simp add: srv_get_def view_simps peek_get) (simp add: view_def)

lemma srv_get_result [simp]: "snd (srv_get ev key s) = value_at ev s key"
  by (simp add: srv_get_def data_get_result data_getitem_peek value_at_def view_def)

lemma data_srv_get [simp]: "data (fst (srv_get ev key s)) = fst (data_get ev key (data s))"
  by (simp add: srv_get_def)

lemma quiet_srv_get: "quiet s (fst (srv_get ev key s))"
  by (simp add: srv_get_def quiet_lift_data)

lemma view_remove [view_simps]: "view ev (fst (srv_remove ev key s)) = (view ev s)(key := None)"
  using peek_remove [of ev key "data s"]
  by (cases "data_remove ev key (data s)") (simp add: srv_remove_def view_def)

lemma srv_remove_result [simp]: "snd (srv_remove ev key s) = (if view ev s key = None then 0 else 1)"
  using remove_result [of ev key "data s"]
  by (cases "data_remove ev key (data s)") (simp add: srv_remove_def view_def)

lemma data_srv_remove [simp]: "data (fst (srv_remove ev key s)) = fst (data_remove ev key (data s))"
  by (simp add: srv_remove_def split: prod.splits)

lemma quiet_srv_remove: "quiet s (fst (srv_remove ev key s))"
  by (simp add: srv_remove_def quiet_set_data split: prod.splits)

lemma expect_kind_cases:
  "expect_kind ev key kind s =
     (case value_at ev s key of
        None \<Rightarrow> returns (fst (srv_get ev key s)) None
      | Some x \<Rightarrow>
          if kind_of x = kind then returns (fst (srv_get ev key s)) (Some x)
          else raise_error (fst (srv_get ev key s)) WRONGTYPE)"
  by (simp add: expect_kind_def case_prod_unfold split: option.splits)

lemma contains_view: "data_contains ev (data s) key \<longleftrightarrow> view ev s key \<noteq> None"
  by (simp add: data_contains_def view_def peek_def split: option.splits)

lemma value_at_None: "value_at ev s key = None \<longleftrightarrow> view ev s key = None"
  by (simp add: value_at_def)

lemma contains_srv_get [simp]:
  fixes s :: "'bm server" and ev :: env
  shows "data_contains ev (fst (data_get ev key (data s))) k = data_contains ev (data s) k"
  using contains_view [of ev "fst (srv_get ev key s)" k] contains_view [of ev s k] by (simp add: view_simps)

lemma view_upd_set [view_simps]:
  "view ev (upd_data (data_set ev key v w keep) s) =
     (view ev s)(key :=
        (if keep \<and> view ev s key \<noteq> None then Some (v, snd (the (view ev s key)))
         else case w of
                None \<Rightarrow> Some (v, None)
              | Some w \<Rightarrow>
                  if wall_ns ev < w then Some (v, Some (mono_ns ev + (w - wall_ns ev))) else None))"
  by (simp only: view_def data_upd_data peek_set)

lemma view_upd_setitem [view_simps]:
  "view ev (upd_data (data_setitem key v) s) = (view ev s)(key \<mapsto> (v, None))"
  by (simp only: view_def data_upd_data peek_setitem)

lemma view_upd_mutate [view_simps]:
  "view ev (upd_data (data_mutate key v) s) =
     (case view ev s key of None \<Rightarrow> view ev s | Some (_, t) \<Rightarrow> (view ev s)(key \<mapsto> (v, t)))"
  by (simp only: view_def data_upd_data peek_mutate)

lemma view_upd_persist [view_simps]:
  "view ev (upd_data (\<lambda>d. fst (data_persist ev key d)) s) =
     (case view ev s key of None \<Rightarrow> view ev s | Some (v, _) \<Rightarrow> (view ev s)(key \<mapsto> (v, None)))"
  by (simp only: view_def data_upd_data peek_persist)

section \<open>Well-formedness of the store\<close>

definition ok_at :: "'bm val data \<Rightarrow> bytes \<Rightarrow> bool" where
  "ok_at d key = (case map_of (storage d) key of None \<Rightarrow> True | Some e \<Rightarrow> value_ok (stored e))"

definition store_ok :: "'bm val data \<Rightarrow> bool" where
  "store_ok d \<longleftrightarrow> wf_data d \<and> (\<forall>key. ok_at d key)"

named_theorems ok_at_simps

lemma ok_at_setitem [ok_at_simps]:
  "ok_at (data_setitem key v d) k = (if k = key then value_ok v else ok_at d k)"
  by (simp add: ok_at_def data_setitem_def map_of_update)

lemma ok_at_set [ok_at_simps]:
  "ok_at (data_set ck key v w keep d) k = (if k = key then value_ok v else ok_at d k)"
  by (simp add: ok_at_def data_set_def Let_def map_of_update)

lemma ok_at_mutate [ok_at_simps]:
  "ok_at (data_mutate key v d) k =
     (if k = key then map_of (storage d) key = None \<or> value_ok v else ok_at d k)"
  by (simp add: ok_at_def data_mutate_def map_of_update split: option.splits)

lemma ok_at_remove [ok_at_simps]: "ok_at (fst (data_remove ck key d)) k = (k = key \<or> ok_at d k)"
  by (auto simp: ok_at_def data_remove_def map_of_delete_if split: option.splits)

lemma ok_at_touch [ok_at_simps]: "ok_at (data_touch key d) k = ok_at d k"
  by (simp add: ok_at_def data_touch_def)

lemma ok_at_clear [ok_at_simps]: "ok_at (data_clear d) k"
  by (simp add: ok_at_def data_clear_def)

lemma ok_at_purge_key: "ok_at d k \<Longrightarrow> ok_at (purge_key key d) k"
  by (simp add: ok_at_def purge_key_def map_of_delete_if)

lemma ok_at_purge_keys: "ok_at d k \<Longrightarrow> ok_at (fold purge_key keys d) k"
  by (induction keys arbitrary: d) (auto intro: ok_at_purge_key)

lemma ok_at_update_deadline:
  "ok_at d k \<Longrightarrow> map_of (storage d) key = Some e \<Longrightarrow> stored e' = stored e \<Longrightarrow>
    ok_at (d\<lparr>storage := AList.update key e' (storage d)\<rparr>) k"
  by (cases "k = key") (auto simp: ok_at_def map_of_update)

lemma ok_at_delete: "ok_at d k \<Longrightarrow> ok_at (d\<lparr>storage := AList.delete key (storage d)\<rparr>) k"
  by (simp add: ok_at_def map_of_delete_if)

lemma store_ok_get: "store_ok d \<Longrightarrow> store_ok (fst (data_get ck key d))"
  by (auto simp: store_ok_def wf_reads data_get_def ok_at_purge_key wf_purge_key split: option.splits)

lemma store_ok_sweeps:
  "store_ok d \<Longrightarrow> store_ok (fst (sweep ck d))" "store_ok d \<Longrightarrow> store_ok (fst (data_iter ck d))"
  "store_ok d \<Longrightarrow> store_ok (fst (data_len ck d))"
  by (auto simp: store_ok_def wf_purge_keys data_iter_def data_len_def sweep_def Let_def ok_at_purge_keys)

lemma store_ok_reads:
  "store_ok d \<Longrightarrow> store_ok (fst (data_ttl_ms ck key d))"
  "store_ok d \<Longrightarrow> store_ok (fst (data_ttl ck key d))"
  "store_ok d \<Longrightarrow> store_ok (fst (data_wall_expiry ck key d))"
  by (auto simp: store_ok_def data_ttl_def data_ttl_ms_def data_wall_expiry_def wf_purge_key ok_at_purge_key
      split: option.splits prod.splits)

lemma store_ok_expires:
  assumes "store_ok d"
  shows "store_ok (fst (data_expire ck key secs d))" "store_ok (fst (data_expire_at ck key w d))"
    "store_ok (fst (data_persist ck key d))"
  using assms
  by (auto simp: store_ok_def wf_writes)
    (auto simp: data_expire_def data_expire_at_def data_persist_def Let_def ok_at_purge_key ok_at_delete
      ok_at_update_deadline split: option.splits)

lemma store_ok_touch: "store_ok d \<Longrightarrow> store_ok (data_touch key d)"
  by (simp add: store_ok_def wf_touch ok_at_touch)

lemma store_ok_remove: "store_ok d \<Longrightarrow> store_ok (fst (data_remove ck key d))"
  by (simp add: store_ok_def wf_writes ok_at_remove)

lemma store_ok_set: "store_ok d \<Longrightarrow> value_ok v \<Longrightarrow> store_ok (data_set ck key v w keep d)"
  by (simp add: store_ok_def wf_writes ok_at_set)

lemma store_ok_setitem: "store_ok d \<Longrightarrow> value_ok v \<Longrightarrow> store_ok (data_setitem key v d)"
  by (simp add: store_ok_def wf_writes ok_at_setitem)

lemma store_ok_mutate: "store_ok d \<Longrightarrow> value_ok v \<Longrightarrow> store_ok (data_mutate key v d)"
  by (simp add: store_ok_def wf_writes ok_at_mutate)

lemma store_ok_clear: "store_ok (data_clear d)"
  by (simp add: store_ok_def wf_clear ok_at_clear)

lemma store_ok_Data [simp]: "store_ok Data"
  by (simp add: store_ok_def wf_data_def ok_at_def Data_def)

lemma value_at_ok: "store_ok (data s) \<Longrightarrow> value_at ev s key = Some v \<Longrightarrow> value_ok v"
  by (auto simp: store_ok_def ok_at_def value_at_def view_def peek_def split: option.splits if_splits
      dest!: spec [of _ key])

section \<open>Safe handlers\<close>

text \<open>
  What every handler of a data command guarantees, whatever it answers: connections, subscriptions
  and settings are left alone, and a well-formed store stays well-formed.
\<close>

definition safe :: "'bm server \<Rightarrow> 'bm server \<Rightarrow> bool" where
  "safe s s' \<longleftrightarrow> quiet s s' \<and> (store_ok (data s) \<longrightarrow> store_ok (data s'))"

named_theorems safe_intros

lemma safe_refl [simp, intro, safe_intros]: "safe s s"
  by (simp add: safe_def)

lemma safe_trans: "safe s s' \<Longrightarrow> safe s' s'' \<Longrightarrow> safe s s''"
  using quiet_trans by (auto simp: safe_def)

lemma safe_quiet: "safe s s' \<Longrightarrow> quiet s s'"
  by (simp add: safe_def)

lemma safe_store: "safe s s' \<Longrightarrow> store_ok (data s) \<Longrightarrow> store_ok (data s')"
  by (simp add: safe_def)

lemma safe_bind:
  assumes "safe s (fst p)" "\<And>s' a. p = (s', Inr a) \<Longrightarrow> safe s s' \<Longrightarrow> safe s' (fst (f s' a))"
  shows "safe s (fst (bindR p f))"
  using assms by (cases p rule: result_cases) (auto simp: returns_def intro: safe_trans)

lemma safe_notify: "safe s (notify key event s)"
  by (simp add: safe_def quiet_notify)

lemma safe_after_write: "safe s (after_write key event s)"
  by (simp add: safe_def quiet_after_write store_ok_touch)

lemma safe_get: "safe s (fst (srv_get ev key s))"
  by (simp add: safe_def quiet_srv_get store_ok_get)

lemma safe_remove: "safe s (fst (srv_remove ev key s))"
  by (simp add: safe_def quiet_srv_remove store_ok_remove)

lemma safe_upd: "(store_ok (data s) \<Longrightarrow> store_ok (f (data s))) \<Longrightarrow> safe s (upd_data f s)"
  by (simp add: safe_def quiet_upd_data)

lemma safe_lift: "(store_ok (data s) \<Longrightarrow> store_ok (fst (f (data s)))) \<Longrightarrow> safe s (fst (lift_data f s))"
  by (simp add: safe_def quiet_lift_data)

lemma safe_expect: "safe s (fst (expect_kind ev key kind s))"
  by (simp add: expect_kind_cases safe_get split: option.splits)

text \<open>The same, as steps that end a chain.\<close>

lemma safe_after_write' [safe_intros]: "safe s s' \<Longrightarrow> safe s (after_write key event s')"
  by (rule safe_trans [OF _ safe_after_write])

lemma safe_notify' [safe_intros]: "safe s s' \<Longrightarrow> safe s (notify key event s')"
  by (rule safe_trans [OF _ safe_notify])

lemma safe_get' [safe_intros]: "safe s s' \<Longrightarrow> safe s (fst (srv_get ev key s'))"
  by (rule safe_trans [OF _ safe_get])

lemma safe_remove' [safe_intros]: "safe s s' \<Longrightarrow> safe s (fst (srv_remove ev key s'))"
  by (rule safe_trans [OF _ safe_remove])

lemma safe_set' [safe_intros]:
  "safe s s' \<Longrightarrow> (store_ok (data s') \<Longrightarrow> value_ok v) \<Longrightarrow> safe s (upd_data (data_set ck key v w keep) s')"
  by (rule safe_trans [OF _ safe_upd]) (auto intro: store_ok_set)

lemma safe_setitem' [safe_intros]:
  "safe s s' \<Longrightarrow> (store_ok (data s') \<Longrightarrow> value_ok v) \<Longrightarrow> safe s (upd_data (data_setitem key v) s')"
  by (rule safe_trans [OF _ safe_upd]) (auto intro: store_ok_setitem)

lemma safe_mutate' [safe_intros]:
  "safe s s' \<Longrightarrow> (store_ok (data s') \<Longrightarrow> value_ok v) \<Longrightarrow> safe s (upd_data (data_mutate key v) s')"
  by (rule safe_trans [OF _ safe_upd]) (auto intro: store_ok_mutate)

section \<open>Emptied collections\<close>

text \<open>
  The handlers that take elements out of a collection empty it in place and remove the key
  afterwards.  In between, the store is well-formed except at that key.
\<close>

definition ok_but :: "bytes \<Rightarrow> 'bm val data \<Rightarrow> bool" where
  "ok_but key d \<longleftrightarrow> wf_data d \<and> (\<forall>k. k \<noteq> key \<longrightarrow> ok_at d k)"

definition safe_but :: "bytes \<Rightarrow> 'bm server \<Rightarrow> 'bm server \<Rightarrow> bool" where
  "safe_but key s s' \<longleftrightarrow> quiet s s' \<and> (store_ok (data s) \<longrightarrow> ok_but key (data s'))"

lemma safe_but_mutate: "safe s s' \<Longrightarrow> safe_but key s (upd_data (data_mutate key v) s')"
  using quiet_trans [OF _ quiet_upd_data]
  by (auto simp: safe_def safe_but_def ok_but_def store_ok_def wf_writes ok_at_mutate)

lemma safe_but_weaken: "safe s s' \<Longrightarrow> safe_but key s s'"
  by (auto simp: safe_def safe_but_def ok_but_def store_ok_def)

lemma safe_but_after_write: "safe_but key s s' \<Longrightarrow> safe_but key s (after_write k event s')"
  using quiet_trans [OF _ quiet_after_write] by (auto simp: safe_but_def ok_but_def wf_touch ok_at_touch)

lemma safe_but_notify: "safe_but key s s' \<Longrightarrow> safe_but key s (notify k event s')"
  using quiet_trans [OF _ quiet_notify] by (auto simp: safe_but_def)

lemma safe_but_mutate_other:
  "safe_but key s s' \<Longrightarrow> value_ok v \<Longrightarrow> safe_but key s (upd_data (data_mutate k v) s')"
  using quiet_trans [OF _ quiet_upd_data] by (auto simp: safe_but_def ok_but_def wf_writes ok_at_mutate)

lemma safe_but_setitem_mutate:
  "safe_but key s s' \<Longrightarrow> value_ok v \<Longrightarrow>
     safe_but key s (upd_data (data_mutate k v) (upd_data (data_setitem k u) s'))"
  using quiet_trans [OF quiet_trans [OF _ quiet_upd_data] quiet_upd_data]
  by (auto simp: safe_but_def ok_but_def wf_writes ok_at_mutate ok_at_setitem)

lemma safe_but_remove: "safe_but key s s' \<Longrightarrow> safe s (fst (srv_remove ev key s'))"
  using quiet_trans [OF _ quiet_srv_remove]
  by (auto simp: safe_def safe_but_def ok_but_def store_ok_def wf_writes ok_at_remove)

lemmas safe_but_intros =
  safe_but_after_write safe_but_notify safe_but_setitem_mutate safe_but_mutate_other safe_but_mutate

end
