(* ===== verification/PubSubCmds.thy ===== *)
theory PubSubCmds
  imports Server
begin

text \<open>
  The publish/subscribe commands of \<open>commands/pubsub.py\<close> and \<^verbatim>\<open>WATCH\<close>/\<^verbatim>\<open>UNWATCH\<close> of
  \<open>commands/basic.py\<close>: the handlers that work on the session of the connection.  They push their
  confirmations through the session and return a value, or nothing (\<open>None\<close>).

  The invariant \<open>hub_ok\<close> ties the two sides of a subscription together: the tables of the hub and the
  sets every session keeps.
\<close>

type_synonym 'bm session_result = "('bm server, exn, reply option) result"

definition session_of :: "'bm server \<Rightarrow> ('bm server, exn, sid) result" where
  "session_of s =
     (case cur_session s of
        None \<Rightarrow> raise_error s (err ''pub/sub commands need a per-connection session'')
      | Some sid \<Rightarrow> returns s sid)"

definition upd_session :: "sid \<Rightarrow> (session \<Rightarrow> session) \<Rightarrow> 'bm server \<Rightarrow> 'bm server" where
  "upd_session sid f s = s\<lparr>sessions := (sessions s)(sid := f (sessions s sid))\<rparr>"

definition upd_hub :: "(hub \<Rightarrow> hub) \<Rightarrow> 'bm server \<Rightarrow> 'bm server" where
  "upd_hub f s = s\<lparr>hub := f (hub s)\<rparr>"

text \<open>A confirmation names the event, the channel and how many subscriptions the session has now.\<close>

definition confirm :: "bytes \<Rightarrow> reply \<Rightarrow> session \<Rightarrow> session" where
  "confirm event name ss =
     deliver (protocolBuilder (RList [RBytes event, name, RInt (subscription_count ss)])) ss"

lemma confirm_frame [frame_simps]:
  "in_multi (confirm event name ss) = in_multi ss" "queue (confirm event name ss) = queue ss"
  "channels (confirm event name ss) = channels ss" "patterns (confirm event name ss) = patterns ss"
  "sender (confirm event name ss) = sender ss" "watched (confirm event name ss) = watched ss"
  "sender ss \<noteq> Some Collector \<Longrightarrow> collected (confirm event name ss) = collected ss"
  by (simp_all add: confirm_def frame_simps)

section \<open>Subscribing\<close>

definition subscribe_one :: "sid \<Rightarrow> bytes \<Rightarrow> 'bm server \<Rightarrow> 'bm server" where
  "subscribe_one sid channel s =
     (let s = upd_session sid (\<lambda>ss. ss\<lparr>channels := finsert channel (channels ss)\<rparr>) s;
          s = upd_hub (hub_subscribe sid channel) s
      in upd_session sid (confirm ''subscribe'' (RBytes channel)) s)"

definition SUBSCRIBE :: "bytes list \<Rightarrow> 'bm server \<Rightarrow> 'bm session_result" where
  "SUBSCRIBE names s = bindR (session_of s) (\<lambda>s sid. returns (fold (subscribe_one sid) names s) None)"

definition psubscribe_one :: "sid \<Rightarrow> bytes \<Rightarrow> 'bm server \<Rightarrow> 'bm server" where
  "psubscribe_one sid pattern s =
     (let s = upd_session sid (\<lambda>ss. ss\<lparr>patterns := finsert pattern (patterns ss)\<rparr>) s;
          s = upd_hub (hub_psubscribe sid pattern) s
      in upd_session sid (confirm ''psubscribe'' (RBytes pattern)) s)"

definition PSUBSCRIBE :: "bytes list \<Rightarrow> 'bm server \<Rightarrow> 'bm session_result" where
  "PSUBSCRIBE names s = bindR (session_of s) (\<lambda>s sid. returns (fold (psubscribe_one sid) names s) None)"

section \<open>Unsubscribing\<close>

definition unsubscribe_one :: "sid \<Rightarrow> bytes \<Rightarrow> 'bm server \<Rightarrow> 'bm server" where
  "unsubscribe_one sid channel s =
     (let s = upd_session sid (\<lambda>ss. ss\<lparr>channels := channels ss |-| {|channel|}\<rparr>) s;
          s = upd_hub (hub_unsubscribe sid channel) s
      in upd_session sid (confirm ''unsubscribe'' (RBytes channel)) s)"

definition UNSUBSCRIBE :: "bytes list \<Rightarrow> 'bm server \<Rightarrow> 'bm session_result" where
  "UNSUBSCRIBE names s =
     bindR (session_of s) (\<lambda>s sid.
       let held = channels (sessions s sid);
           s = fold (unsubscribe_one sid) (if names \<noteq> [] then names else sorted_list_of_fset held) s
       in returns
            (if names = [] \<and> held = {||} then upd_session sid (confirm ''unsubscribe'' (RResponse NIL)) s
             else s) None)"

definition punsubscribe_one :: "sid \<Rightarrow> bytes \<Rightarrow> 'bm server \<Rightarrow> 'bm server" where
  "punsubscribe_one sid pattern s =
     (let s = upd_session sid (\<lambda>ss. ss\<lparr>patterns := patterns ss |-| {|pattern|}\<rparr>) s;
          s = upd_hub (hub_punsubscribe sid pattern) s
      in upd_session sid (confirm ''punsubscribe'' (RBytes pattern)) s)"

definition PUNSUBSCRIBE :: "bytes list \<Rightarrow> 'bm server \<Rightarrow> 'bm session_result" where
  "PUNSUBSCRIBE names s =
     bindR (session_of s) (\<lambda>s sid.
       let held = patterns (sessions s sid);
           s = fold (punsubscribe_one sid) (if names \<noteq> [] then names else sorted_list_of_fset held) s
       in returns
            (if names = [] \<and> held = {||} then upd_session sid (confirm ''punsubscribe'' (RResponse NIL)) s
             else s) None)"

section \<open>Publishing and introspection\<close>

definition PUBLISH :: "bytes \<Rightarrow> bytes \<Rightarrow> 'bm server \<Rightarrow> 'bm session_result" where
  "PUBLISH channel message s =
     (case hub_publish channel message s of (s, receivers) \<Rightarrow> returns s (Some (RInt receivers)))"

definition PUBSUB :: "bytes list \<Rightarrow> 'bm server \<Rightarrow> 'bm session_result" where
  "PUBSUB args s =
     (case args of
        [] \<Rightarrow> raise_error s (arity ''pubsub'')
      | name # rest \<Rightarrow>
          let sub = upper name; h = hub s in
          if sub = ''CHANNELS'' then
            (case rest of
               [] \<Rightarrow> returns s (Some (RList (map RBytes (active_channels None h))))
             | [pattern] \<Rightarrow> returns s (Some (RList (map RBytes (active_channels (Some pattern) h))))
             | _ \<Rightarrow> raise_error s SYNTAX)
          else if sub = ''NUMSUB'' then
            returns s (Some (RList (concat (map (\<lambda>channel. [RBytes channel, RInt (numsub h channel)]) rest))))
          else if sub = ''NUMPAT'' \<and> rest = [] then returns s (Some (RInt (numpatterns h)))
          else raise_error s (err (''unknown subcommand '' @ quote_char @ ascii_replace name @ quote_char
                 @ ''. Try PUBSUB HELP.'')))"

section \<open>Watching\<close>

definition watch_one :: "env \<Rightarrow> sid \<Rightarrow> bytes \<Rightarrow> 'bm server \<Rightarrow> 'bm server" where
  "watch_one ev sid key s =
     upd_session sid (\<lambda>ss. ss\<lparr>watched :=
       AList.update key (data_generation (data s) key, data_is_live ev (data s) key) (watched ss)\<rparr>) s"

definition WATCH :: "env \<Rightarrow> bytes list \<Rightarrow> 'bm server \<Rightarrow> 'bm session_result" where
  "WATCH ev keys s =
     bindR (session_of s) (\<lambda>s sid. returns (fold (watch_one ev sid) keys s) (Some (RResponse OK)))"

definition UNWATCH :: "'bm server \<Rightarrow> 'bm session_result" where
  "UNWATCH s =
     bindR (session_of s) (\<lambda>s sid. returns (upd_session sid (\<lambda>ss. ss\<lparr>watched := []\<rparr>) s) (Some (RResponse OK)))"

section \<open>The connection\<close>

text \<open>\<^verbatim>\<open>connection_made\<close> and \<^verbatim>\<open>connection_lost\<close> of the server backends, on the session.\<close>

definition connect :: "sid \<Rightarrow> 'bm server \<Rightarrow> 'bm server" where
  "connect sid s = s\<lparr>sessions := (sessions s)(sid := Session\<lparr>sender := Some Transport\<rparr>)\<rparr>"

definition disconnect :: "sid \<Rightarrow> 'bm server \<Rightarrow> 'bm server" where
  "disconnect sid s = upd_session sid (\<lambda>ss. ss\<lparr>sender := None\<rparr>) (upd_hub (remove_session sid) s)"

section \<open>The invariant\<close>

text \<open>
  A session the hub knows under a name has that name among its subscriptions, and a connected session
  is known to the hub under all of them.
\<close>

definition table_ok :: "(bytes \<times> sid fset) list \<Rightarrow> (session \<Rightarrow> bytes fset) \<Rightarrow> (sid \<Rightarrow> session) \<Rightarrow> bool" where
  "table_ok table f sess \<longleftrightarrow> wf_table table \<and>
     (\<forall>sid name. (sid |\<in>| subscribers table name \<longrightarrow> name |\<in>| f (sess sid)) \<and>
       (sender (sess sid) \<noteq> None \<longrightarrow> name |\<in>| f (sess sid) \<longrightarrow> sid |\<in>| subscribers table name))"

definition hub_ok :: "'bm server \<Rightarrow> bool" where
  "hub_ok s \<longleftrightarrow> table_ok (hub_channels (hub s)) channels (sessions s)
     \<and> table_ok (hub_patterns (hub s)) patterns (sessions s)"

lemma hub_ok_standing:
  assumes "hub_ok s" "hub s' = hub s"
    and "\<And>sid. (channels (sessions s' sid), patterns (sessions s' sid), sender (sessions s' sid)) =
      (channels (sessions s sid), patterns (sessions s sid), sender (sessions s sid))"
  shows "hub_ok s'"
  using assms by (simp add: hub_ok_def table_ok_def)

text \<open>
  What every handler keeps: the state of the transactions and of the connections, and the invariants of
  the store and of the hub.
\<close>

definition keeps :: "'bm server \<Rightarrow> 'bm server \<Rightarrow> bool" where
  "keeps s s' \<longleftrightarrow> cur_session s' = cur_session s
     \<and> (\<forall>sid. in_multi (sessions s' sid) = in_multi (sessions s sid)
         \<and> queue (sessions s' sid) = queue (sessions s sid)
         \<and> sender (sessions s' sid) = sender (sessions s sid)
         \<and> (sender (sessions s sid) \<noteq> Some Collector \<longrightarrow>
              collected (sessions s' sid) = collected (sessions s sid))
         \<and> prefix (sent (sessions s sid)) (sent (sessions s' sid)))
     \<and> (store_ok (data s) \<longrightarrow> store_ok (data s')) \<and> (hub_ok s \<longrightarrow> hub_ok s')"

lemma keeps_refl [simp]: "keeps s s"
  by (simp add: keeps_def)

lemma keeps_trans: "keeps s s' \<Longrightarrow> keeps s' s'' \<Longrightarrow> keeps s s''"
  unfolding keeps_def by (auto intro: prefix_order.trans)

lemma keeps_fold: "(\<And>x s. keeps s (f x s)) \<Longrightarrow> keeps s (fold f xs s)"
  by (induction xs arbitrary: s) (auto intro: keeps_trans)

lemma safe_keeps: "safe s s' \<Longrightarrow> keeps s s'"
  using hub_ok_standing [of s s'] by (auto simp: safe_def keeps_def quiet_def standing_def split: if_splits)

lemma keeps_confirm: "keeps s (upd_session sid (confirm event name) s)"
  using hub_ok_standing [of s "upd_session sid (confirm event name) s"]
  by (auto simp: keeps_def upd_session_def confirm_def frame_simps sent_deliver)

lemma table_okI:
  "wf_table table \<Longrightarrow> (\<And>sid name. sid |\<in>| subscribers table name \<Longrightarrow> name |\<in>| f (sess sid)) \<Longrightarrow>
   (\<And>sid name. sender (sess sid) \<noteq> None \<Longrightarrow> name |\<in>| f (sess sid) \<Longrightarrow> sid |\<in>| subscribers table name) \<Longrightarrow>
   table_ok table f sess"
  by (simp add: table_ok_def)

lemma table_okD:
  "table_ok table f sess \<Longrightarrow> wf_table table"
  "table_ok table f sess \<Longrightarrow> sid |\<in>| subscribers table name \<Longrightarrow> name |\<in>| f (sess sid)"
  "table_ok table f sess \<Longrightarrow> sender (sess sid) = Some snk \<Longrightarrow> name |\<in>| f (sess sid) \<Longrightarrow> sid |\<in>| subscribers table name"
  by (auto simp: table_ok_def)

lemma table_ok_add:
  assumes "table_ok table f sess" "f ss' = finsert name (f (sess sid))"
    and "sender ss' = sender (sess sid)"
  shows "table_ok (table_add sid name table) f (sess(sid := ss'))"
  by (rule table_okI) (use assms(2,3) table_okD [OF assms(1)] in \<open>auto split: if_splits\<close>)

lemma table_ok_discard:
  assumes "table_ok table f sess" "f ss' = f (sess sid) |-| {|name|}"
    and "sender ss' = sender (sess sid)"
  shows "table_ok (table_discard sid name table) f (sess(sid := ss'))"
  by (rule table_okI) (use assms(2,3) table_okD [OF assms(1)] in \<open>auto split: if_splits\<close>)

lemma table_ok_same:
  "table_ok table f sess \<Longrightarrow> f ss' = f (sess sid) \<Longrightarrow> sender ss' = sender (sess sid) \<Longrightarrow>
    table_ok table f (sess(sid := ss'))"
  by (simp add: table_ok_def)

lemma hub_ok_one:
  "hub_ok s \<Longrightarrow> hub_ok (upd_hub (hub_subscribe sid name)
     (upd_session sid (\<lambda>ss. ss\<lparr>channels := finsert name (channels ss)\<rparr>) s))"
  "hub_ok s \<Longrightarrow> hub_ok (upd_hub (hub_psubscribe sid name)
     (upd_session sid (\<lambda>ss. ss\<lparr>patterns := finsert name (patterns ss)\<rparr>) s))"
  "hub_ok s \<Longrightarrow> hub_ok (upd_hub (hub_unsubscribe sid name)
     (upd_session sid (\<lambda>ss. ss\<lparr>channels := channels ss |-| {|name|}\<rparr>) s))"
  "hub_ok s \<Longrightarrow> hub_ok (upd_hub (hub_punsubscribe sid name)
     (upd_session sid (\<lambda>ss. ss\<lparr>patterns := patterns ss |-| {|name|}\<rparr>) s))"
  by (simp_all add: hub_ok_def upd_hub_def upd_session_def hub_subscribe_def hub_psubscribe_def
      hub_unsubscribe_def hub_punsubscribe_def table_ok_add table_ok_discard table_ok_same)

lemma keeps_hub_session:
  assumes "hub_ok s \<Longrightarrow> hub_ok (upd_hub h (upd_session sid f s))"
    and "\<And>ss. in_multi (f ss) = in_multi ss \<and> queue (f ss) = queue ss \<and> sender (f ss) = sender ss
      \<and> collected (f ss) = collected ss \<and> sent (f ss) = sent ss"
  shows "keeps s (upd_hub h (upd_session sid f s))"
  using assms by (simp add: keeps_def upd_hub_def upd_session_def)

lemma keeps_one:
  "keeps s (subscribe_one sid name s)" "keeps s (psubscribe_one sid name s)"
  "keeps s (unsubscribe_one sid name s)" "keeps s (punsubscribe_one sid name s)"
  unfolding subscribe_one_def psubscribe_one_def unsubscribe_one_def punsubscribe_one_def Let_def
  by (rule keeps_trans [OF keeps_hub_session keeps_confirm], erule hub_ok_one, simp)+

lemma keeps_watch: "keeps s (watch_one ev sid key s)"
  using hub_ok_standing [of s "watch_one ev sid key s"] by (auto simp: keeps_def watch_one_def upd_session_def)

lemma keeps_upd_watched: "keeps s (upd_session sid (\<lambda>ss. ss\<lparr>watched := w\<rparr>) s)"
  using hub_ok_standing [of s "upd_session sid (\<lambda>ss. ss\<lparr>watched := w\<rparr>) s"]
  by (auto simp: keeps_def upd_session_def)

lemma keeps_session_bind:
  "(\<And>sid. cur_session s = Some sid \<Longrightarrow> keeps s (fst (f s sid))) \<Longrightarrow> keeps s (fst (bindR (session_of s) f))"
  by (simp add: session_of_def split: option.splits)

lemma keeps_session_cmds:
  "keeps s (fst (SUBSCRIBE names s))" "keeps s (fst (PSUBSCRIBE names s))"
  "keeps s (fst (UNSUBSCRIBE names s))" "keeps s (fst (PUNSUBSCRIBE names s))"
  "keeps s (fst (PUBLISH channel message s))" "keeps s (fst (PUBSUB args s))"
  "keeps s (fst (WATCH ev keys s))" "keeps s (fst (UNWATCH s))"
proof -
  show "keeps s (fst (SUBSCRIBE names s))" "keeps s (fst (PSUBSCRIBE names s))"
    "keeps s (fst (WATCH ev keys s))" "keeps s (fst (UNWATCH s))"
    unfolding SUBSCRIBE_def PSUBSCRIBE_def WATCH_def UNWATCH_def
    by (rule keeps_session_bind, simp add: keeps_fold keeps_one keeps_watch keeps_upd_watched)+
  show "keeps s (fst (UNSUBSCRIBE names s))" "keeps s (fst (PUNSUBSCRIBE names s))"
    unfolding UNSUBSCRIBE_def PUNSUBSCRIBE_def
    by (rule keeps_session_bind,
        auto simp: Let_def keeps_fold keeps_one intro!: keeps_trans [OF _ keeps_confirm])+
  show "keeps s (fst (PUBSUB args s))"
    by (auto simp: PUBSUB_def Let_def split: list.splits)
  have "safe s (fst (hub_publish channel message s))"
    by (simp add: safe_def quiet_publish)
  then show "keeps s (fst (PUBLISH channel message s))"
    by (simp add: PUBLISH_def safe_keeps split: prod.splits) (metis fst_conv safe_keeps)
qed

lemma table_ok_fresh:
  "table_ok table f sess \<Longrightarrow> f (sess sid) = {||} \<Longrightarrow> f ss' = {||} \<Longrightarrow> table_ok table f (sess(sid := ss'))"
  by (rule table_okI) (auto dest: table_okD split: if_splits)

lemma hub_ok_connect: "hub_ok s \<Longrightarrow> sessions s sid = Session \<Longrightarrow> hub_ok (connect sid s)"
  by (simp add: hub_ok_def connect_def table_ok_fresh Session_def)

lemma hub_ok_disconnect: "hub_ok s \<Longrightarrow> hub_ok (disconnect sid s)"
  by (auto simp: hub_ok_def disconnect_def upd_session_def upd_hub_def remove_session_def
      intro!: table_okI dest: table_okD split: if_splits)

section \<open>What the commands do\<close>

lemma received_upd [simp]:
  "received (ss\<lparr>channels := C\<rparr>) = received ss" "received (ss\<lparr>patterns := C\<rparr>) = received ss"
  by (simp_all add: received_def split: option.splits sink.splits)

lemma subscription_count_upd [simp]:
  "subscription_count (ss\<lparr>channels := C\<rparr>) = int (fcard C) + int (fcard (patterns ss))"
  "subscription_count (ss\<lparr>patterns := P\<rparr>) = int (fcard (channels ss)) + int (fcard P)"
  by (simp_all add: subscription_count_def)

text \<open>
  The confirmations of a run of subscriptions: each one carries the number of subscriptions the
  connection has at that point.
\<close>

fun confirmations :: "bytes \<Rightarrow> (bytes fset \<Rightarrow> bytes \<Rightarrow> bytes fset) \<Rightarrow> int \<Rightarrow> bytes list \<Rightarrow> bytes fset \<Rightarrow> bytes list" where
  "confirmations event f others [] C = []"
| "confirmations event f others (name # names) C =
     protocolBuilder (RList [RBytes event, RBytes name, RInt (int (fcard (f C name)) + others)])
       # confirmations event f others names (f C name)"

lemma subscribe_fold:
  defines "add \<equiv> \<lambda>C name. finsert name C"
  shows "channels (sessions (fold (subscribe_one sid) names s) sid) = channels (sessions s sid) |\<union>| fset_of_list names
    \<and> patterns (sessions (fold (subscribe_one sid) names s) sid) = patterns (sessions s sid)
    \<and> received (sessions (fold (subscribe_one sid) names s) sid) = received (sessions s sid)
        @ confirmations ''subscribe'' add (int (fcard (patterns (sessions s sid)))) names (channels (sessions s sid))
    \<and> (\<forall>other. other \<noteq> sid \<longrightarrow> sessions (fold (subscribe_one sid) names s) other = sessions s other)
    \<and> data (fold (subscribe_one sid) names s) = data s"
proof (induction names arbitrary: s)
  case (Cons name names)
  show ?case
    using Cons [of "subscribe_one sid name s"]
    by (simp add: subscribe_one_def Let_def upd_session_def upd_hub_def confirm_def frame_simps add_def)
qed simp

lemma unsubscribe_fold:
  defines "del \<equiv> \<lambda>C name. C |-| {|name|}"
  shows "channels (sessions (fold (unsubscribe_one sid) names s) sid) = channels (sessions s sid) |-| fset_of_list names
    \<and> patterns (sessions (fold (unsubscribe_one sid) names s) sid) = patterns (sessions s sid)
    \<and> received (sessions (fold (unsubscribe_one sid) names s) sid) = received (sessions s sid)
        @ confirmations ''unsubscribe'' del (int (fcard (patterns (sessions s sid)))) names (channels (sessions s sid))
    \<and> (\<forall>other. other \<noteq> sid \<longrightarrow> sessions (fold (unsubscribe_one sid) names s) other = sessions s other)
    \<and> data (fold (unsubscribe_one sid) names s) = data s"
proof (induction names arbitrary: s)
  case (Cons name names)
  have "channels (sessions s sid) |-| {|name|} |-| fset_of_list names
      = channels (sessions s sid) |-| fset_of_list (name # names)" by auto
  then show ?case
    using Cons [of "unsubscribe_one sid name s"]
    by (simp add: unsubscribe_one_def Let_def upd_session_def upd_hub_def confirm_def frame_simps del_def)
qed simp

lemma confirmations_length [simp]: "length (confirmations event f n names C) = length names"
  by (induction names arbitrary: C) simp_all

lemma bare_UNSUBSCRIBE:
  assumes "cur_session s = Some sid"
  shows "channels (sessions (fst (UNSUBSCRIBE [] s)) sid) = {||}
    \<and> (\<exists>frames. received (sessions (fst (UNSUBSCRIBE [] s)) sid) = received (sessions s sid) @ frames
        \<and> length frames = max 1 (fcard (channels (sessions s sid))))"
proof -
  let ?held = "channels (sessions s sid)"
  have held: "fset_of_list (sorted_list_of_fset ?held) = ?held"
    by (simp add: fset_inject [symmetric] fset_of_list.rep_eq)
  have len: "length (sorted_list_of_fset ?held) = fcard ?held"
    by (simp add: sorted_list_of_fset.rep_eq fcard.rep_eq)
  note u = unsubscribe_fold [of sid "sorted_list_of_fset ?held" s]
  show ?thesis
  proof (cases "?held = {||}")
    case True
    have "sorted_list_of_fset ({||} :: bytes fset) = []" by (simp add: sorted_list_of_fset.rep_eq)
    then show ?thesis
      using assms True
      by (simp add: UNSUBSCRIBE_def session_of_def Let_def upd_session_def confirm_def frame_simps fcard_fempty)
  next
    case False
    then have "fset ?held \<noteq> {}" by (metis bot_fset.rep_eq fset_inject)
    then have "1 \<le> fcard ?held" by (simp add: Suc_le_eq fcard.rep_eq card_gt_0_iff)
    then show ?thesis
      using assms False u by (simp add: UNSUBSCRIBE_def session_of_def Let_def held len)
  qed
qed

section \<open>Deliveries\<close>

lemma card_as_sum: "finite T \<Longrightarrow> fset A \<subseteq> T \<Longrightarrow> int (fcard A) = (\<Sum>sid\<in>T. if sid |\<in>| A then 1 else 0)"
  by (simp add: fcard.rep_eq sum.If_cases Int_absorb1 Int_def[symmetric] flip: sum.inter_filter)

lemma frames_length:
  "int (length (frames_for h channel payload sid)) =
     (if sid |\<in>| subscribers (hub_channels h) channel then 1 else 0)
     + (\<Sum>(pattern, sids) \<leftarrow> filter (\<lambda>(pattern, sids). compile_glob pattern channel) (hub_patterns h).
          if sid |\<in>| sids then 1 else 0)"
proof -
  have "int (length (filter (\<lambda>(pattern, sids). compile_glob pattern channel \<and> sid |\<in>| sids) table))
      = (\<Sum>(pattern, sids) \<leftarrow> filter (\<lambda>(pattern, sids). compile_glob pattern channel) table. if sid |\<in>| sids then 1 else 0)"
    for table by (induction table) (auto split: if_splits)
  then show ?thesis by (simp add: frames_for_def)
qed

lemma publish_counts:
  assumes "finite T" "fset (subscribers (hub_channels h) channel) \<subseteq> T"
    and "\<forall>(pattern, sids)\<in>set (hub_patterns h). fset sids \<subseteq> T"
  shows "snd (publish h channel payload sess) = (\<Sum>sid\<in>T. int (length (frames_for h channel payload sid)))"
proof -
  have "(\<Sum>(pattern, sids) \<leftarrow> filter (\<lambda>(pattern, sids). compile_glob pattern channel) table. int (fcard sids))
      = (\<Sum>sid\<in>T. \<Sum>(pattern, sids) \<leftarrow> filter (\<lambda>(pattern, sids). compile_glob pattern channel) table.
           if sid |\<in>| sids then 1 else 0)"
    if "\<forall>(pattern, sids)\<in>set table. fset sids \<subseteq> T" for table
    using that assms(1) by (induction table) (auto simp: sum.distrib card_as_sum)
  then show ?thesis
    using assms by (simp add: publish_eq numsub_def frames_length sum.distrib card_as_sum)
qed

lemma map_of_subscribers: "wf_table table \<Longrightarrow> (name, sids) \<in> set table \<Longrightarrow> subscribers table name = sids"
  by (simp add: wf_table_def subscribers_def map_of_is_SomeI)

lemma wf_table_entry: "wf_table table \<Longrightarrow> sid |\<in>| subscribers table name \<Longrightarrow>
    (name, subscribers table name) \<in> set table"
  by (auto simp: subscribers_def split: option.splits dest: map_of_SomeD)

text \<open>The patterns under which a session hears a channel, in the order of the hub.\<close>

definition heard :: "hub \<Rightarrow> bytes \<Rightarrow> sid \<Rightarrow> bytes list" where
  "heard h channel sid =
     map fst (filter (\<lambda>(pattern, sids). compile_glob pattern channel \<and> sid |\<in>| sids) (hub_patterns h))"

lemma frames_heard:
  "frames_for h channel payload sid =
     (if sid |\<in>| subscribers (hub_channels h) channel then [build_message channel payload] else [])
     @ map (\<lambda>pattern. build_pmessage pattern channel payload) (heard h channel sid)"
  by (simp add: frames_for_def heard_def case_prod_unfold)

lemma heard_distinct: "wf_table (hub_patterns h) \<Longrightarrow> distinct (heard h channel sid)"
  by (auto simp: heard_def wf_table_def distinct_map inj_on_subset)

lemma heard_patterns:
  assumes "table_ok (hub_patterns h) patterns sess" "sender (sess sid) \<noteq> None"
  shows "set (heard h channel sid) = {p. p |\<in>| patterns (sess sid) \<and> compile_glob p channel}"
proof -
  note wf = table_okD(1) [OF assms(1)]
  have "p \<in> set (heard h channel sid) \<longleftrightarrow> compile_glob p channel \<and> sid |\<in>| subscribers (hub_patterns h) p" for p
  proof
    assume "p \<in> set (heard h channel sid)"
    then show "compile_glob p channel \<and> sid |\<in>| subscribers (hub_patterns h) p"
      using map_of_subscribers [OF wf] by (auto simp: heard_def)
  next
    assume *: "compile_glob p channel \<and> sid |\<in>| subscribers (hub_patterns h) p"
    then have "(p, subscribers (hub_patterns h) p) \<in> set (hub_patterns h)" using wf_table_entry [OF wf] by blast
    then show "p \<in> set (heard h channel sid)" using * by (force simp: heard_def)
  qed
  then show ?thesis using assms table_okD(2,3) [OF assms(1)] by auto
qed

lemma subscriber_iff:
  "table_ok table f sess \<Longrightarrow> sender (sess sid) \<noteq> None \<Longrightarrow> sid |\<in>| subscribers table name \<longleftrightarrow> name |\<in>| f (sess sid)"
  by (auto simp: table_ok_def)

lemma hub_sids_cover:
  assumes "wf_table (hub_channels h)"
  shows "fset (subscribers (hub_channels h) channel) \<subseteq> hub_sids h"
    "\<forall>(pattern, sids)\<in>set (hub_patterns h). fset sids \<subseteq> hub_sids h"
  using wf_table_entry [OF assms] by (fastforce simp: hub_sids_def)+

lemma PUBLISH_frames:
  "sessions (fst (PUBLISH channel payload s)) sid
     = fold deliver (frames_for (hub s) channel payload sid) (sessions s sid)"
  "snd (PUBLISH channel payload s) = Inr (Some (RInt (snd (publish (hub s) channel payload (sessions s)))))"
  by (simp_all add: PUBLISH_def hub_publish_def publish_eq)

text \<open>By how many frames the output of a session grows.\<close>

definition growth :: "'bm server \<Rightarrow> 'bm server \<Rightarrow> sid \<Rightarrow> nat" where
  "growth s s' sid = length (received (sessions s' sid)) - length (received (sessions s sid))"

lemma PUBLISH_count:
  assumes "wf_table (hub_channels (hub s))"
  shows "finite {sid. growth s (fst (PUBLISH channel payload s)) sid \<noteq> 0}
    \<and> snd (PUBLISH channel payload s) = Inr (Some (RInt
        (\<Sum>sid | growth s (fst (PUBLISH channel payload s)) sid \<noteq> 0. int (growth s (fst (PUBLISH channel payload s)) sid))))"
proof -
  let ?T = "hub_sids (hub s)" and ?g = "growth s (fst (PUBLISH channel payload s))"
  have g: "?g sid = length (frames_for (hub s) channel payload sid)" for sid
    by (simp add: growth_def PUBLISH_frames)
  have sub: "{sid. ?g sid \<noteq> 0} \<subseteq> ?T"
  proof
    fix sid assume "sid \<in> {sid. ?g sid \<noteq> 0}"
    then have "sid |\<in>| subscribers (hub_channels (hub s)) channel \<or> (\<exists>(p, sids)\<in>set (hub_patterns (hub s)). sid |\<in>| sids)"
      by (auto simp: g frames_for_def filter_empty_conv split: if_splits)
    then show "sid \<in> ?T" using hub_sids_cover(1) [OF assms(1), of channel] hub_sids_cover(2) [OF assms(1)] by auto
  qed
  have "(\<Sum>sid\<in>?T. int (?g sid)) = (\<Sum>sid | ?g sid \<noteq> 0. int (?g sid))"
    by (rule sum.mono_neutral_right [OF finite_hub_sids sub]) auto
  moreover have "snd (publish (hub s) channel payload (sessions s)) = (\<Sum>sid\<in>?T. int (?g sid))"
    unfolding g by (rule publish_counts [OF finite_hub_sids hub_sids_cover [OF assms(1)]])
  ultimately show ?thesis
    using finite_subset [OF sub finite_hub_sids] by (simp add: PUBLISH_frames(2))
qed

section \<open>Properties\<close>

text \<open>
  C13: publishing.  While the hub agrees with the sessions, a connected session gets the message once if
  it is subscribed to the channel, and once more for every pattern of its own that matches the channel,
  after all it had received before; the reply is the number of frames by which the outputs of all
  sessions grew.
\<close>

theorem PUBLISH_correct:
  assumes "hub_ok s" "sender (sessions s sid) \<noteq> None"
  shows "(\<exists>ps. distinct ps \<and> set ps = {p. p |\<in>| patterns (sessions s sid) \<and> compile_glob p channel}
      \<and> received (sessions (fst (PUBLISH channel payload s)) sid) = received (sessions s sid)
          @ (if channel |\<in>| channels (sessions s sid) then [build_message channel payload] else [])
          @ map (\<lambda>p. build_pmessage p channel payload) ps)
    \<and> snd (PUBLISH channel payload s) = Inr (Some (RInt
        (\<Sum>sid | growth s (fst (PUBLISH channel payload s)) sid \<noteq> 0. int (growth s (fst (PUBLISH channel payload s)) sid))))"
proof -
  have t: "table_ok (hub_channels (hub s)) channels (sessions s)" "table_ok (hub_patterns (hub s)) patterns (sessions s)"
    using assms(1) by (auto simp: hub_ok_def)
  have "received (sessions (fst (PUBLISH channel payload s)) sid) = received (sessions s sid)
          @ (if channel |\<in>| channels (sessions s sid) then [build_message channel payload] else [])
          @ map (\<lambda>p. build_pmessage p channel payload) (heard (hub s) channel sid)"
    by (simp add: PUBLISH_frames frames_heard subscriber_iff [OF t(1) assms(2)])
  then show ?thesis
    using heard_distinct [OF table_okD(1) [OF t(2)]] heard_patterns [OF t(2) assms(2)]
      PUBLISH_count [OF table_okD(1) [OF t(1)]] by blast
qed

text \<open>A server with one subscriber, which listens on a channel and on a pattern.\<close>

definition demo_hub :: "nat list server" where
  "demo_hub = psubscribe_one 7 ''n*'' (subscribe_one 7 ''news'' (connect 7 Commands))"

lemma hub_ok_Commands [simp]: "hub_ok Commands"
  by (simp add: hub_ok_def table_ok_def Commands_def PubSubHub_def wf_table_def subscribers_def Session_def)

lemma demo_hub_props:
  "hub_ok demo_hub" "sender (sessions demo_hub 7) = Some Transport"
  "channels (sessions demo_hub 7) = {|''news''|}" "patterns (sessions demo_hub 7) = {|''n*''|}"
proof -
  let ?s = "connect 7 (Commands :: nat list server)"
  have "hub_ok ?s" by (rule hub_ok_connect [OF hub_ok_Commands]) (simp add: Commands_def)
  moreover have "keeps ?s demo_hub" unfolding demo_hub_def by (rule keeps_trans [OF keeps_one(1) keeps_one(2)])
  ultimately show "hub_ok demo_hub" unfolding keeps_def by blast
  have c: "sessions ?s 7 = Session\<lparr>sender := Some Transport\<rparr>" by (simp add: connect_def)
  have p: "sessions (psubscribe_one 7 pattern s) 7 =
      confirm ''psubscribe'' (RBytes pattern) ((sessions s 7)\<lparr>patterns := finsert pattern (patterns (sessions s 7))\<rparr>)"
    for pattern and s :: "nat list server" by (simp add: psubscribe_one_def Let_def upd_session_def upd_hub_def)
  have q: "sessions (subscribe_one 7 channel s) 7 =
      confirm ''subscribe'' (RBytes channel) ((sessions s 7)\<lparr>channels := finsert channel (channels (sessions s 7))\<rparr>)"
    for channel and s :: "nat list server" by (simp add: subscribe_one_def Let_def upd_session_def upd_hub_def)
  show "sender (sessions demo_hub 7) = Some Transport" "channels (sessions demo_hub 7) = {|''news''|}"
    "patterns (sessions demo_hub 7) = {|''n*''|}"
    unfolding demo_hub_def p q c by (simp_all add: frame_simps Session_def)
qed

lemma singleton_list: "distinct ps \<Longrightarrow> set ps = {x} \<Longrightarrow> ps = [x]"
  by (cases ps; cases "tl ps") auto

theorem PUBLISH_correct_witness:
  "received (sessions (fst (PUBLISH ''news'' ''hi'' demo_hub)) 7) = received (sessions demo_hub 7)
     @ [build_message ''news'' ''hi'', build_pmessage ''n*'' ''news'' ''hi'']"
proof -
  have "sender (sessions demo_hub 7) \<noteq> None" by (simp add: demo_hub_props(2))
  from PUBLISH_correct [OF demo_hub_props(1) this, of "''news''" "''hi''", THEN conjunct1]
  obtain ps where ps: "distinct ps" "set ps = {p. p |\<in>| patterns (sessions demo_hub 7) \<and> compile_glob p ''news''}"
    "received (sessions (fst (PUBLISH ''news'' ''hi'' demo_hub)) 7) = received (sessions demo_hub 7)
          @ (if ''news'' |\<in>| channels (sessions demo_hub 7) then [build_message ''news'' ''hi''] else [])
          @ map (\<lambda>p. build_pmessage p ''news'' ''hi'') ps" by blast
  have "compile_glob ''n*'' ''news''" by (simp add: compile_glob_def)
  then have "set ps = {''n*''}" using ps(2) by (auto simp: demo_hub_props(4))
  then have "ps = [''n*'']" by (rule singleton_list [OF ps(1)])
  then show ?thesis using ps(3) demo_hub_props(3) by simp
qed

text \<open>
  C14: subscribing.  \<^verbatim>\<open>SUBSCRIBE\<close> adds the named channels to the connection and \<^verbatim>\<open>UNSUBSCRIBE\<close> takes them
  away; each name is confirmed by one frame of its own that carries the number of subscriptions at that
  point, also for a channel that was not subscribed; \<^verbatim>\<open>UNSUBSCRIBE\<close> without names drops every channel
  with one frame each, or one frame when there were none.  Other sessions are left alone, and the hub
  stays in agreement.
\<close>

theorem subscriptions_correct:
  assumes "cur_session s = Some sid" "names \<noteq> []"
  shows "channels (sessions (fst (SUBSCRIBE names s)) sid) = channels (sessions s sid) |\<union>| fset_of_list names
    \<and> received (sessions (fst (SUBSCRIBE names s)) sid) = received (sessions s sid)
        @ confirmations ''subscribe'' (\<lambda>C name. finsert name C)
            (int (fcard (patterns (sessions s sid)))) names (channels (sessions s sid))
    \<and> channels (sessions (fst (UNSUBSCRIBE names s)) sid) = channels (sessions s sid) |-| fset_of_list names
    \<and> received (sessions (fst (UNSUBSCRIBE names s)) sid) = received (sessions s sid)
        @ confirmations ''unsubscribe'' (\<lambda>C name. C |-| {|name|})
            (int (fcard (patterns (sessions s sid)))) names (channels (sessions s sid))
    \<and> channels (sessions (fst (UNSUBSCRIBE [] s)) sid) = {||}
    \<and> growth s (fst (UNSUBSCRIBE [] s)) sid = max 1 (fcard (channels (sessions s sid)))
    \<and> (\<forall>other. other = sid \<or> sessions (fst (SUBSCRIBE names s)) other = sessions s other
        \<and> sessions (fst (UNSUBSCRIBE names s)) other = sessions s other)
    \<and> (hub_ok s \<longrightarrow> hub_ok (fst (SUBSCRIBE names s)) \<and> hub_ok (fst (UNSUBSCRIBE names s)))"
proof -
  have S: "fst (SUBSCRIBE names s) = fold (subscribe_one sid) names s"
    "fst (UNSUBSCRIBE names s) = fold (unsubscribe_one sid) names s"
    using assms by (simp_all add: SUBSCRIBE_def UNSUBSCRIBE_def session_of_def Let_def)
  have "hub_ok s \<longrightarrow> hub_ok (fst (SUBSCRIBE names s)) \<and> hub_ok (fst (UNSUBSCRIBE names s))"
    using keeps_session_cmds(1,3) [where s = s and names = names] by (simp add: keeps_def)
  then show ?thesis
    using subscribe_fold [of sid names s] unsubscribe_fold [of sid names s] bare_UNSUBSCRIBE [OF assms(1)]
    by (auto simp: S growth_def)
qed

theorem subscriptions_correct_witness:
  "received (sessions (fst (SUBSCRIBE [''a'', ''a''] (demo_hub\<lparr>cur_session := Some 7\<rparr>))) 7) =
     received (sessions demo_hub 7)
       @ [protocolBuilder (RList [RBytes ''subscribe'', RBytes ''a'', RInt 3]),
          protocolBuilder (RList [RBytes ''subscribe'', RBytes ''a'', RInt 3])]"
proof -
  have "fcard {|''a'', ''news''|} = 2" "fcard {|''n*''|} = 1" by code_simp+
  then show ?thesis
    using subscriptions_correct [of "demo_hub\<lparr>cur_session := Some 7\<rparr>" 7 "[''a'', ''a'']"]
    by (simp add: demo_hub_props)
qed

end
