(* ===== verification/StringCmds.thy ===== *)
theory StringCmds
  imports Server
begin

text \<open>
  The string and counter commands of \<open>commands/basic.py\<close>.  Every command is a function of the
  environment, its converted arguments and the server; it returns the new server with the raised
  error or the value handed to the protocol encoder.
\<close>

type_synonym 'bm cmd_result = "('bm server, exn, reply) result"

definition MAX_STRING_SIZE :: int where "MAX_STRING_SIZE = 512 * 1024 * 1024"

definition liftE :: "'s \<Rightarrow> error + 'a \<Rightarrow> ('s, exn, 'a) result" where
  "liftE s r = (case r of Inl e \<Rightarrow> raise_error s e | Inr a \<Rightarrow> returns s a)"

lemma liftE_simps [simp]: "liftE s (Inl e) = raise_error s e" "liftE s (Inr a) = returns s a"
  and fst_liftE [simp]: "fst (liftE s r) = s"
  by (simp_all add: liftE_def split: sum.splits)

definition get_string :: "env \<Rightarrow> bytes \<Rightarrow> 'bm server \<Rightarrow> ('bm server, exn, bytes option) result" where
  "get_string ev key s =
     bindR (expect_kind ev key KIND_STRING s)
       (\<lambda>s v. returns s (case v of Some (VStr b) \<Rightarrow> Some b | _ \<Rightarrow> None))"

definition bulk_or_nil :: "bytes option \<Rightarrow> reply" where
  "bulk_or_nil v = (case v of None \<Rightarrow> RResponse NIL | Some b \<Rightarrow> RBytes b)"

section \<open>SET and its options\<close>

definition expire_time_error :: "bytes \<Rightarrow> error" where
  "expire_time_error command =
     err (''invalid expire time in '' @ quote_char @ command @ quote_char @ '' command'')"

definition time_units :: "bytes set" where
  "time_units = {''EX'', ''PX'', ''EXAT'', ''PXAT''}"

function extended_options_loop ::
  "bool \<Rightarrow> bytes list \<Rightarrow> bytes set \<Rightarrow> bytes option \<Rightarrow> bytes option
    \<Rightarrow> error + bytes set \<times> bytes option \<times> bytes option" where
  "extended_options_loop is_set [] flags unit raw = Inr (flags, unit, raw)"
| "extended_options_loop is_set (option # rest) flags unit raw =
     (let opt = upper option in
      if opt = ''NX'' \<and> is_set \<and> ''XX'' \<notin> flags then
        extended_options_loop is_set rest (insert ''NX'' flags) unit raw
      else if opt = ''XX'' \<and> is_set \<and> ''NX'' \<notin> flags then
        extended_options_loop is_set rest (insert ''XX'' flags) unit raw
      else if opt = ''GET'' \<and> is_set then
        extended_options_loop is_set rest (insert ''GET'' flags) unit raw
      else if opt = ''KEEPTTL'' \<and> is_set \<and> ''PERSIST'' \<notin> flags \<and> unit = None then
        extended_options_loop is_set rest (insert ''KEEPTTL'' flags) unit raw
      else if opt = ''PERSIST'' \<and> \<not> is_set \<and> ''KEEPTTL'' \<notin> flags \<and> unit = None then
        extended_options_loop is_set rest (insert ''PERSIST'' flags) unit raw
      else if opt \<in> time_units \<and> ''KEEPTTL'' \<notin> flags \<and> ''PERSIST'' \<notin> flags
                \<and> (unit = None \<or> unit = Some opt) \<and> rest \<noteq> [] then
        extended_options_loop is_set (tl rest) flags (Some opt) (Some (hd rest))
      else Inl SYNTAX)"
  by pat_completeness auto
termination
  by (relation "measure (\<lambda>(_, options, _). length options)") (auto simp: less_Suc_eq)

definition parse_extended_options ::
  "bytes \<Rightarrow> bytes list \<Rightarrow> error + bytes set \<times> bytes option \<times> bytes option" where
  "parse_extended_options command options =
     extended_options_loop (command = ''set'') options {} None None"

definition expire_wall_deadline :: "env \<Rightarrow> bytes \<Rightarrow> bytes \<Rightarrow> bytes \<Rightarrow> error + int" where
  "expire_wall_deadline ev command unit raw =
     (case string2ll raw of
        None \<Rightarrow> Inl NOT_INT
      | Some v \<Rightarrow>
          if v \<le> 0 then Inl (expire_time_error command)
          else if unit \<in> {''EX'', ''EXAT''} \<and> v > (2 ^ 63 - 1) div 1000 then Inl (expire_time_error command)
          else
            let v = (if unit = ''EX'' then v * 1000 + wall_ns ev div 1000000
                     else if unit = ''PX'' then v + wall_ns ev div 1000000
                     else if unit = ''EXAT'' then v * 1000
                     else v)
            in Inr (v * 1000000))"

definition option_deadline :: "env \<Rightarrow> bytes \<Rightarrow> bytes option \<Rightarrow> bytes option \<Rightarrow> error + int option" where
  "option_deadline ev command unit raw =
     (case (unit, raw) of
        (Some u, Some r) \<Rightarrow> map_sum id Some (expire_wall_deadline ev command u r)
      | _ \<Rightarrow> Inr None)"

definition SET :: "env \<Rightarrow> bytes \<Rightarrow> bytes \<Rightarrow> bytes list \<Rightarrow> 'bm server \<Rightarrow> 'bm cmd_result" where
  "SET ev key v options s =
     bindR (liftE s (parse_extended_options ''set'' options)) (\<lambda>s (flags, unit, raw).
     bindR (liftE s (option_deadline ev ''set'' unit raw)) (\<lambda>s deadline.
     bindR (if ''GET'' \<in> flags then get_string ev key s else returns s None) (\<lambda>s old.
       let found = data_contains ev (data s) key in
       if ''NX'' \<in> flags \<and> found \<or> ''XX'' \<in> flags \<and> \<not> found then returns s (bulk_or_nil old)
       else if int (length v) > MAX_STRING_SIZE then raise_error s STRING_OVERFLOW
       else
         let s = upd_data (data_set ev key (VStr v) deadline (''KEEPTTL'' \<in> flags)) s;
             s = after_write key ''set'' s;
             s = (if deadline \<noteq> None then notify key ''expire'' s else s)
         in returns s (case old of
              Some b \<Rightarrow> RBytes b
            | None \<Rightarrow> if ''GET'' \<in> flags then RResponse NIL else RResponse OK))))"

definition SETNX :: "env \<Rightarrow> bytes \<Rightarrow> bytes \<Rightarrow> 'bm server \<Rightarrow> 'bm cmd_result" where
  "SETNX ev key v s =
     (if data_contains ev (data s) key then returns s (RInt 0)
      else if int (length v) > MAX_STRING_SIZE then raise_error s STRING_OVERFLOW
      else returns (after_write key ''set'' (upd_data (data_set ev key (VStr v) None False) s)) (RInt 1))"

definition set_expiring ::
  "env \<Rightarrow> bytes \<Rightarrow> bytes \<Rightarrow> bytes \<Rightarrow> int \<Rightarrow> bytes \<Rightarrow> 'bm server \<Rightarrow> 'bm cmd_result" where
  "set_expiring ev command unit key n v s =
     bindR (liftE s (expire_wall_deadline ev command unit (show_int n))) (\<lambda>s deadline.
       let s = upd_data (data_set ev key (VStr v) (Some deadline) False) s;
           s = after_write key ''set'' s;
           s = notify key ''expire'' s
       in returns s (RResponse OK))"

definition SETEX :: "env \<Rightarrow> bytes \<Rightarrow> int \<Rightarrow> bytes \<Rightarrow> 'bm server \<Rightarrow> 'bm cmd_result" where
  "SETEX ev key secs v s = set_expiring ev ''setex'' ''EX'' key secs v s"

definition PSETEX :: "env \<Rightarrow> bytes \<Rightarrow> int \<Rightarrow> bytes \<Rightarrow> 'bm server \<Rightarrow> 'bm cmd_result" where
  "PSETEX ev key ms v s = set_expiring ev ''psetex'' ''PX'' key ms v s"

section \<open>Reads and read-modify-write\<close>

definition GET :: "env \<Rightarrow> bytes \<Rightarrow> 'bm server \<Rightarrow> 'bm cmd_result" where
  "GET ev key s = bindR (get_string ev key s) (\<lambda>s v. returns s (bulk_or_nil v))"

definition GETDEL :: "env \<Rightarrow> bytes \<Rightarrow> 'bm server \<Rightarrow> 'bm cmd_result" where
  "GETDEL ev key s =
     bindR (get_string ev key s) (\<lambda>s v.
       case v of
         None \<Rightarrow> returns s (RResponse NIL)
       | Some b \<Rightarrow> returns (after_write key ''del'' (fst (srv_remove ev key s))) (RBytes b))"

definition GETEX :: "env \<Rightarrow> bytes \<Rightarrow> bytes list \<Rightarrow> 'bm server \<Rightarrow> 'bm cmd_result" where
  "GETEX ev key options s =
     bindR (liftE s (parse_extended_options ''getex'' options)) (\<lambda>s (flags, unit, raw).
     bindR (get_string ev key s) (\<lambda>s v.
       case v of
         None \<Rightarrow> returns s (RResponse NIL)
       | Some b \<Rightarrow>
           if ''PERSIST'' \<in> flags then
             returns (after_write key ''persist'' (upd_data (\<lambda>d. fst (data_persist ev key d)) s)) (RBytes b)
           else case (unit, raw) of
             (Some u, Some r) \<Rightarrow>
               bindR (liftE s (expire_wall_deadline ev ''getex'' u r)) (\<lambda>s deadline.
                 if deadline \<le> wall_ns ev then
                   returns (after_write key ''del'' (fst (srv_remove ev key s))) (RBytes b)
                 else
                   returns (after_write key ''expire''
                     (upd_data (data_set ev key (VStr b) (Some deadline) False) s)) (RBytes b))
           | _ \<Rightarrow> returns s (RBytes b)))"

definition GETSET :: "env \<Rightarrow> bytes \<Rightarrow> bytes \<Rightarrow> 'bm server \<Rightarrow> 'bm cmd_result" where
  "GETSET ev key v s =
     bindR (get_string ev key s) (\<lambda>s retval.
       if int (length v) > MAX_STRING_SIZE then raise_error s STRING_OVERFLOW
       else returns (after_write key ''set'' (upd_data (data_setitem key (VStr v)) s)) (bulk_or_nil retval))"

fun mget_loop :: "env \<Rightarrow> bytes list \<Rightarrow> reply list \<Rightarrow> 'bm server \<Rightarrow> 'bm cmd_result" where
  "mget_loop ev [] out s = returns s (RList out)"
| "mget_loop ev (key # keys) out s =
     bindR (get_string ev key s) (\<lambda>s v. mget_loop ev keys (out @ [bulk_or_nil v]) s)"

definition MGET :: "env \<Rightarrow> bytes list \<Rightarrow> 'bm server \<Rightarrow> 'bm cmd_result" where
  "MGET ev keys s = (if keys = [] then raise_error s (arity ''mget'') else mget_loop ev keys [] s)"

text \<open>The slices \<^verbatim>\<open>args[::2]\<close> and \<^verbatim>\<open>args[1::2]\<close>, zipped.\<close>

fun pairs_of :: "'a list \<Rightarrow> ('a \<times> 'a) list" where
  "pairs_of (k # v # rest) = (k, v) # pairs_of rest"
| "pairs_of _ = []"

definition store_pairs :: "(bytes \<times> bytes) list \<Rightarrow> 'bm server \<Rightarrow> 'bm server" where
  "store_pairs kvs s =
     fold (\<lambda>(key, v). after_write key ''set'') kvs
       (fold (\<lambda>(key, v). upd_data (data_setitem key (VStr v))) kvs s)"

definition MSET :: "env \<Rightarrow> bytes list \<Rightarrow> 'bm server \<Rightarrow> 'bm cmd_result" where
  "MSET ev args s =
     (if length args < 2 \<or> odd (length args) then raise_error s (arity ''mset'')
      else
        let kvs = pairs_of args in
        if list_ex (\<lambda>(k, v). int (length v) > MAX_STRING_SIZE) kvs then raise_error s STRING_OVERFLOW
        else returns (store_pairs kvs s) (RResponse OK))"

definition MSETNX :: "env \<Rightarrow> bytes list \<Rightarrow> 'bm server \<Rightarrow> 'bm cmd_result" where
  "MSETNX ev args s =
     (if length args < 2 \<or> odd (length args) then raise_error s (arity ''msetnx'')
      else
        let kvs = pairs_of args in
        if list_ex (\<lambda>(k, v). data_contains ev (data s) k) kvs then returns s (RInt 0)
        else if list_ex (\<lambda>(k, v). int (length v) > MAX_STRING_SIZE) kvs then raise_error s STRING_OVERFLOW
        else returns (store_pairs kvs s) (RInt 1))"

section \<open>Counters\<close>

text \<open>
  \<^verbatim>\<open>int(val, 10)\<close> refuses more digits than the interpreter's limit with an exception the
  handler does not catch.
\<close>

definition bump :: "env \<Rightarrow> bytes \<Rightarrow> int \<Rightarrow> 'bm server \<Rightarrow> 'bm cmd_result" where
  "bump ev key by s =
     (case srv_get ev key s of (s, v) \<Rightarrow>
        bindR
          (case v of
             None \<Rightarrow> returns s 0
           | Some (VStr b) \<Rightarrow>
               if \<not> RE_NUMERIC b then raise_error s NOT_INT
               else (case int_of_numeric b of None \<Rightarrow> raises s Crashed | Some i \<Rightarrow> returns s i)
           | Some _ \<Rightarrow> raise_error s WRONGTYPE)
          (\<lambda>s current.
             let r = current + by in
             if r < INT64_MIN \<or> r > INT64_MAX then raise_error s OVERFLOW
             else returns (after_write key ''incrby''
                    (upd_data (data_set ev key (VStr (show_int r)) None True) s)) (RInt r)))"

definition INCRBY :: "env \<Rightarrow> bytes \<Rightarrow> int \<Rightarrow> 'bm server \<Rightarrow> 'bm cmd_result" where
  "INCRBY ev key i s = bump ev key i s"

definition INCR :: "env \<Rightarrow> bytes \<Rightarrow> 'bm server \<Rightarrow> 'bm cmd_result" where
  "INCR ev key s = bump ev key 1 s"

definition DECRBY :: "env \<Rightarrow> bytes \<Rightarrow> int \<Rightarrow> 'bm server \<Rightarrow> 'bm cmd_result" where
  "DECRBY ev key i s = bump ev key (- i) s"

definition DECR :: "env \<Rightarrow> bytes \<Rightarrow> 'bm server \<Rightarrow> 'bm cmd_result" where
  "DECR ev key s = bump ev key (- 1) s"

section \<open>Ranges\<close>

text \<open>The slice \<^verbatim>\<open>xs[start:stop]\<close>: negative bounds count from the end, and are clamped.\<close>

definition slice_index :: "int \<Rightarrow> nat \<Rightarrow> nat" where
  "slice_index i n = nat (if i < 0 then max 0 (i + int n) else min i (int n))"

definition py_slice :: "int \<Rightarrow> int \<Rightarrow> 'a list \<Rightarrow> 'a list" where
  "py_slice start stop xs = slice (slice_index start (length xs)) (slice_index stop (length xs)) xs"

definition getrange :: "env \<Rightarrow> bytes \<Rightarrow> int \<Rightarrow> int \<Rightarrow> 'bm server \<Rightarrow> 'bm cmd_result" where
  "getrange ev key start stop s =
     bindR (get_string ev key s) (\<lambda>s v.
       case v of
         None \<Rightarrow> returns s (RBytes [])
       | Some b \<Rightarrow>
           let e = (if stop \<ge> 0 then stop + 1 else int (length b) + stop + 1)
           in returns s (RBytes (py_slice start e b)))"

definition GETRANGE :: "env \<Rightarrow> bytes \<Rightarrow> int \<Rightarrow> int \<Rightarrow> 'bm server \<Rightarrow> 'bm cmd_result" where
  "GETRANGE ev key start stop s = getrange ev key start stop s"

definition SUBSTR :: "env \<Rightarrow> bytes \<Rightarrow> int \<Rightarrow> int \<Rightarrow> 'bm server \<Rightarrow> 'bm cmd_result" where
  "SUBSTR ev key start stop s = getrange ev key start stop s"

definition NUL :: char where "NUL = CHR 0x00"

definition splice :: "nat \<Rightarrow> bytes \<Rightarrow> bytes \<Rightarrow> bytes" where
  "splice offset v b =
     (if offset > length b then b @ replicate (offset - length b) NUL @ v
      else take offset b @ v @ drop (offset + length v) b)"

definition SETRANGE :: "env \<Rightarrow> bytes \<Rightarrow> int \<Rightarrow> bytes \<Rightarrow> 'bm server \<Rightarrow> 'bm cmd_result" where
  "SETRANGE ev key offset v s =
     (if offset < 0 then raise_error s RANGE_OFFSET
      else
        bindR (get_string ev key s) (\<lambda>s old.
          let b = (case old of None \<Rightarrow> [] | Some b \<Rightarrow> b) in
          if offset + int (length v) > MAX_STRING_SIZE then raise_error s STRING_OVERFLOW
          else
            let b = splice (nat offset) v b
            in returns (after_write key ''setrange'' (upd_data (data_set ev key (VStr b) None True) s))
                 (RInt (int (length b)))))"

definition APPEND :: "env \<Rightarrow> bytes \<Rightarrow> bytes \<Rightarrow> 'bm server \<Rightarrow> 'bm cmd_result" where
  "APPEND ev key v s =
     bindR (get_string ev key s) (\<lambda>s current.
       let b = (case current of None \<Rightarrow> [] | Some c \<Rightarrow> c) @ v in
       if int (length b) > MAX_STRING_SIZE then raise_error s STRING_OVERFLOW
       else returns (after_write key ''append'' (upd_data (data_set ev key (VStr b) None True) s))
              (RInt (int (length b))))"

definition STRLEN :: "env \<Rightarrow> bytes \<Rightarrow> 'bm server \<Rightarrow> 'bm cmd_result" where
  "STRLEN ev key s =
     bindR (get_string ev key s) (\<lambda>s v.
       returns s (RInt (case v of None \<Rightarrow> 0 | Some b \<Rightarrow> int (length b))))"

section \<open>Safety\<close>

lemma safe_get_string [safe_intros]: "safe s (fst (get_string ev key s))"
  unfolding get_string_def by (rule safe_bind) (auto intro: safe_expect)

lemma fst_get_string: "fst (get_string ev key s) = fst (srv_get ev key s)"
  by (simp add: get_string_def expect_kind_cases split: option.splits)

lemmas cmd_splits = option.splits val.splits if_splits prod.splits

lemma safe_SET: "safe s (fst (SET ev key v options s))"
  by (auto simp: SET_def Let_def intro!: safe_bind safe_intros split: cmd_splits)

lemma safe_writes:
  "safe s (fst (SETNX ev key v s))" "safe s (fst (SETEX ev key n v s))" "safe s (fst (PSETEX ev key n v s))"
  "safe s (fst (GET ev key s))" "safe s (fst (GETDEL ev key s))" "safe s (fst (GETSET ev key v s))"
  "safe s (fst (getrange ev key start stop s))" "safe s (fst (STRLEN ev key s))"
  "safe s (fst (APPEND ev key v s))" "safe s (fst (SETRANGE ev key i v s))"
  by (auto simp: SETNX_def SETEX_def PSETEX_def set_expiring_def GET_def GETDEL_def GETSET_def getrange_def
      STRLEN_def APPEND_def SETRANGE_def Let_def intro!: safe_bind safe_intros split: cmd_splits)

lemma safe_GETEX: "safe s (fst (GETEX ev key options s))"
proof -
  have persist: "safe s s' \<Longrightarrow> safe s (upd_data (\<lambda>d. fst (data_persist ev key d)) s')" for s s' :: "'a server"
    by (rule safe_trans [OF _ safe_upd]) (auto intro: store_ok_expires)
  show ?thesis
    by (auto simp: GETEX_def Let_def intro!: safe_bind safe_intros persist split: cmd_splits)
qed

lemma safe_MGET: "safe s (fst (MGET ev keys s))"
proof -
  have "safe s (fst (mget_loop ev keys out s))" for out and s :: "'a server"
    by (induction keys arbitrary: out s) (auto intro!: safe_bind safe_intros)
  then show ?thesis by (simp add: MGET_def)
qed

lemma safe_fold: "(\<And>x s. safe s (f x s)) \<Longrightarrow> safe s (fold f xs s)"
  by (induction xs arbitrary: s) (auto intro: safe_trans)

lemma safe_store_pairs: "safe s (store_pairs kvs s)"
  unfolding store_pairs_def
  by (rule safe_trans [OF safe_fold safe_fold]) (auto intro!: safe_intros)

lemma safe_MSET: "safe s (fst (MSET ev args s))" "safe s (fst (MSETNX ev args s))"
  by (auto simp: MSET_def MSETNX_def Let_def safe_store_pairs)

lemma safe_bump: "safe s (fst (bump ev key by s))"
proof -
  obtain s1 v where g: "srv_get ev key s = (s1, v)" by (cases "srv_get ev key s")
  then have s1: "safe s s1" using safe_get [of s ev key] by simp
  show ?thesis
    unfolding bump_def g prod.case
    by (rule safe_trans [OF s1])
      (auto simp: Let_def intro!: safe_bind safe_intros split: cmd_splits)
qed

lemmas safe_string_cmds = safe_SET safe_writes safe_GETEX safe_MGET safe_MSET safe_bump

section \<open>What the commands do to the view\<close>

definition string_of :: "'bm val option \<Rightarrow> error + bytes option" where
  "string_of v = (case v of None \<Rightarrow> Inr None | Some (VStr b) \<Rightarrow> Inr (Some b) | Some _ \<Rightarrow> Inl WRONGTYPE)"

lemma get_string_eq: "get_string ev key s = liftE (fst (srv_get ev key s)) (string_of (value_at ev s key))"
  by (simp add: get_string_def expect_kind_cases string_of_def split: option.splits val.splits)

lemma view_store_pairs:
  "view ev (store_pairs kvs s) = view ev s ++ map_of (rev (map (\<lambda>(k, v). (k, (VStr v, None))) kvs))"
proof -
  have touches: "view ev (fold (\<lambda>(key, v). after_write key ''set'') kvs s) = view ev s" for s :: "'a server"
    by (induction kvs arbitrary: s) (auto simp: view_simps)
  have "view ev (fold (\<lambda>(key, v). upd_data (data_setitem key (VStr v))) kvs s) =
      view ev s ++ map_of (rev (map (\<lambda>(k, v). (k, (VStr v, None))) kvs))" for s :: "'a server"
    by (induction kvs arbitrary: s)
      (auto simp: view_simps fun_eq_iff map_add_def split: option.splits)
  then show ?thesis by (simp add: store_pairs_def touches)
qed

lemma bump_eq:
  "bump ev key by s =
     (let s1 = fst (srv_get ev key s) in
      bindR
        (case value_at ev s key of
           None \<Rightarrow> returns s1 0
         | Some (VStr b) \<Rightarrow>
             if \<not> RE_NUMERIC b then raise_error s1 NOT_INT
             else (case int_of_numeric b of None \<Rightarrow> raises s1 Crashed | Some i \<Rightarrow> returns s1 i)
         | Some _ \<Rightarrow> raise_error s1 WRONGTYPE)
        (\<lambda>s current.
           let r = current + by in
           if r < INT64_MIN \<or> r > INT64_MAX then raise_error s OVERFLOW
           else returns (after_write key ''incrby''
                  (upd_data (data_set ev key (VStr (show_int r)) None True) s)) (RInt r)))"
  by (simp add: bump_def Let_def case_prod_unfold)

text \<open>The number a key counts from: a missing key is 0.\<close>

definition counter_at :: "env \<Rightarrow> 'bm server \<Rightarrow> bytes \<Rightarrow> int option" where
  "counter_at ev s key =
     (case value_at ev s key of
        None \<Rightarrow> Some 0
      | Some (VStr b) \<Rightarrow> if RE_NUMERIC b then int_of_numeric b else None
      | Some _ \<Rightarrow> None)"

lemma bump_counter:
  assumes "counter_at ev s key = Some n"
  shows "bump ev key by s =
    (let s1 = fst (srv_get ev key s) in
     if n + by < INT64_MIN \<or> n + by > INT64_MAX then raise_error s1 OVERFLOW
     else returns (after_write key ''incrby''
            (upd_data (data_set ev key (VStr (show_int (n + by))) None True) s1)) (RInt (n + by)))"
  using assms unfolding bump_eq counter_at_def
  by (auto simp: Let_def split: option.splits val.splits if_splits)

definition in_int64 :: "int \<Rightarrow> bool" where
  "in_int64 i \<longleftrightarrow> INT64_MIN \<le> i \<and> i \<le> INT64_MAX"

lemma view_bump:
  assumes "counter_at ev s key = Some n" "in_int64 (n + by)"
  shows "snd (bump ev key by s) = Inr (RInt (n + by))"
    and "view ev (fst (bump ev key by s)) =
      (view ev s)(key \<mapsto> (VStr (show_int (n + by)),
         case view ev s key of None \<Rightarrow> None | Some (_, t) \<Rightarrow> t))"
  using assms(2) unfolding bump_counter [OF assms(1)]
  by (auto simp: Let_def view_simps in_int64_def fun_eq_iff split: option.splits)

lemma string_at_append_view:
  "view ev s key = Some (VStr b, t) \<Longrightarrow> string_of (value_at ev s key) = Inr (Some b)"
  by (simp add: value_at_def string_of_def)

lemma length_splice: "length (splice offset v b) = max (length b) (offset + length v)"
  by (auto simp: splice_def max_def min_def)

lemma splice_window: "take (length v) (drop offset (splice offset v b)) = v"
  by (simp add: splice_def)

lemma nth_splice:
  assumes "i < length (splice offset v b)"
  shows "splice offset v b ! i =
    (if offset \<le> i \<and> i < offset + length v then v ! (i - offset)
     else if i < length b then b ! i else NUL)"
  using assms by (auto simp: splice_def nth_append min_def)

lemma slice_window_int:
  "0 \<le> lo \<Longrightarrow> slice (nat lo) (nat (hi + 1)) xs = take (nat (hi - lo + 1)) (drop (nat lo) xs)"
proof -
  assume "0 \<le> lo"
  then have "nat (hi + 1) - nat lo = nat (hi - lo + 1)" by linarith
  then show ?thesis by (simp add: slice_def drop_take)
qed

lemma slice_past_end: "slice (length xs) j xs = []"
  by (simp add: slice_def)

lemma py_slice_window:
  "i + n \<le> length xs \<Longrightarrow> py_slice (int i) (int (i + n)) xs = take n (drop i xs)"
  by (simp add: py_slice_def slice_index_def slice_def drop_take min_def nat_int_add)

lemma view_SETRANGE:
  assumes "0 \<le> offset" "offset + int (length v) \<le> MAX_STRING_SIZE"
    and "string_of (value_at ev s key) = Inr old"
  defines "b \<equiv> splice (nat offset) v (case old of None \<Rightarrow> [] | Some b \<Rightarrow> b)"
  shows "snd (SETRANGE ev key offset v s) = Inr (RInt (int (length b)))"
    and "view ev (fst (SETRANGE ev key offset v s)) =
      (view ev s)(key \<mapsto> (VStr b, case view ev s key of None \<Rightarrow> None | Some (_, t) \<Rightarrow> t))"
  using assms(1,2) unfolding SETRANGE_def get_string_eq assms(3) b_def
  by (auto simp: Let_def view_simps fun_eq_iff split: option.splits)


section \<open>Properties\<close>


definition demo_env :: env where
  "demo_env = \<lparr>mono_ns = 50, wall_ns = 1000000, set_order = sorted_list_of_fset,
     rng_choice = (\<lambda>i n. 0), rng_sample = (\<lambda>n k. [0..<k])\<rparr>"

lemma demo_env_simps [simp]: "mono_ns demo_env = 50" "wall_ns demo_env = 1000000"
  by (simp_all add: demo_env_def)

definition with_keys :: "(bytes \<times> 'bm val) list \<Rightarrow> 'bm server" where
  "with_keys kvs = upd_data (fold (\<lambda>(key, v). data_setitem key v) kvs) Commands"

lemma view_with_keys: "view ev (with_keys kvs) key = map_option (\<lambda>v. (v, None)) (map_of (rev kvs) key)"
proof -
  have "peek ev (fold (\<lambda>(key, v). data_setitem key v) kvs d) key =
      (case map_of (rev kvs) key of None \<Rightarrow> peek ev d key | Some v \<Rightarrow> Some (v, None))" for d :: "'a val data"
    by (induction kvs arbitrary: d) (auto simp: peek_simps split: option.splits)
  then show ?thesis
    by (simp add: with_keys_def view_def Commands_def peek_def [of ev "Data :: 'a val data"] split: option.splits)
qed

lemma value_at_with_keys: "value_at ev (with_keys kvs) key = map_of (rev kvs) key"
  by (simp add: value_at_def view_with_keys option.map_comp comp_def option.map_ident)


text \<open>
  C9: the counters.  On a missing key or a stored 64-bit number the reply is the sum, which is also what
  the key then holds, with its deadline kept; counting back by the same amount gives the old number
  again.  A sum outside the signed 64-bit range is refused and nothing visible changes.
\<close>

theorem counter_arithmetic:
  assumes "counter_at ev s key = Some n" "in_int64 n"
  shows "if in_int64 (n + by)
    then snd (bump ev key by s) = Inr (RInt (n + by))
      \<and> view ev (fst (bump ev key by s)) = (view ev s)(key \<mapsto> (VStr (show_int (n + by)),
           case view ev s key of None \<Rightarrow> None | Some (_, t) \<Rightarrow> t))
      \<and> counter_at ev (fst (bump ev key by s)) key = Some (n + by)
      \<and> snd (bump ev key (- by) (fst (bump ev key by s))) = Inr (RInt n)
    else snd (bump ev key by s) = Inl (Raised OVERFLOW) \<and> view ev (fst (bump ev key by s)) = view ev s"
proof (cases "in_int64 (n + by)")
  case True
  note step = view_bump [OF assms(1) True]
  have "counter_at ev (fst (bump ev key by s)) key = Some (n + by)"
    using True unfolding counter_at_def value_at_def step(2)
    by (simp add: int_of_numeric_show_int in_int64_def)
  moreover from view_bump(1) [OF this, of "- by"] have
    "snd (bump ev key (- by) (fst (bump ev key by s))) = Inr (RInt n)" using assms(2) by simp
  ultimately show ?thesis using True step by simp
next
  case False
  then show ?thesis
    unfolding bump_counter [OF assms(1)] by (auto simp: Let_def view_simps in_int64_def)
qed

theorem counter_arithmetic_witness:
  "snd (INCR demo_env ''n'' (with_keys [(''n'', VStr ''41'')] :: unit server)) = Inr (RInt 42) \<and>
   snd (INCRBY demo_env ''n'' INT64_MAX (with_keys [(''n'', VStr ''41'')] :: unit server)) = Inl (Raised OVERFLOW)"
proof -
  have "counter_at demo_env (with_keys [(''n'', VStr ''41'')] :: unit server) ''n'' = Some 41"
  proof -
    have "show_int 41 = ''41''" by (simp add: show_int_def show_nat.simps)
    then show ?thesis
      using RE_NUMERIC_show_int [of 41] int_of_numeric_show_int [of 41]
      by (simp add: counter_at_def value_at_with_keys INT64_MIN_def INT64_MAX_def)
  qed
  moreover have "in_int64 41" by (simp add: in_int64_def INT64_MIN_def INT64_MAX_def)
  ultimately show ?thesis
    using counter_arithmetic [of demo_env "with_keys [(''n'', VStr ''41'')] :: unit server" "''n''" 41 1]
      counter_arithmetic [of demo_env "with_keys [(''n'', VStr ''41'')] :: unit server" "''n''" 41 INT64_MAX]
    by (simp add: INCR_def INCRBY_def in_int64_def INT64_MIN_def INT64_MAX_def split: if_splits)
qed

text \<open>
  \<^verbatim>\<open>MSET\<close> and \<^verbatim>\<open>MSETNX\<close> store all pairs or none.  A well-formed \<^verbatim>\<open>MSET\<close> makes every
  key hold its value without a deadline, the last pair of a repeated key winning; \<^verbatim>\<open>MSETNX\<close> does
  the same when no key exists, and changes nothing and answers 0 when one does.
\<close>

theorem MSET_all_or_nothing:
  assumes "2 \<le> length args" "even (length args)"
    and "\<forall>(k, v) \<in> set (pairs_of args). int (length v) \<le> MAX_STRING_SIZE"
  shows "view ev (fst (MSET ev args s)) =
      view ev s ++ map_of (rev (map (\<lambda>(k, v). (k, (VStr v, None))) (pairs_of args)))
    \<and> snd (MSET ev args s) = Inr (RResponse OK)
    \<and> view ev (fst (MSETNX ev args s)) =
      (if \<exists>(k, v) \<in> set (pairs_of args). view ev s k \<noteq> None then view ev s
       else view ev s ++ map_of (rev (map (\<lambda>(k, v). (k, (VStr v, None))) (pairs_of args))))
    \<and> snd (MSETNX ev args s) =
      Inr (RInt (if \<exists>(k, v) \<in> set (pairs_of args). view ev s k \<noteq> None then 0 else 1))"
proof -
  have "\<not> list_ex (\<lambda>(k, v). int (length v) > MAX_STRING_SIZE) (pairs_of args)"
    using assms(3) by (auto simp: list_ex_iff)
  then show ?thesis
    using assms(1,2) unfolding MSET_def MSETNX_def Let_def contains_view
    by (simp add: view_store_pairs list_ex_iff case_prod_unfold)
qed

theorem MSET_all_or_nothing_witness:
  "view demo_env (fst (MSET demo_env [''a'', ''1'', ''b'', ''2''] (Commands :: unit server))) ''b''
     = Some (VStr ''2'', None)"
  using MSET_all_or_nothing [of "[''a'', ''1'', ''b'', ''2'']" demo_env "Commands :: unit server"]
  by (simp add: MAX_STRING_SIZE_def)

text \<open>
  \<^verbatim>\<open>SETRANGE\<close> overwrites exactly its window.  The new length is as long as needed, bytes
  outside the window stay, a gap behind the old end is filled with zero bytes, the deadline is kept,
  and \<^verbatim>\<open>GETRANGE\<close> over the window reads back what was written.
\<close>

theorem SETRANGE_GETRANGE:
  assumes "0 \<le> offset" "offset + int (length v) \<le> MAX_STRING_SIZE" "v \<noteq> []"
    and "string_of (value_at ev s key) = Inr old"
  defines "s' \<equiv> fst (SETRANGE ev key offset v s)"
  shows "snd (GETRANGE ev key offset (offset + int (length v) - 1) s') = Inr (RBytes v)
    \<and> (\<exists>b. string_of (value_at ev s' key) = Inr (Some b)
        \<and> snd (SETRANGE ev key offset v s) = Inr (RInt (int (length b)))
        \<and> length b = max (length (case old of None \<Rightarrow> [] | Some b \<Rightarrow> b)) (nat offset + length v)
        \<and> (\<forall>i < length b. b ! i =
            (if nat offset \<le> i \<and> i < nat offset + length v then v ! (i - nat offset)
             else if i < length (case old of None \<Rightarrow> [] | Some b \<Rightarrow> b)
             then (case old of None \<Rightarrow> [] | Some b \<Rightarrow> b) ! i else NUL)))"
proof -
  let ?old = "case old of None \<Rightarrow> [] | Some b \<Rightarrow> b"
  let ?b = "splice (nat offset) v ?old"
  note step = view_SETRANGE [OF assms(1,2,4)]
  have at: "string_of (value_at ev s' key) = Inr (Some ?b)"
    unfolding s'_def by (rule string_at_append_view) (simp add: step(2))
  have pos: "0 < length v" using assms(3) by simp
  have "py_slice (int (nat offset)) (int (nat offset + length v)) ?b = take (length v) (drop (nat offset) ?b)"
    by (rule py_slice_window) (simp add: length_splice)
  then have "snd (GETRANGE ev key offset (offset + int (length v) - 1) s') = Inr (RBytes v)"
    using assms(1) pos by (simp add: GETRANGE_def getrange_def get_string_eq at Let_def splice_window
        del: length_0_conv length_greater_0_conv)
  then show ?thesis
    using at step(1) length_splice [of "nat offset" v ?old] nth_splice [of _ "nat offset" v ?old]
    by (intro conjI exI [of _ ?b]) auto
qed

theorem SETRANGE_GETRANGE_witness:
  "snd (GETRANGE demo_env ''k'' 6 10 (fst (SETRANGE demo_env ''k'' 6 ''Redis''
      (with_keys [(''k'', VStr ''Hello World'')] :: unit server)))) = Inr (RBytes ''Redis'')"
  using SETRANGE_GETRANGE [of 6 "''Redis''" demo_env "with_keys [(''k'', VStr ''Hello World'')] :: unit server"
      "''k''" "Some ''Hello World''"]
  by (simp add: value_at_with_keys string_of_def MAX_STRING_SIZE_def)

text \<open>
  \<^verbatim>\<open>GETRANGE\<close> answers the inclusive range of bytes, negative offsets counting from the end and
  offsets outside the string clamped, for every end that is not further back than one before the start
  of the string.
\<close>

theorem GETRANGE_correct:
  assumes "string_of (value_at ev s key) = Inr (Some b)" "- int (length b) - 1 \<le> stop"
  shows "snd (GETRANGE ev key start stop s) = Inr (RBytes
    (let n = int (length b);
         lo = max 0 (if start < 0 then start + n else start);
         hi = min (n - 1) (if stop < 0 then stop + n else stop)
     in take (nat (hi - lo + 1)) (drop (nat lo) b)))"
proof -
  let ?n = "int (length b)"
  let ?lo = "max 0 (if start < 0 then start + ?n else start)"
  let ?hi = "min (?n - 1) (if stop < 0 then stop + ?n else stop)"
  let ?e = "if stop \<ge> 0 then stop + 1 else ?n + stop + 1"
  have e: "slice_index ?e (length b) = nat (?hi + 1)" using assms(2) by (cases b) (auto simp: slice_index_def min_def)
  have "slice_index start (length b) = nat (min ?lo ?n)" by (auto simp: slice_index_def min_def max_def)
  moreover have "slice (nat (min ?lo ?n)) (nat (?hi + 1)) b = take (nat (?hi - ?lo + 1)) (drop (nat ?lo) b)"
    by (cases "?lo \<le> ?n") (simp_all add: slice_window_int slice_past_end min_def)
  ultimately show ?thesis
    using assms(1) e by (simp add: GETRANGE_def getrange_def get_string_eq Let_def py_slice_def)
qed

theorem GETRANGE_correct_witness:
  "snd (GETRANGE demo_env ''k'' (-3) (-1) (with_keys [(''k'', VStr ''This is'')] :: unit server))
     = Inr (RBytes '' is'')"
  using GETRANGE_correct [of demo_env "with_keys [(''k'', VStr ''This is'')] :: unit server" "''k''"
      "''This is''" "-1" "-3"]
  by (simp add: value_at_with_keys string_of_def)

text \<open>
  An end further back than that becomes a negative slice bound, which Python counts from the end a
  second time: from the start of the string, \<^verbatim>\<open>GETRANGE\<close> then answers a prefix whose length shrinks
  with the end, instead of treating the end as lying before the string.
\<close>

theorem GETRANGE_far_negative_end:
  assumes "string_of (value_at ev s key) = Inr (Some b)" "stop < - int (length b) - 1"
  shows "snd (GETRANGE ev key 0 stop s) = Inr (RBytes (take (nat (2 * int (length b) + stop + 1)) b))"
proof -
  have "slice_index (int (length b) + stop + 1) (length b) = nat (2 * int (length b) + stop + 1)"
    using assms(2) by (auto simp: slice_index_def min_def max_def)
  then show ?thesis
    using assms by (simp add: GETRANGE_def getrange_def get_string_eq Let_def py_slice_def slice_index_def slice_def)
qed

theorem GETRANGE_far_negative_end_witness:
  "snd (GETRANGE demo_env ''k'' 0 (-5) (with_keys [(''k'', VStr ''abc'')] :: unit server)) = Inr (RBytes ''ab'')"
  using GETRANGE_far_negative_end [of demo_env "with_keys [(''k'', VStr ''abc'')] :: unit server" "''k''"
      "''abc''" "-5"]
  by (simp add: value_at_with_keys string_of_def)

end
