(* ===== verification/Dispatch.thy ===== *)
theory Dispatch
  imports PubSubCmds StringCmds
begin

text \<open>
  The dispatcher: the argument decorator of \<open>commands/decorator.py\<close>, and \<^verbatim>\<open>dispatch\<close>,
  \<^verbatim>\<open>_dispatch_direct\<close> and \<^verbatim>\<open>_dispatch_queued\<close> of \<open>commands/__init__.py\<close> with \<^verbatim>\<open>MULTI\<close>,
  \<^verbatim>\<open>EXEC\<close>, \<^verbatim>\<open>DISCARD\<close> and the rules of subscribed connections.

  The methods of the \<^verbatim>\<open>Commands\<close> class that \<^verbatim>\<open>getattr\<close> finds are a table, an argument of the definitions;
  what the dispatcher relies on is the locale \<open>command_set\<close>.  A request is a list of bulk strings, as
  clients send it.
\<close>

section \<open>Arguments\<close>

datatype arg = AB bytes | AI int

record 'bm handler =
  int_args :: "bool list"
  required_args :: nat
  var_args :: bool
  body :: "env \<Rightarrow> arg list \<Rightarrow> 'bm server \<Rightarrow> 'bm cmd_result"

text \<open>A handler under \<^verbatim>\<open>command_decorator\<close>, or one under \<^verbatim>\<open>pubsub_command\<close>, which has no upper bound.\<close>

datatype 'bm command =
    Decorated "'bm handler"
  | Pubsub nat "env \<Rightarrow> bytes list \<Rightarrow> 'bm server \<Rightarrow> 'bm session_result"

fun min_args :: "'bm command \<Rightarrow> nat" where
  "min_args (Decorated h) = required_args h"
| "min_args (Pubsub n f) = n"

fun max_args :: "'bm command \<Rightarrow> nat option" where
  "max_args (Decorated h) = (if var_args h then None else Some (length (int_args h)))"
| "max_args (Pubsub n f) = None"

definition arity_ok :: "'bm command \<Rightarrow> nat \<Rightarrow> bool" where
  "arity_ok c n \<longleftrightarrow> min_args c \<le> n \<and> (case max_args c of None \<Rightarrow> True | Some m \<Rightarrow> n \<le> m)"

text \<open>\<^verbatim>\<open>inner\<close> of the decorator: the arguments that are numbers are converted, the rest is passed on.\<close>

fun cast_args :: "bool list \<Rightarrow> bool \<Rightarrow> bytes list \<Rightarrow> error + arg list" where
  "cast_args [] va args = Inr (if va then map AB args else [])"
| "cast_args (t # ts) va [] = Inr []"
| "cast_args (t # ts) va (a # args) =
     (case (if t then (case string2ll a of None \<Rightarrow> Inl NOT_INT | Some i \<Rightarrow> Inr (AI i)) else Inr (AB a)) of
        Inl e \<Rightarrow> Inl e
      | Inr x \<Rightarrow> map_sum id (\<lambda>xs. x # xs) (cast_args ts va args))"

definition inner :: "'bm handler \<Rightarrow> env \<Rightarrow> bytes list \<Rightarrow> 'bm server \<Rightarrow> 'bm cmd_result" where
  "inner h ev args s =
     bindR (liftE s (cast_args (int_args h) (var_args h) args)) (\<lambda>s xs. body h ev xs s)"

section \<open>Frames\<close>

definition RError_frame :: "error \<Rightarrow> bytes" where
  "RError_frame e = protocolBuilder (RError e)"

definition exn_frame :: "exn \<Rightarrow> bytes" where
  "exn_frame x = (case x of Raised e \<Rightarrow> RError_frame e | Crashed \<Rightarrow> RError_frame (err ''internal error''))"

definition GATE_TEXT :: "bytes \<Rightarrow> bytes" where
  "GATE_TEXT label =
     ''Can'' @ quote_char @ ''t execute '' @ quote_char @ label @ quote_char @
     '': only (P|S)SUBSCRIBE / (P|S)UNSUBSCRIBE / PING / QUIT / RESET are allowed in this context''"

definition ALLOWED_WHILE_SUBSCRIBED :: "bytes list" where
  "ALLOWED_WHILE_SUBSCRIBED = [''SUBSCRIBE'', ''UNSUBSCRIBE'', ''PSUBSCRIBE'', ''PUNSUBSCRIBE'', ''PING'']"

definition SUBCOMMAND_COMMANDS :: "bytes list" where
  "SUBCOMMAND_COMMANDS = [''CLIENT'', ''CONFIG'', ''COMMAND'', ''PUBSUB'']"

definition unknown_command_frame :: "bytes \<Rightarrow> bytes list \<Rightarrow> bytes" where
  "unknown_command_frame command args =
     ''-ERR unknown command '' @ quote_char @ map (\<lambda>c. if is_ascii c then c else CHR ''?'') command
     @ quote_char @ '', with args beginning with: ''
     @ concat (map (\<lambda>arg. quote_char @ take 128 arg @ quote_char @ '' '') args) @ SYM_CRLF"

definition command_name :: "bytes list \<Rightarrow> bytes" where
  "command_name request = upper (ascii_replace (hd request))"

definition gate_label :: "bytes list \<Rightarrow> bytes" where
  "gate_label request =
     lower (ascii_replace (hd request))
     @ (if length request > 1 \<and> command_name request \<in> set SUBCOMMAND_COMMANDS
        then ''|'' @ lower (ascii_replace (request ! 1)) else [])"

definition gate_error :: "bytes list \<Rightarrow> bytes" where
  "gate_error request = RError_frame (err (GATE_TEXT (gate_label request)))"

section \<open>Direct execution\<close>

definition is_subscribed :: "sid option \<Rightarrow> 'bm server \<Rightarrow> bool" where
  "is_subscribed session s = (case session of None \<Rightarrow> False | Some sid \<Rightarrow> subscribed (sessions s sid))"

text \<open>The handler is called, and its value or exception encoded.\<close>

definition call_decorated :: "'bm handler \<Rightarrow> env \<Rightarrow> bytes list \<Rightarrow> 'bm server \<Rightarrow> 'bm server \<times> bytes option" where
  "call_decorated h ev args s =
     (case inner h ev args s of
        (s, Inr reply) \<Rightarrow> (s, Some (protocolBuilder reply))
      | (s, Inl e) \<Rightarrow> (s, Some (exn_frame e)))"

definition call_pubsub ::
  "(env \<Rightarrow> bytes list \<Rightarrow> 'bm server \<Rightarrow> 'bm session_result) \<Rightarrow> sid option \<Rightarrow> env \<Rightarrow> bytes list \<Rightarrow> 'bm server
    \<Rightarrow> 'bm server \<times> bytes option" where
  "call_pubsub f session ev args s =
     (let previous = cur_session s in
      case f ev args (s\<lparr>cur_session := session\<rparr>) of
        (s, r) \<Rightarrow>
          (s\<lparr>cur_session := previous\<rparr>,
           case r of
             Inr None \<Rightarrow> None
           | Inr (Some reply) \<Rightarrow> Some (protocolBuilder reply)
           | Inl e \<Rightarrow> Some (exn_frame e)))"

text \<open>The second half of \<^verbatim>\<open>_dispatch_direct\<close>, once the handler is found.\<close>

definition run_handler ::
  "'bm command \<Rightarrow> env \<Rightarrow> bytes list \<Rightarrow> sid option \<Rightarrow> bool \<Rightarrow> 'bm server \<Rightarrow> 'bm server \<times> bytes option" where
  "run_handler c ev request session bypass_gate s =
     (let name = command_name request; args = tl request in
      if \<not> arity_ok c (length args) then (s, Some (RError_frame (arity (lower name))))
      else if \<not> bypass_gate \<and> is_subscribed session s \<and> name \<notin> set ALLOWED_WHILE_SUBSCRIBED
      then (s, Some (gate_error request))
      else if is_subscribed session s \<and> name = ''PING'' then
        (s, Some (if length args > 1 then RError_frame (arity ''ping'')
           else protocolBuilder (RList [RBytes ''pong'', RBytes (if args = [] then [] else hd args)])))
      else
        case c of
          Pubsub n f \<Rightarrow> call_pubsub f session ev args s
        | Decorated h \<Rightarrow> call_decorated h ev args s)"

definition dispatch_direct ::
  "(bytes \<times> 'bm command) list \<Rightarrow> env \<Rightarrow> bytes list \<Rightarrow> sid option \<Rightarrow> bool \<Rightarrow> 'bm server
    \<Rightarrow> 'bm server \<times> bytes option" where
  "dispatch_direct table ev request state bypass_gate s =
     (let name = command_name request;
          session = (case state of None \<Rightarrow> cur_session s | Some sid \<Rightarrow> Some sid) in
      if \<not> bypass_gate \<and> is_subscribed session s \<and> name \<in> {''MULTI'', ''DISCARD''}
      then (s, Some (gate_error request))
      else if name = ''MULTI'' then
        (case state of
           None \<Rightarrow> (s, Some (RError_frame (err ''MULTI requires a per-connection session'')))
         | Some sid \<Rightarrow>
             (upd_session sid (\<lambda>ss. ss\<lparr>in_multi := True, queue := []\<rparr>) s, Some (protocolBuilder (RResponse OK))))
      else if name = ''EXEC'' then
        (s, Some (RError_frame
          (if is_subscribed session s
           then Error ''EXECABORT'' (''Transaction discarded because of: '' @ GATE_TEXT ''exec'')
           else err ''EXEC without MULTI'')))
      else if name = ''DISCARD'' then (s, Some (RError_frame (err ''DISCARD without MULTI'')))
      else
        case map_of table name of
          None \<Rightarrow> (s, Some (unknown_command_frame (hd request) (tl request)))
        | Some c \<Rightarrow> run_handler c ev request session bypass_gate s)"

section \<open>Transactions\<close>

text \<open>
  The replay of the queue.  While a command runs, the frames pushed to the session are collected: the
  first one stands in for the command's own reply, the others follow the array.
\<close>

fun replay ::
  "(bytes \<times> 'bm command) list \<Rightarrow> env \<Rightarrow> sid \<Rightarrow> sink option \<Rightarrow> bytes list list \<Rightarrow> 'bm server
    \<Rightarrow> 'bm server \<times> bytes option list \<times> bytes list" where
  "replay table ev sid previous [] s = (s, [], [])"
| "replay table ev sid previous (request # rest) s =
     (let s = upd_session sid (\<lambda>ss. ss\<lparr>sender := Some Collector, collected := []\<rparr>) s in
      case dispatch_direct table ev request (Some sid) True s of
        (s, frame) \<Rightarrow>
          let collector = collected (sessions s sid);
              s = upd_session sid (\<lambda>ss. ss\<lparr>sender := previous, collected := []\<rparr>) s
          in case replay table ev sid previous rest s of
               (s, parts, trailing) \<Rightarrow>
                 (s, (if collector = [] then frame else Some (hd collector)) # parts, drop 1 collector @ trailing))"

text \<open>\<^verbatim>\<open>b"".join(parts + trailing)\<close> raises an exception when a part is \<^verbatim>\<open>None\<close>.\<close>

definition exec_reply :: "nat \<Rightarrow> bytes option list \<Rightarrow> bytes list \<Rightarrow> bytes option" where
  "exec_reply n parts trailing =
     (if None \<in> set parts then None
      else Some (''*'' @ show_int (int n) @ SYM_CRLF @ concat (map the parts) @ concat trailing))"

definition watch_dirty :: "env \<Rightarrow> sid \<Rightarrow> 'bm server \<Rightarrow> bool" where
  "watch_dirty ev sid s =
     list_ex (\<lambda>(key, generation, was_live).
         data_generation (data s) key \<noteq> generation \<or> data_is_live ev (data s) key \<noteq> was_live)
       (watched (sessions s sid))"

definition exec_queued :: "(bytes \<times> 'bm command) list \<Rightarrow> env \<Rightarrow> sid \<Rightarrow> 'bm server \<Rightarrow> ('bm server, exn, bytes option) result"
  where
  "exec_queued table ev sid s =
     (let queued = queue (sessions s sid);
          dirty = watch_dirty ev sid s;
          s = upd_session sid (\<lambda>ss. ss\<lparr>queue := [], in_multi := False, watched := []\<rparr>) s
      in if dirty then returns s (Some (protocolBuilder (RResponse NIL_ARRAY)))
         else if queued = [] then returns s (Some (protocolBuilder (RList [])))
         else
           case replay table ev sid (sender (sessions s sid)) queued s of
             (s, parts, trailing) \<Rightarrow>
               (case exec_reply (length queued) parts trailing of
                  None \<Rightarrow> raises s Crashed
                | Some frame \<Rightarrow> returns s (Some frame)))"

definition dispatch_queued ::
  "(bytes \<times> 'bm command) list \<Rightarrow> env \<Rightarrow> bytes list \<Rightarrow> sid \<Rightarrow> 'bm server \<Rightarrow> ('bm server, exn, bytes option) result"
  where
  "dispatch_queued table ev request sid s =
     (let name = command_name request; args = tl request in
      if name = ''EXEC'' then exec_queued table ev sid s
      else if name = ''DISCARD'' then
        returns (upd_session sid (\<lambda>ss. ss\<lparr>queue := [], in_multi := False, watched := []\<rparr>) s)
          (Some (protocolBuilder (RResponse OK)))
      else if name = ''MULTI'' then returns s (Some (RError_frame (err ''MULTI calls can not be nested'')))
      else if name = ''WATCH'' then returns s (Some (RError_frame (err ''WATCH inside MULTI is not allowed'')))
      else
        case map_of table name of
          None \<Rightarrow> returns s (Some (unknown_command_frame (hd request) args))
        | Some c \<Rightarrow>
            if \<not> arity_ok c (length args) then returns s (Some (RError_frame (arity (lower name))))
            else
              returns (upd_session sid (\<lambda>ss. ss\<lparr>queue := queue ss @ [request]\<rparr>) s)
                (Some (protocolBuilder (RResponse QUEUED))))"

definition dispatch ::
  "(bytes \<times> 'bm command) list \<Rightarrow> env \<Rightarrow> bytes list \<Rightarrow> sid option \<Rightarrow> 'bm server
    \<Rightarrow> ('bm server, exn, bytes option) result" where
  "dispatch table ev request state s =
     (if request = [] then returns s None
      else case state of
        Some sid \<Rightarrow>
          if in_multi (sessions s sid) then dispatch_queued table ev request sid s
          else (case dispatch_direct table ev request state False s of (s, frame) \<Rightarrow> returns s frame)
      | None \<Rightarrow> (case dispatch_direct table ev request state False s of (s, frame) \<Rightarrow> returns s frame))"

section \<open>What the dispatcher relies on\<close>

text \<open>
  A queued request is one that the dispatcher accepted.  Between two requests, the server satisfies
  \<open>system_ok\<close>: a well-formed store, a hub that agrees with the sessions, no session bound, and for every
  session an empty queue outside a transaction, a queue of accepted requests inside.
\<close>

definition queueable :: "(bytes \<times> 'bm command) list \<Rightarrow> bytes list \<Rightarrow> bool" where
  "queueable table request \<longleftrightarrow> request \<noteq> [] \<and> command_name request \<notin> {''MULTI'', ''EXEC'', ''DISCARD''}
     \<and> (case map_of table (command_name request) of None \<Rightarrow> False | Some c \<Rightarrow> arity_ok c (length (tl request)))"

definition session_ok :: "(bytes \<times> 'bm command) list \<Rightarrow> session \<Rightarrow> bool" where
  "session_ok table ss \<longleftrightarrow> sender ss \<noteq> Some Collector \<and> collected ss = []
     \<and> list_all (queueable table) (queue ss) \<and> (\<not> in_multi ss \<longrightarrow> queue ss = [])"

definition system_ok :: "(bytes \<times> 'bm command) list \<Rightarrow> 'bm server \<Rightarrow> bool" where
  "system_ok table s \<longleftrightarrow> store_ok (data s) \<and> hub_ok s \<and> cur_session s = None
     \<and> (\<forall>sid. session_ok table (sessions s sid))"

lemma system_ok_keeps: "keeps s s' \<Longrightarrow> system_ok table s \<Longrightarrow> system_ok table s'"
  by (simp add: keeps_def system_ok_def session_ok_def)

lemma hub_ok_cur_session [simp]: "hub_ok (s\<lparr>cur_session := x\<rparr>) = hub_ok s"
  by (simp add: hub_ok_def)

lemma keeps_cur_session: "keeps (s\<lparr>cur_session := x\<rparr>) s' \<Longrightarrow> keeps s (s'\<lparr>cur_session := cur_session s\<rparr>)"
  by (simp add: keeps_def)

text \<open>What is left unchanged when one command of a transaction is replayed.\<close>

definition calm :: "'bm server \<Rightarrow> 'bm server \<Rightarrow> bool" where
  "calm s s' \<longleftrightarrow> cur_session s' = cur_session s
     \<and> (\<forall>sid. in_multi (sessions s' sid) = in_multi (sessions s sid)
         \<and> queue (sessions s' sid) = queue (sessions s sid)
         \<and> sender (sessions s' sid) = sender (sessions s sid)
         \<and> (sender (sessions s sid) \<noteq> Some Collector \<longrightarrow> collected (sessions s sid) = [] \<longrightarrow>
              collected (sessions s' sid) = [])
         \<and> prefix (sent (sessions s sid)) (sent (sessions s' sid)))
     \<and> (store_ok (data s) \<longrightarrow> store_ok (data s')) \<and> (hub_ok s \<longrightarrow> hub_ok s')"

lemma calm_refl [simp]: "calm s s"
  by (simp add: calm_def)

lemma calm_trans: "calm s s' \<Longrightarrow> calm s' s'' \<Longrightarrow> calm s s''"
  unfolding calm_def by (auto intro: prefix_order.trans)

lemma system_ok_calm: "calm s s' \<Longrightarrow> system_ok table s \<Longrightarrow> system_ok table s'"
  by (simp add: calm_def system_ok_def session_ok_def)

text \<open>No request redirects the frames of a connection or takes a written one back.\<close>

definition lasting :: "'bm server \<Rightarrow> 'bm server \<Rightarrow> bool" where
  "lasting s s' \<longleftrightarrow> (\<forall>x. sender (sessions s' x) = sender (sessions s x)
     \<and> prefix (sent (sessions s x)) (sent (sessions s' x)))"

lemma lasting_refl: "lasting s s"
  by (simp add: lasting_def)

lemma lasting_upd: "(\<And>ss. sender (f ss) = sender ss \<and> sent (f ss) = sent ss) \<Longrightarrow> lasting s (upd_session sid f s)"
  by (simp add: lasting_def upd_session_def)

lemma lasting_trans: "lasting s s' \<Longrightarrow> lasting s' s'' \<Longrightarrow> lasting s s''"
  unfolding lasting_def by (auto intro: prefix_order.trans)

lemma lasting_calm: "calm s s' \<Longrightarrow> lasting s s'"
  by (simp add: lasting_def calm_def)

text \<open>
  A handler under the decorator is safe and a handler of a session keeps the invariants; a handler that
  returns nothing has pushed a frame to the session.
\<close>

locale command_set =
  fixes table :: "(bytes \<times> 'bm command) list"
  assumes decorated_safe:
      "map_of table name = Some (Decorated h) \<Longrightarrow> env_ok ev \<Longrightarrow> safe s (fst (body h ev xs s))"
    and pubsub_keeps: "map_of table name = Some (Pubsub n f) \<Longrightarrow> keeps s (fst (f ev args s))"
    and pubsub_pushes:
      "map_of table name = Some (Pubsub n f) \<Longrightarrow> n \<le> length args \<Longrightarrow> cur_session s = Some sid \<Longrightarrow>
        snd (f ev args s) = Inr None \<Longrightarrow>
        length (received (sessions s sid)) < length (received (sessions (fst (f ev args s)) sid))"
begin

lemma inner_safe:
  "map_of table name = Some (Decorated h) \<Longrightarrow> env_ok ev \<Longrightarrow> safe s (fst (inner h ev args s))"
  by (auto simp: inner_def intro!: safe_bind decorated_safe)

lemma call_decorated_safe:
  "map_of table name = Some (Decorated h) \<Longrightarrow> env_ok ev \<Longrightarrow> safe s (fst (call_decorated h ev args s))"
  using inner_safe [of name h ev s args] by (auto simp: call_decorated_def split: prod.splits sum.splits)

lemma call_pubsub_keeps:
  assumes "map_of table name = Some (Pubsub n f)"
  shows "keeps s (fst (call_pubsub f session ev args s))"
  using keeps_cur_session [where s = s and x = session and s' = "fst (f ev args (s\<lparr>cur_session := session\<rparr>))"] pubsub_keeps [OF assms]
  by (simp add: call_pubsub_def Let_def split: prod.splits) (metis fst_conv)

lemma run_handler_keeps:
  assumes "env_ok ev" "map_of table name = Some c"
  shows "keeps s (fst (run_handler c ev request session bypass s))"
proof -
  have "keeps s (fst (case c of Pubsub n f \<Rightarrow> call_pubsub f session ev args s
      | Decorated h \<Rightarrow> call_decorated h ev args s))" for args
    using assms by (auto intro: safe_keeps call_decorated_safe call_pubsub_keeps split: command.splits)
  then show ?thesis unfolding run_handler_def Let_def by simp
qed

lemma direct_keeps:
  assumes "env_ok ev" "command_name request \<noteq> ''MULTI''"
  shows "keeps s (fst (dispatch_direct table ev request state bypass s))"
  unfolding dispatch_direct_def Let_def using assms(2) run_handler_keeps [OF assms(1)]
  by (simp split: option.split)

lemma multi_system_ok:
  assumes "system_ok table s"
  shows "system_ok table (upd_session sid (\<lambda>ss. ss\<lparr>in_multi := True, queue := []\<rparr>) s)"
  using assms hub_ok_standing [of s "upd_session sid (\<lambda>ss. ss\<lparr>in_multi := True, queue := []\<rparr>) s"]
  by (simp add: system_ok_def session_ok_def upd_session_def)

lemma direct_system_ok:
  assumes "env_ok ev" "system_ok table s"
  shows "system_ok table (fst (dispatch_direct table ev request (Some sid) bypass s))"
proof (cases "command_name request = ''MULTI''")
  case True
  then show ?thesis
    using multi_system_ok [OF assms(2)] assms(2)
    by (simp add: dispatch_direct_def Let_def)
next
  case False
  then show ?thesis by (intro system_ok_keeps [OF direct_keeps] assms)
qed

text \<open>A request is answered by a frame or by a push.\<close>

lemma run_answers:
  assumes c: "map_of table (command_name request) = Some c"
    and None: "snd (run_handler c ev request (Some sid) bypass s) = None"
  shows "length (received (sessions s sid)) <
    length (received (sessions (fst (run_handler c ev request (Some sid) bypass s)) sid))"
proof -
  have arity: "arity_ok c (length (tl request))"
    using None by (auto simp: run_handler_def Let_def split: if_splits)
  have d: "run_handler c ev request (Some sid) bypass s =
      (case c of Pubsub n f \<Rightarrow> call_pubsub f (Some sid) ev (tl request) s
        | Decorated h \<Rightarrow> call_decorated h ev (tl request) s)"
    using None unfolding run_handler_def Let_def by (auto split: if_splits)
  show ?thesis
  proof (cases c)
    case (Decorated h)
    then show ?thesis using None unfolding d
      by (auto simp: call_decorated_def split: if_splits prod.splits sum.splits)
  next
    case (Pubsub n f)
    let ?r = "f ev (tl request) (s\<lparr>cur_session := Some sid\<rparr>)"
    have "snd ?r = Inr None"
      using None Pubsub unfolding d
      by (auto simp: call_pubsub_def Let_def split: if_splits prod.splits sum.splits option.splits)
    then have "length (received (sessions s sid)) < length (received (sessions (fst ?r) sid))"
      using pubsub_pushes [of "command_name request" n f "tl request" "s\<lparr>cur_session := Some sid\<rparr>" sid ev] c Pubsub arity
      by (simp add: arity_ok_def)
    then show ?thesis
      using None Pubsub unfolding d by (auto simp: call_pubsub_def Let_def split: if_splits prod.splits)
  qed
qed

lemma direct_answers:
  assumes "snd (dispatch_direct table ev request (Some sid) bypass s) = None"
  shows "length (received (sessions s sid)) <
    length (received (sessions (fst (dispatch_direct table ev request (Some sid) bypass s)) sid))"
proof -
  obtain c where c: "map_of table (command_name request) = Some c"
    "dispatch_direct table ev request (Some sid) bypass s = run_handler c ev request (Some sid) bypass s"
    using assms unfolding dispatch_direct_def Let_def by (simp split: if_splits option.splits)
  then show ?thesis using run_answers [OF c(1)] assms by simp
qed

text \<open>Changing only where frames go, and what a session holds of its transaction.\<close>

lemma hub_ok_redirect:
  assumes "hub_ok s" "sender (sessions s sid) \<noteq> None \<or> snk = None"
    and "\<And>ss. channels (f ss) = channels ss \<and> patterns (f ss) = patterns ss \<and> sender (f ss) = snk"
  shows "hub_ok (upd_session sid f s)"
  using assms by (auto simp: hub_ok_def table_ok_def upd_session_def)

lemma replay_step:
  assumes "env_ok ev" "queueable table request" "sender (sessions s sid) = Some previous"
  defines "s1 \<equiv> upd_session sid (\<lambda>ss. ss\<lparr>sender := Some Collector, collected := []\<rparr>) s"
  defines "s2 \<equiv> fst (dispatch_direct table ev request (Some sid) True s1)"
  shows "calm s (upd_session sid (\<lambda>ss. ss\<lparr>sender := Some previous, collected := []\<rparr>) s2)"
    and "collected (sessions s2 sid) = [] \<Longrightarrow> snd (dispatch_direct table ev request (Some sid) True s1) \<noteq> None"
proof -
  have k: "keeps s1 s2" unfolding s2_def
    by (rule direct_keeps [OF assms(1)]) (use assms(2) in \<open>simp add: queueable_def\<close>)
  have c: "sender (sessions s1 sid) = Some Collector" "sender (sessions s2 sid) = Some Collector"
    using k by (simp_all add: keeps_def s1_def upd_session_def)
  have "hub_ok s1" if "hub_ok s" unfolding s1_def
    by (rule hub_ok_redirect [where snk = "Some Collector"]) (simp_all add: that assms(3))
  moreover have "hub_ok (upd_session sid (\<lambda>ss. ss\<lparr>sender := Some previous, collected := []\<rparr>) s2)" if "hub_ok s2"
    by (rule hub_ok_redirect [where snk = "Some previous"]) (simp_all add: that c)
  ultimately show "calm s (upd_session sid (\<lambda>ss. ss\<lparr>sender := Some previous, collected := []\<rparr>) s2)"
    using k assms(3) by (auto simp: calm_def keeps_def s1_def upd_session_def split: if_splits)
  show "snd (dispatch_direct table ev request (Some sid) True s1) \<noteq> None" if "collected (sessions s2 sid) = []"
  proof
    assume "snd (dispatch_direct table ev request (Some sid) True s1) = None"
    from direct_answers [OF this] have "length (received (sessions s1 sid)) < length (received (sessions s2 sid))"
      by (simp add: s2_def)
    then show False using c that by (simp add: received_def s1_def upd_session_def)
  qed
qed

lemma replay_calm:
  assumes "env_ok ev" "list_all (queueable table) requests" "sender (sessions s sid) = Some previous"
  shows "calm s (fst (replay table ev sid (Some previous) requests s))
    \<and> length (fst (snd (replay table ev sid (Some previous) requests s))) = length requests
    \<and> None \<notin> set (fst (snd (replay table ev sid (Some previous) requests s)))"
  using assms(2,3)
proof (induction requests arbitrary: s)
  case (Cons request rest)
  let ?s1 = "upd_session sid (\<lambda>ss. ss\<lparr>sender := Some Collector, collected := []\<rparr>) s"
  let ?s2 = "fst (dispatch_direct table ev request (Some sid) True ?s1)"
  let ?s3 = "upd_session sid (\<lambda>ss. ss\<lparr>sender := Some previous, collected := []\<rparr>) ?s2"
  have q: "queueable table request" using Cons.prems by simp
  note step = replay_step [OF assms(1) q Cons.prems(2)]
  have r: "replay table ev sid (Some previous) (request # rest) s =
     (case replay table ev sid (Some previous) rest ?s3 of (s', parts, trailing) \<Rightarrow>
        (s', (if collected (sessions ?s2 sid) = [] then snd (dispatch_direct table ev request (Some sid) True ?s1)
              else Some (hd (collected (sessions ?s2 sid)))) # parts, drop 1 (collected (sessions ?s2 sid)) @ trailing))"
    by (simp add: Let_def case_prod_unfold)
  have "sender (sessions ?s3 sid) = Some previous" by (simp add: upd_session_def)
  then have IH: "calm ?s3 (fst (replay table ev sid (Some previous) rest ?s3))
    \<and> length (fst (snd (replay table ev sid (Some previous) rest ?s3))) = length rest
    \<and> None \<notin> set (fst (snd (replay table ev sid (Some previous) rest ?s3)))"
    using Cons.IH [of ?s3] Cons.prems(1) by simp
  show ?case unfolding r using IH calm_trans [OF step(1)] step(2) by (auto simp: case_prod_unfold)
qed simp

text \<open>The transaction is closed before the replay.\<close>

lemma close_system_ok:
  assumes "system_ok table s"
  shows "system_ok table (upd_session sid (\<lambda>ss. ss\<lparr>queue := [], in_multi := False, watched := []\<rparr>) s)"
  using assms hub_ok_standing [of s "upd_session sid (\<lambda>ss. ss\<lparr>queue := [], in_multi := False, watched := []\<rparr>) s"]
  by (simp add: system_ok_def session_ok_def upd_session_def)

lemma exec_queued_eq:
  assumes "env_ok ev" "system_ok table s" "sender (sessions s sid) = Some previous"
  defines "s1 \<equiv> upd_session sid (\<lambda>ss. ss\<lparr>queue := [], in_multi := False, watched := []\<rparr>) s"
  shows "exec_queued table ev sid s =
    (if watch_dirty ev sid s then returns s1 (Some (protocolBuilder (RResponse NIL_ARRAY)))
     else case replay table ev sid (Some previous) (queue (sessions s sid)) s1 of
       (s2, parts, trailing) \<Rightarrow>
         returns s2 (Some (''*'' @ show_int (int (length parts)) @ SYM_CRLF @ concat (map the parts) @ concat trailing)))"
    and "calm s1 (fst (replay table ev sid (Some previous) (queue (sessions s sid)) s1))
      \<and> length (fst (snd (replay table ev sid (Some previous) (queue (sessions s sid)) s1))) = length (queue (sessions s sid))"
proof -
  have q: "list_all (queueable table) (queue (sessions s sid))"
    using assms(2) by (simp add: system_ok_def session_ok_def)
  have "sender (sessions s1 sid) = Some previous" using assms(3) by (simp add: s1_def upd_session_def)
  note r = replay_calm [OF assms(1) q this]
  show "calm s1 (fst (replay table ev sid (Some previous) (queue (sessions s sid)) s1))
      \<and> length (fst (snd (replay table ev sid (Some previous) (queue (sessions s sid)) s1))) = length (queue (sessions s sid))"
    using r by blast
  have e: "protocolBuilder (RList []) = ''*'' @ show_int 0 @ SYM_CRLF" by (simp add: protocolBuilder_def show_int_def)
  have snd: "sender (sessions s1 sid) = Some previous" using assms(3) by (simp add: s1_def upd_session_def)
  show "exec_queued table ev sid s =
    (if watch_dirty ev sid s then returns s1 (Some (protocolBuilder (RResponse NIL_ARRAY)))
     else case replay table ev sid (Some previous) (queue (sessions s sid)) s1 of
       (s2, parts, trailing) \<Rightarrow>
         returns s2 (Some (''*'' @ show_int (int (length parts)) @ SYM_CRLF @ concat (map the parts) @ concat trailing)))"
    unfolding exec_queued_def Let_def s1_def [symmetric] snd
    using r by (auto simp: e exec_reply_def case_prod_unfold)
qed

lemma exec_system_ok:
  assumes "env_ok ev" "system_ok table s" "sender (sessions s sid) = Some previous"
  shows "system_ok table (fst (exec_queued table ev sid s)) \<and> (\<exists>frame. snd (exec_queued table ev sid s) = Inr (Some frame))"
  unfolding exec_queued_eq(1) [OF assms]
  using system_ok_calm [OF conjunct1 [OF exec_queued_eq(2) [OF assms]] close_system_ok [OF assms(2)]]
    close_system_ok [OF assms(2), of sid]
  by (auto simp: case_prod_unfold returns_def)

lemma enqueue_system_ok:
  assumes "system_ok table s" "queueable table request" "in_multi (sessions s sid)"
  shows "system_ok table (upd_session sid (\<lambda>ss. ss\<lparr>queue := queue ss @ [request]\<rparr>) s)"
  using assms hub_ok_standing [of s "upd_session sid (\<lambda>ss. ss\<lparr>queue := queue ss @ [request]\<rparr>) s"]
  by (simp add: system_ok_def session_ok_def upd_session_def)

lemma queued_system_ok:
  assumes "env_ok ev" "system_ok table s" "sender (sessions s sid) = Some previous"
    and "request \<noteq> []" "in_multi (sessions s sid)"
  shows "system_ok table (fst (dispatch_queued table ev request sid s))
    \<and> (\<exists>frame. snd (dispatch_queued table ev request sid s) = Inr (Some frame))"
proof (cases "command_name request \<in> {''EXEC'', ''DISCARD'', ''MULTI'', ''WATCH''}")
  case True
  then show ?thesis
    using exec_system_ok [OF assms(1-3)] close_system_ok [OF assms(2), of sid] assms(2)
    by (auto simp: dispatch_queued_def Let_def)
next
  case False
  then have "dispatch_queued table ev request sid s =
      (case map_of table (command_name request) of
          None \<Rightarrow> returns s (Some (unknown_command_frame (hd request) (tl request)))
        | Some c \<Rightarrow>
            if \<not> arity_ok c (length (tl request)) then returns s (Some (RError_frame (arity (lower (command_name request)))))
            else returns (upd_session sid (\<lambda>ss. ss\<lparr>queue := queue ss @ [request]\<rparr>) s)
                (Some (protocolBuilder (RResponse QUEUED))))"
    by (simp add: dispatch_queued_def Let_def)
  moreover have "queueable table request" if "map_of table (command_name request) = Some c" "arity_ok c (length (tl request))"
    for c using that False assms(4) by (simp add: queueable_def)
  ultimately show ?thesis
    using assms(2) enqueue_system_ok [OF assms(2) _ assms(5)] by (auto split: option.splits)
qed

text \<open>Every request of a connection is handled, without an exception, and the invariant holds afterwards.\<close>

lemma dispatch_system_ok:
  assumes "env_ok ev" "system_ok table s" "sender (sessions s sid) \<noteq> None"
  shows "system_ok table (fst (dispatch table ev request (Some sid) s))
    \<and> (\<exists>frame. snd (dispatch table ev request (Some sid) s) = Inr frame)"
proof -
  obtain previous where p: "sender (sessions s sid) = Some previous" using assms(3) by auto
  show ?thesis
    using queued_system_ok [OF assms(1,2) p, of request] direct_system_ok [OF assms(1,2), of request sid False] assms(2)
    by (auto simp: dispatch_def case_prod_unfold)
qed

text \<open>No request goes unanswered.\<close>

lemma dispatch_answers:
  assumes "env_ok ev" "system_ok table s" "sender (sessions s sid) \<noteq> None" "request \<noteq> []"
    and "dispatch table ev request (Some sid) s = returns s' None"
  shows "length (received (sessions s sid)) < length (received (sessions s' sid))"
proof -
  obtain previous where p: "sender (sessions s sid) = Some previous" using assms(3) by auto
  have "\<not> in_multi (sessions s sid)"
    using queued_system_ok [OF assms(1,2) p assms(4)] assms(4,5) by (auto simp: dispatch_def returns_def)
  then show ?thesis
    using direct_answers [of ev request sid False s] assms(4,5) by (auto simp: dispatch_def returns_def split: prod.splits)
qed

lemma lasting_direct:
  assumes "env_ok ev"
  shows "lasting s (fst (dispatch_direct table ev request (Some sid) bypass s))"
proof (cases "command_name request = ''MULTI''")
  case True
  then show ?thesis by (simp add: lasting_def dispatch_direct_def Let_def upd_session_def)
next
  case False
  then show ?thesis using direct_keeps [OF assms False, of s "Some sid" bypass] by (simp add: lasting_def keeps_def)
qed

lemma lasting_exec:
  assumes "env_ok ev" "system_ok table s" "sender (sessions s sid) = Some previous"
  shows "lasting s (fst (exec_queued table ev sid s))"
proof -
  let ?s1 = "upd_session sid (\<lambda>ss. ss\<lparr>queue := [], in_multi := False, watched := []\<rparr>) s"
  have 1: "lasting s ?s1" by (simp add: lasting_upd)
  moreover have "lasting s (fst (replay table ev sid (Some previous) (queue (sessions s sid)) ?s1))"
    by (rule lasting_trans [OF 1 lasting_calm [OF conjunct1 [OF exec_queued_eq(2) [OF assms]]]])
  ultimately show ?thesis unfolding exec_queued_eq(1) [OF assms]
    by (simp add: case_prod_unfold returns_def)
qed

lemma lasting_queued:
  assumes "env_ok ev" "system_ok table s" "sender (sessions s sid) = Some previous"
  shows "lasting s (fst (dispatch_queued table ev request sid s))"
  unfolding dispatch_queued_def Let_def
  by (simp add: lasting_exec [OF assms] lasting_refl lasting_upd split: option.split)

lemma lasting_dispatch:
  assumes "env_ok ev" "system_ok table s" "sender (sessions s sid) = Some previous"
  shows "lasting s (fst (dispatch table ev request (Some sid) s))"
  using lasting_queued [OF assms] lasting_direct [OF assms(1)]
  by (simp add: dispatch_def case_prod_unfold lasting_refl)

end

end
