(* ===== verification/Lcs.thy ===== *)
theory Lcs
  imports StringCmds "HOL-Library.Sublist"
begin

text \<open>
  The command \<^verbatim>\<open>LCS\<close> of \<open>commands/basic.py\<close>: the dynamic program with its direction matrix,
  the walk back along one optimal path that collects the matches, and the walk over the rightmost
  occurrences that makes the index reply.  The specification is the longest common subsequence.
\<close>

section \<open>The dynamic program\<close>

text \<open>
  One row: \<open>diag\<close> and \<open>up\<close> are the cells of the previous row at and after the column before, \<open>left\<close>
  the cell just computed.  The result is the rest of the row and its directions (1 diagonal, 2 up,
  3 left).
\<close>

fun lcs_cell :: "bool \<Rightarrow> bool \<Rightarrow> nat \<Rightarrow> nat \<Rightarrow> nat \<Rightarrow> nat \<times> nat" where
  "lcs_cell prefer_up same diag up left =
     (if same then (diag + 1, 1)
      else if up > left \<or> prefer_up \<and> up = left then (up, 2)
      else (left, 3))"

fun lcs_row :: "bool \<Rightarrow> char \<Rightarrow> bytes \<Rightarrow> nat list \<Rightarrow> nat \<Rightarrow> nat list \<times> nat list" where
  "lcs_row prefer_up ai (bj # b) (diag # up # prev) left =
     (case lcs_cell prefer_up (ai = bj) diag up left of
        (v, d) \<Rightarrow>
          (case lcs_row prefer_up ai b (up # prev) v of (vs, ds) \<Rightarrow> (v # vs, d # ds)))"
| "lcs_row prefer_up ai b prev left = ([], [])"

text \<open>All rows: the last row of lengths, and the direction rows (the first row has none).\<close>

fun lcs_rows :: "bool \<Rightarrow> bytes \<Rightarrow> bytes \<Rightarrow> nat list \<Rightarrow> nat list list \<Rightarrow> nat list \<times> nat list list" where
  "lcs_rows prefer_up [] b prev dirs = (prev, dirs)"
| "lcs_rows prefer_up (ai # a) b prev dirs =
     (case lcs_row prefer_up ai b prev 0 of
        (vs, ds) \<Rightarrow> lcs_rows prefer_up a b (0 # vs) (dirs @ [0 # ds]))"

section \<open>Walking back\<close>

type_synonym lcs_match = "nat \<times> nat \<times> nat \<times> nat"

definition run_match :: "nat \<times> nat \<times> nat \<Rightarrow> lcs_match" where
  "run_match run = (case run of (a_hi, b_hi, cells) \<Rightarrow> (a_hi + 1 - cells, a_hi, b_hi + 1 - cells, b_hi))"

definition close_run :: "(nat \<times> nat \<times> nat) option \<Rightarrow> lcs_match list \<Rightarrow> lcs_match list" where
  "close_run run matches = (case run of None \<Rightarrow> matches | Some r \<Rightarrow> matches @ [run_match r])"

definition extend_run :: "(nat \<times> nat \<times> nat) option \<Rightarrow> nat \<Rightarrow> nat \<Rightarrow> nat \<times> nat \<times> nat" where
  "extend_run run i j =
     (case run of None \<Rightarrow> (i, j, 1) | Some (a_hi, b_hi, cells) \<Rightarrow> (a_hi, b_hi, cells + 1))"

function lcs_back ::
  "nat list list \<Rightarrow> nat \<Rightarrow> nat \<Rightarrow> lcs_match list \<Rightarrow> (nat \<times> nat \<times> nat) option \<Rightarrow> lcs_match list" where
  "lcs_back dirs i j matches run =
     (if 0 < i \<and> 0 < j then
        let d = dirs ! i ! j in
        if d = 1 then
          lcs_back dirs (i - 1) (j - 1) matches (Some (extend_run run (i - 1) (j - 1)))
        else
          let matches = close_run run matches in
          if d = 2 then lcs_back dirs (i - 1) j matches None
          else lcs_back dirs i (j - 1) matches None
      else close_run run matches)"
  by pat_completeness auto
termination
  by (relation "measure (\<lambda>(dirs, i, j, matches, run). i + j)") auto

declare lcs_back.simps [simp del]

definition lcs_runs :: "bytes \<Rightarrow> bytes \<Rightarrow> bool \<Rightarrow> nat \<times> lcs_match list" where
  "lcs_runs a b prefer_up =
     (let n = length a; m = length b in
      if n = 0 \<or> m = 0 then (0, [])
      else case lcs_rows prefer_up a b (replicate (m + 1) 0) [[]] of
        (prev, dirs) \<Rightarrow> (prev ! m, lcs_back dirs n m [] None))"

definition lcs_text :: "bytes \<Rightarrow> lcs_match list \<Rightarrow> bytes" where
  "lcs_text a matches = concat (map (\<lambda>(a1, a2, b1, b2). slice a1 (a2 + 1) a) (rev matches))"

section \<open>The index walk\<close>

function lcs_seek :: "bytes \<Rightarrow> char \<Rightarrow> int \<Rightarrow> int" where
  "lcs_seek a c i = (if 0 \<le> i \<and> a ! nat i \<noteq> c then lcs_seek a c (i - 1) else i)"
  by pat_completeness auto
termination
  by (relation "measure (\<lambda>(a, c, i). nat (i + 1))") auto

declare lcs_seek.simps [simp del]

definition idx_match :: "int \<Rightarrow> bool \<Rightarrow> int \<times> int \<times> int \<Rightarrow> reply list" where
  "idx_match min_match_len with_match_len run =
     (case run of (a_lo, b_lo, cells) \<Rightarrow>
        if cells \<ge> min_match_len then
          [RList ([RList [RInt a_lo, RInt (a_lo + cells - 1)], RList [RInt b_lo, RInt (b_lo + cells - 1)]]
             @ (if with_match_len then [RInt cells] else []))]
        else [])"

function idx_loop ::
  "bytes \<Rightarrow> bytes \<Rightarrow> bytes \<Rightarrow> int \<Rightarrow> int \<Rightarrow> int \<Rightarrow> (int \<times> int \<times> int) option \<Rightarrow> (int \<times> int \<times> int) list
    \<Rightarrow> (int \<times> int \<times> int) list" where
  "idx_loop a b lcs i j k run acc =
     (if 0 \<le> k then
        let c = lcs ! nat k; i = lcs_seek a c i; j = lcs_seek b c j in
        case run of
          Some (p, q, cells) \<Rightarrow>
            if i = p - 1 \<and> j = q - 1 then
              idx_loop a b lcs (i - 1) (j - 1) (k - 1) (Some (p - 1, q - 1, cells + 1)) acc
            else idx_loop a b lcs (i - 1) (j - 1) (k - 1) (Some (i, j, 1)) (acc @ [(p, q, cells)])
        | None \<Rightarrow> idx_loop a b lcs (i - 1) (j - 1) (k - 1) (Some (i, j, 1)) acc
      else (case run of None \<Rightarrow> acc | Some r \<Rightarrow> acc @ [r]))"
  by pat_completeness auto
termination
  by (relation "measure (\<lambda>(a, b, lcs, i, j, k, run, acc). nat (k + 1))") auto

declare idx_loop.simps [simp del]

definition idx_runs :: "bytes \<Rightarrow> bytes \<Rightarrow> bytes \<Rightarrow> (int \<times> int \<times> int) list" where
  "idx_runs a b lcs =
     idx_loop a b lcs (int (length a) - 1) (int (length b) - 1) (int (length lcs) - 1) None []"

section \<open>The command\<close>

record lcs_options =
  len_only :: bool
  idx :: bool
  min_match_len :: int
  with_match_len :: bool

function lcs_parse :: "bytes list \<Rightarrow> lcs_options \<Rightarrow> error + lcs_options" where
  "lcs_parse [] opts = Inr opts"
| "lcs_parse (option # rest) opts =
     (let opt = upper option in
      if opt = ''LEN'' then lcs_parse rest (opts\<lparr>len_only := True\<rparr>)
      else if opt = ''IDX'' then lcs_parse rest (opts\<lparr>idx := True\<rparr>)
      else if opt = ''MINMATCHLEN'' \<and> rest \<noteq> [] then
        (case string2ll (hd rest) of
           None \<Rightarrow> Inl NOT_INT
         | Some v \<Rightarrow> lcs_parse (tl rest) (opts\<lparr>min_match_len := (if v < 1 then 1 else v)\<rparr>))
      else if opt = ''WITHMATCHLEN'' then lcs_parse rest (opts\<lparr>with_match_len := True\<rparr>)
      else Inl SYNTAX)"
  by pat_completeness auto
termination
  by (relation "measure (\<lambda>(options, opts). length options)") auto

definition lcs_check_kind :: "env \<Rightarrow> bytes \<Rightarrow> 'bm server \<Rightarrow> ('bm server, exn, unit) result" where
  "lcs_check_kind ev key s =
     (case srv_get ev key s of
        (s, Some v) \<Rightarrow> if kind_of v \<noteq> KIND_STRING then raise_error s WRONGTYPE_STRING else returns s ()
      | (s, None) \<Rightarrow> returns s ())"

definition lcs_reply :: "lcs_options \<Rightarrow> bytes \<Rightarrow> bytes \<Rightarrow> reply" where
  "lcs_reply opts a b =
     (case lcs_runs a b False of (len, matches) \<Rightarrow>
        if len_only opts then RInt (int len)
        else if \<not> idx opts then RBytes (lcs_text a matches)
        else RList [RBytes ''matches'',
               RList (concat (map (idx_match (min_match_len opts) (with_match_len opts))
                 (idx_runs a b (lcs_text a matches)))),
               RBytes ''len'', RInt (int len)])"

definition LCS :: "env \<Rightarrow> bytes \<Rightarrow> bytes \<Rightarrow> bytes list \<Rightarrow> 'bm server \<Rightarrow> 'bm cmd_result" where
  "LCS ev key1 key2 options s =
     bindR (lcs_check_kind ev key1 s) (\<lambda>s _.
     bindR (lcs_check_kind ev key2 s) (\<lambda>s _.
     bindR (liftE s (lcs_parse options
        \<lparr>len_only = False, idx = False, min_match_len = 1, with_match_len = False\<rparr>)) (\<lambda>s opts.
       if len_only opts \<and> idx opts then
         raise_error s (err ''If you want both the length and indexes, please just use IDX.'')
       else
         bindR (get_string ev key1 s) (\<lambda>s val1.
         bindR (get_string ev key2 s) (\<lambda>s val2.
           returns s (lcs_reply opts (case val1 of None \<Rightarrow> [] | Some a \<Rightarrow> a)
             (case val2 of None \<Rightarrow> [] | Some b \<Rightarrow> b)))))))"

lemma safe_lcs_check: "safe s (fst (lcs_check_kind ev key s))"
  using safe_get [of s ev key] by (auto simp: lcs_check_kind_def split: prod.splits option.splits)

lemma safe_LCS: "safe s (fst (LCS ev key1 key2 options s))"
  by (auto simp: LCS_def intro!: safe_bind safe_lcs_check safe_get_string)

section \<open>The table is the longest common subsequence\<close>

fun lcs_ref :: "'a list \<Rightarrow> 'a list \<Rightarrow> nat" where
  "lcs_ref (x # xs) (y # ys) =
     (if x = y then Suc (lcs_ref xs ys) else max (lcs_ref xs (y # ys)) (lcs_ref (x # xs) ys))"
| "lcs_ref _ _ = 0"

lemma lcs_ref_upper: "subseq s xs \<Longrightarrow> subseq s ys \<Longrightarrow> length s \<le> lcs_ref xs ys"
proof (induction xs ys arbitrary: s rule: lcs_ref.induct)
  case (1 x xs y ys)
  show ?case
  proof (cases s)
    case (Cons z s')
    show ?thesis
    proof (cases "x = y")
      case True
      then have "length s' \<le> lcs_ref xs ys"
        using 1(1) [OF True, of s'] 1(4,5) Cons by (auto split: if_splits dest: subseq_Cons')
      then show ?thesis using True Cons by simp
    next
      case False
      have "subseq s xs \<or> subseq s ys" using 1(4,5) Cons False by (auto split: if_splits)
      then show ?thesis using 1(2,3) [OF False, of s] 1(4,5) False by auto
    qed
  qed simp
qed auto

definition lcs_tab :: "'a list \<Rightarrow> 'a list \<Rightarrow> nat \<Rightarrow> nat \<Rightarrow> nat" where
  "lcs_tab a b i j = lcs_ref (rev (take i a)) (rev (take j b))"

lemma lcs_tab_0 [simp]: "lcs_tab a b 0 j = 0" "lcs_tab a b i 0 = 0"
  by (simp_all add: lcs_tab_def)

lemma lcs_tab_Suc:
  "i < length a \<Longrightarrow> j < length b \<Longrightarrow> lcs_tab a b (Suc i) (Suc j) =
     (if a ! i = b ! j then Suc (lcs_tab a b i j) else max (lcs_tab a b i (Suc j)) (lcs_tab a b (Suc i) j))"
  by (simp add: lcs_tab_def take_Suc_conv_app_nth)

lemma subseq_rev: "subseq xs ys \<Longrightarrow> subseq (rev xs) (rev ys)"
proof (induction rule: list_emb.induct)
  case (list_emb_Cons2 x y xs ys)
  then show ?case by (simp add: list_emb_append_mono)
qed (auto intro: subseq_rev_drop_many)

lemma lcs_tab_upper:
  assumes "subseq s a" "subseq s b"
  shows "length s \<le> lcs_tab a b (length a) (length b)"
  using lcs_ref_upper [of "rev s" "rev a" "rev b"] assms
  by (simp add: lcs_tab_def subseq_rev)

definition lcs_dir :: "bool \<Rightarrow> bytes \<Rightarrow> bytes \<Rightarrow> nat \<Rightarrow> nat \<Rightarrow> nat" where
  "lcs_dir prefer_up a b i j = snd (lcs_cell prefer_up (a ! (i - 1) = b ! (j - 1))
     (lcs_tab a b (i - 1) (j - 1)) (lcs_tab a b (i - 1) j) (lcs_tab a b i (j - 1)))"

lemma lcs_row_eq:
  assumes "i < length a" "j \<le> length b"
  shows "lcs_row prefer_up (a ! i) (drop j b) (map (lcs_tab a b i) [j..<Suc (length b)]) (lcs_tab a b (Suc i) j)
    = (map (lcs_tab a b (Suc i)) [Suc j..<Suc (length b)], map (lcs_dir prefer_up a b (Suc i)) [Suc j..<Suc (length b)])"
  using assms(2)
proof (induction "length b - j" arbitrary: j)
  case (Suc n)
  then have j: "j < length b" by simp
  have "lcs_row prefer_up (a ! i) (drop (Suc j) b) (map (lcs_tab a b i) [Suc j..<Suc (length b)])
      (lcs_tab a b (Suc i) (Suc j))
    = (map (lcs_tab a b (Suc i)) [Suc (Suc j)..<Suc (length b)],
       map (lcs_dir prefer_up a b (Suc i)) [Suc (Suc j)..<Suc (length b)])"
    using Suc j by simp
  moreover have "lcs_cell prefer_up (a ! i = b ! j) (lcs_tab a b i j) (lcs_tab a b i (Suc j)) (lcs_tab a b (Suc i) j)
      = (lcs_tab a b (Suc i) (Suc j), lcs_dir prefer_up a b (Suc i) (Suc j))"
    using lcs_tab_Suc [OF assms(1) j] by (auto simp: lcs_dir_def)
  moreover have "[j..<Suc (length b)] = j # Suc j # [Suc (Suc j)..<Suc (length b)]"
    "[Suc j..<Suc (length b)] = Suc j # [Suc (Suc j)..<Suc (length b)]"
    using j by (simp_all add: upt_conv_Cons)
  moreover have "drop j b = b ! j # drop (Suc j) b" using j by (simp add: Cons_nth_drop_Suc)
  ultimately show ?case by (simp del: lcs_cell.simps upt_Suc)
qed simp

lemma lcs_rows_eq:
  assumes "i \<le> length a"
  shows "lcs_rows prefer_up (drop i a) b (map (lcs_tab a b i) [0..<Suc (length b)]) dirs
    = (map (lcs_tab a b (length a)) [0..<Suc (length b)],
       dirs @ map (\<lambda>i. 0 # map (lcs_dir prefer_up a b i) [1..<Suc (length b)]) [Suc i..<Suc (length a)])"
  using assms
proof (induction "length a - i" arbitrary: i dirs)
  case (Suc n)
  then have i: "i < length a" by simp
  have "drop i a = a ! i # drop (Suc i) a" using i by (simp add: Cons_nth_drop_Suc)
  moreover have "[Suc i..<Suc (length a)] = Suc i # [Suc (Suc i)..<Suc (length a)]"
    using i by (simp add: upt_conv_Cons)
  moreover have "0 # map (lcs_tab a b (Suc i)) [Suc 0..<Suc (length b)] =
      map (lcs_tab a b (Suc i)) [0..<Suc (length b)]"
    by (subst (2) upt_conv_Cons) simp_all
  moreover have "n = length a - Suc i" "Suc i \<le> length a" using Suc i by auto
  ultimately show ?case
    using lcs_row_eq [OF i, of 0 b prefer_up] Suc(1) [of "Suc i"] by (simp del: upt_Suc)
qed simp

section \<open>The walk back builds an optimal common subsequence\<close>

definition run_ok :: "bytes \<Rightarrow> (nat \<times> nat \<times> nat) option \<Rightarrow> nat \<Rightarrow> bool" where
  "run_ok a run i =
     (case run of None \<Rightarrow> True
      | Some (a_hi, b_hi, cells) \<Rightarrow> 0 < cells \<and> a_hi < length a \<and> i + cells = a_hi + 1)"

definition run_text :: "bytes \<Rightarrow> (nat \<times> nat \<times> nat) option \<Rightarrow> nat \<Rightarrow> bytes" where
  "run_text a run i = (case run of None \<Rightarrow> [] | Some (a_hi, b_hi, cells) \<Rightarrow> slice i (a_hi + 1) a)"

lemma close_run_text: "run_ok a run i \<Longrightarrow> lcs_text a (close_run run ms) = run_text a run i @ lcs_text a ms"
  by (auto simp: run_ok_def run_text_def close_run_def run_match_def lcs_text_def split: option.splits
      intro!: arg_cong [where f = "\<lambda>i. slice i _ a"])

lemma slice_Suc: "i < length a \<Longrightarrow> i < k \<Longrightarrow> slice i k a = a ! i # slice (Suc i) k a"
  by (simp add: slice_def Cons_nth_drop_Suc [symmetric])

lemma slice_empty: "slice i i a = []"
  by (simp add: slice_def)

lemma subseq_take_mono: "subseq x (take i a) \<Longrightarrow> subseq x (take (Suc i) a)"
  by (metis append_take_drop_id subseq_rev_drop_many take_Suc_conv_app_nth not_less_eq take_all le_SucI not_le)

lemma extend_run_ok:
  assumes "run_ok a run (Suc i)" "i < length a"
  shows "run_ok a (Some (extend_run run i j)) i"
    and "run_text a (Some (extend_run run i j)) i = a ! i # run_text a run (Suc i)"
  using assms slice_Suc [of i a]
  by (auto simp: run_ok_def run_text_def extend_run_def slice_empty split: option.splits)

lemma lcs_back_text:
  assumes "\<And>i j. 0 < i \<Longrightarrow> i \<le> length a \<Longrightarrow> 0 < j \<Longrightarrow> j \<le> length b \<Longrightarrow>
      dirs ! i ! j = lcs_dir prefer_up a b i j"
    and "i \<le> length a" "j \<le> length b" "run_ok a run i"
  shows "\<exists>x. lcs_text a (lcs_back dirs i j ms run) = x @ run_text a run i @ lcs_text a ms
    \<and> subseq x (take i a) \<and> subseq x (take j b) \<and> length x = lcs_tab a b i j"
  using assms
proof (induction dirs i j ms run rule: lcs_back.induct)
  case (1 dirs i j ms run)
  show ?case
  proof (cases "0 < i \<and> 0 < j")
    case False
    then show ?thesis
      using 1(7) by (intro exI [of _ "[]"]) (auto simp: lcs_back.simps close_run_text)
  next
    case True
    obtain i' j' where ij: "i = Suc i'" "j = Suc j'" using True by (metis gr0_conv_Suc)
    have lt: "i' < length a" "j' < length b" using 1(5,6) ij by auto
    note tab = lcs_tab_Suc [OF lt]
    have d: "dirs ! i ! j = lcs_dir prefer_up a b i j" using 1(4-6) True by simp
    consider (diag) "dirs ! i ! j = 1" "a ! i' = b ! j'"
      | (up) "dirs ! i ! j = 2" "lcs_tab a b i j = lcs_tab a b i' j"
      | (left) "dirs ! i ! j = 3" "lcs_tab a b i j = lcs_tab a b i j'"
      using d tab by (auto simp: ij lcs_dir_def split: if_splits)
    then show ?thesis
    proof cases
      case diag
      have step: "lcs_back dirs i j ms run = lcs_back dirs i' j' ms (Some (extend_run run i' j'))"
        using diag(1) by (subst lcs_back.simps) (simp add: ij)
      have "\<exists>x. lcs_text a (lcs_back dirs i' j' ms (Some (extend_run run i' j')))
          = x @ run_text a (Some (extend_run run i' j')) i' @ lcs_text a ms
        \<and> subseq x (take i' a) \<and> subseq x (take j' b) \<and> length x = lcs_tab a b i' j'"
        using 1(1) [OF True refl diag(1)] 1(4) 1(7) lt extend_run_ok(1) [of a run i' j']
        by (simp add: ij)
      then obtain x where x: "lcs_text a (lcs_back dirs i j ms run) = (x @ [a ! i']) @ run_text a run i @ lcs_text a ms"
        "subseq x (take i' a)" "subseq x (take j' b)" "length x = lcs_tab a b i' j'"
        using extend_run_ok(2) [of a run i' j'] 1(7) lt by (auto simp: step [unfolded ij] ij)
      have "subseq (x @ [a ! i']) (take i a)" "subseq (x @ [a ! i']) (take j b)"
        using x(2,3) diag(2) lt by (simp_all add: ij take_Suc_conv_app_nth list_emb_append_mono)
      moreover have "length (x @ [a ! i']) = lcs_tab a b i j" using x(4) tab diag(2) by (simp add: ij)
      ultimately show ?thesis using x(1) by blast
    next
      case up
      have step: "lcs_back dirs i j ms run = lcs_back dirs i' j (close_run run ms) None"
        using up(1) by (subst lcs_back.simps) (simp add: ij)
      have "\<exists>x. lcs_text a (lcs_back dirs i' j (close_run run ms) None)
          = x @ lcs_text a (close_run run ms)
        \<and> subseq x (take i' a) \<and> subseq x (take j b) \<and> length x = lcs_tab a b i' j"
        using 1(2) [OF True refl _ refl up(1)] 1(4,6) lt up(1) by (simp add: ij run_ok_def run_text_def)
      then show ?thesis
        using up(2) close_run_text [OF 1(7)] subseq_take_mono by (auto simp: step [unfolded ij] ij)
    next
      case left
      have step: "lcs_back dirs i j ms run = lcs_back dirs i j' (close_run run ms) None"
        using left(1) by (subst lcs_back.simps) (simp add: ij)
      have "\<exists>x. lcs_text a (lcs_back dirs i j' (close_run run ms) None)
          = x @ lcs_text a (close_run run ms)
        \<and> subseq x (take i a) \<and> subseq x (take j' b) \<and> length x = lcs_tab a b i j'"
        using 1(3) [OF True refl _ refl] 1(4,5) lt left(1) by (simp add: ij run_ok_def run_text_def)
      then show ?thesis
        using left(2) close_run_text [OF 1(7)] subseq_take_mono by (auto simp: step [unfolded ij] ij)
    qed
  qed
qed

lemma lcs_runs_spec:
  assumes "lcs_runs a b prefer_up = (len, ms)"
  shows "subseq (lcs_text a ms) a" "subseq (lcs_text a ms) b" "length (lcs_text a ms) = len"
    and "len = lcs_tab a b (length a) (length b)"
proof -
  have "subseq (lcs_text a ms) a \<and> subseq (lcs_text a ms) b \<and> length (lcs_text a ms) = len
      \<and> len = lcs_tab a b (length a) (length b)"
  proof (cases "length a = 0 \<or> length b = 0")
    case True
    then show ?thesis using assms by (auto simp: lcs_runs_def Let_def lcs_text_def)
  next
    case False
    let ?dirs = "[] # map (\<lambda>i. 0 # map (lcs_dir prefer_up a b i) [1..<Suc (length b)]) [Suc 0..<Suc (length a)]"
    have "map (lcs_tab a b 0) [0..<Suc (length b)] = replicate (length b + 1) 0"
      by (rule nth_equalityI) (simp_all del: upt_Suc replicate_Suc)
    then have rows: "lcs_rows prefer_up a b (replicate (length b + 1) 0) [[]] =
        (map (lcs_tab a b (length a)) [0..<Suc (length b)], ?dirs)"
      using lcs_rows_eq [of 0 a prefer_up b "[[]]"] by (simp del: upt_Suc)
    have len: "len = lcs_tab a b (length a) (length b)"
      and ms: "ms = lcs_back ?dirs (length a) (length b) [] None"
      using assms False rows by (auto simp: lcs_runs_def Let_def simp del: upt_Suc)
    have "?dirs ! i ! j = lcs_dir prefer_up a b i j"
      if "0 < i" "i \<le> length a" "0 < j" "j \<le> length b" for i j
      using that by (auto simp: nth_Cons' simp del: upt_Suc)
    from lcs_back_text [of a b ?dirs prefer_up "length a" "length b" None "[]", OF this]
    show ?thesis using len ms by (auto simp: run_ok_def run_text_def lcs_text_def simp del: upt_Suc)
  qed
  then show "subseq (lcs_text a ms) a" "subseq (lcs_text a ms) b" "length (lcs_text a ms) = len"
    and "len = lcs_tab a b (length a) (length b)" by auto
qed

section \<open>The index walk covers the subsequence\<close>

lemma lcs_seek_correct:
  assumes "- 1 \<le> i" "i < int (length a)" "subseq (xs @ [c]) (take (nat (i + 1)) a)"
  shows "0 \<le> lcs_seek a c i \<and> lcs_seek a c i \<le> i \<and> a ! nat (lcs_seek a c i) = c
    \<and> subseq xs (take (nat (lcs_seek a c i)) a)"
  using assms
proof (induction a c i rule: lcs_seek.induct)
  case (1 a c i)
  have "0 \<le> i" using 1(2-4) by (cases "i = - 1") auto
  then have take: "take (nat (i + 1)) a = take (nat i) a @ [a ! nat i]"
    using 1(3) by (simp add: nat_add_distrib take_Suc_conv_app_nth)
  show ?case
  proof (cases "a ! nat i = c")
    case True
    then show ?thesis using 1(4) \<open>0 \<le> i\<close> take by (simp add: lcs_seek.simps)
  next
    case False
    have "subseq (c # rev xs) (a ! nat i # rev (take (nat i) a))"
      using subseq_rev [OF 1(4)] by (simp add: take)
    then have "subseq (rev (c # rev xs)) (rev (rev (take (nat i) a)))"
      using False by (intro subseq_rev) simp
    then have "subseq (xs @ [c]) (take (nat (i - 1 + 1)) a)" by simp
    then show ?thesis using 1(1) \<open>0 \<le> i\<close> False 1(3) by (subst (1 2 3 4) lcs_seek.simps) auto
  qed
qed

definition seg :: "'a list \<Rightarrow> int \<Rightarrow> int \<Rightarrow> 'a list" where
  "seg a p c = take (nat c) (drop (nat p) a)"

lemma seg_extend:
  "0 \<le> p \<Longrightarrow> p < int (length a) \<Longrightarrow> 0 \<le> c \<Longrightarrow> seg a p (c + 1) = a ! nat p # seg a (p + 1) c"
  by (simp add: seg_def nat_add_distrib Cons_nth_drop_Suc [symmetric])

definition run_good :: "bytes \<Rightarrow> bytes \<Rightarrow> int \<times> int \<times> int \<Rightarrow> bool" where
  "run_good a b r = (case r of (p, q, c) \<Rightarrow>
     0 \<le> p \<and> 0 \<le> q \<and> 0 < c \<and> p + c \<le> int (length a) \<and> q + c \<le> int (length b) \<and> seg a p c = seg b q c)"

definition runs_text :: "bytes \<Rightarrow> (int \<times> int \<times> int) list \<Rightarrow> bytes" where
  "runs_text a rs = concat (map (\<lambda>(p, q, c). seg a p c) (rev rs))"

definition run_list :: "(int \<times> int \<times> int) option \<Rightarrow> (int \<times> int \<times> int) list" where
  "run_list run = (case run of None \<Rightarrow> [] | Some r \<Rightarrow> [r])"

lemma run_good_single:
  "0 \<le> i \<Longrightarrow> i < int (length a) \<Longrightarrow> 0 \<le> j \<Longrightarrow> j < int (length b) \<Longrightarrow> a ! nat i = b ! nat j \<Longrightarrow>
    run_good a b (i, j, 1) \<and> seg a i 1 = [a ! nat i]"
  using seg_extend [of i a 0] seg_extend [of j b 0] by (simp add: run_good_def) (simp add: seg_def)

lemma run_good_extend:
  assumes "run_good a b (p, q, c)" "0 \<le> p - 1" "0 \<le> q - 1" "a ! nat (p - 1) = b ! nat (q - 1)"
  shows "run_good a b (p - 1, q - 1, c + 1) \<and> seg a (p - 1) (c + 1) = a ! nat (p - 1) # seg a p c"
  using assms seg_extend [of "p - 1" a c] seg_extend [of "q - 1" b c] by (simp add: run_good_def)

lemma idx_loop_correct:
  assumes "- 1 \<le> i" "i < int (length a)" "- 1 \<le> j" "j < int (length b)" "- 1 \<le> k" "k < int (length t)"
    and "subseq (take (nat (k + 1)) t) (take (nat (i + 1)) a)"
    and "subseq (take (nat (k + 1)) t) (take (nat (j + 1)) b)"
    and "list_all (run_good a b) (acc @ run_list run)"
    and "runs_text a (acc @ run_list run) = drop (nat (k + 1)) t"
  shows "list_all (run_good a b) (idx_loop a b t i j k run acc)
    \<and> runs_text a (idx_loop a b t i j k run acc) = t"
  using assms
proof (induction a b t i j k run acc rule: idx_loop.induct)
  case (1 a b t i j k run acc)
  show ?case
  proof (cases "0 \<le> k")
    case False
    then have "idx_loop a b t i j k run acc = acc @ run_list run" "nat (k + 1) = 0"
      using 1(8) by (simp_all add: idx_loop.simps run_list_def split: option.splits)
    then show ?thesis using 1(12,13) by simp
  next
    case True
    define i' where "i' = lcs_seek a (t ! nat k) i"
    define j' where "j' = lcs_seek b (t ! nat k) j"
    have take: "take (nat (k + 1)) t = take (nat k) t @ [t ! nat k]"
      using True 1(9) by (simp add: nat_add_distrib take_Suc_conv_app_nth)
    have drop: "drop (nat k) t = t ! nat k # drop (nat (k + 1)) t"
      using True 1(9) by (simp add: nat_add_distrib Cons_nth_drop_Suc)
    have i': "0 \<le> i'" "i' \<le> i" "a ! nat i' = t ! nat k" "subseq (take (nat k) t) (take (nat i') a)"
      using lcs_seek_correct [OF 1(4,5) 1(10) [unfolded take]] by (simp_all add: i'_def)
    have j': "0 \<le> j'" "j' \<le> j" "b ! nat j' = t ! nat k" "subseq (take (nat k) t) (take (nat j') b)"
      using lcs_seek_correct [OF 1(6,7) 1(11) [unfolded take]] by (simp_all add: j'_def)
    have single: "run_good a b (i', j', 1)" "seg a i' 1 = [t ! nat k]"
      using run_good_single [of i' a j' b] i' j' 1(5,7) by simp_all
    show ?thesis
    proof (cases run)
      case None
      have "idx_loop a b t i j k run acc = idx_loop a b t (i' - 1) (j' - 1) (k - 1) (Some (i', j', 1)) acc"
        using True None by (subst idx_loop.simps) (simp add: i'_def j'_def Let_def)
      then show ?thesis
        using 1(1) [OF True refl i'_def j'_def None] None i' j' 1(5,7,9,12,13) single drop True
        by (simp add: run_list_def runs_text_def)
    next
      case (Some r)
      obtain p q c where r: "r = (p, q, c)" by (cases r)
      show ?thesis
      proof (cases "i' = p - 1 \<and> j' = q - 1")
        case adj: True
        have good: "run_good a b (p, q, c)" using 1(12) Some r by (simp add: run_list_def)
        have ext: "run_good a b (p - 1, q - 1, c + 1)" "seg a (p - 1) (c + 1) = t ! nat k # seg a p c"
          using run_good_extend [OF good] adj i' j' by simp_all
        have "idx_loop a b t i j k run acc =
            idx_loop a b t (i' - 1) (j' - 1) (k - 1) (Some (p - 1, q - 1, c + 1)) acc"
          using True Some r adj by (subst idx_loop.simps) (simp add: i'_def j'_def Let_def)
        then show ?thesis
          using 1(2) [OF True refl i'_def j'_def Some r [symmetric] refl adj] Some r i' j' 1(5,7,9,12,13) ext drop True
          by (simp add: run_list_def runs_text_def)
      next
        case False
        have "idx_loop a b t i j k run acc =
            idx_loop a b t (i' - 1) (j' - 1) (k - 1) (Some (i', j', 1)) (acc @ [(p, q, c)])"
          using True Some r False by (subst idx_loop.simps) (auto simp: i'_def j'_def Let_def)
        then show ?thesis
          using 1(3) [OF True refl i'_def j'_def Some r [symmetric] refl False] Some r i' j' 1(5,7,9,12,13) single drop True
          by (simp add: run_list_def runs_text_def)
      qed
    qed
  qed
qed

section \<open>Properties\<close>

text \<open>
  C10: \<^verbatim>\<open>LCS\<close> computes a longest common subsequence.  The text rebuilt from the matches is a
  subsequence of both strings, its length is the reported length, and no common subsequence is longer.
  The runs of the index reply are common substrings (same bytes at the reported positions of both
  strings) that, read from the last to the first, spell the subsequence.
\<close>

theorem lcs_correct:
  assumes "lcs_runs a b prefer_up = (len, ms)"
  defines "t \<equiv> lcs_text a ms"
  shows "subseq t a \<and> subseq t b \<and> length t = len
    \<and> (\<forall>s. subseq s a \<and> subseq s b \<longrightarrow> length s \<le> len)
    \<and> list_all (run_good a b) (idx_runs a b t) \<and> runs_text a (idx_runs a b t) = t"
proof -
  note spec = lcs_runs_spec [OF assms(1), folded t_def]
  have "list_all (run_good a b) (idx_runs a b t) \<and> runs_text a (idx_runs a b t) = t"
    unfolding idx_runs_def
    by (rule idx_loop_correct) (use spec(1,2) in \<open>simp_all add: run_list_def runs_text_def\<close>)
  then show ?thesis using spec lcs_tab_upper by metis
qed

theorem lcs_correct_witness:
  "subseq (lcs_text ''AGCAT'' (snd (lcs_runs ''AGCAT'' ''GAC'' False))) ''GAC''"
  using lcs_correct [of "''AGCAT''" "''GAC''" False "fst (lcs_runs ''AGCAT'' ''GAC'' False)"
      "snd (lcs_runs ''AGCAT'' ''GAC'' False)"] by simp

end
