(* ===== verification/ListCmds.thy ===== *)
theory ListCmds
  imports StringCmds "HOL-Library.Multiset"
begin

text \<open>
  The list commands of \<open>commands/lists.py\<close>.  A stored \<^verbatim>\<open>deque\<close> is a list; changing it in place
  is \<open>data_mutate\<close>, which keeps the deadline of the key.  When source and destination of a move are the
  same key, there is one list.
\<close>

definition get_list :: "env \<Rightarrow> bytes \<Rightarrow> 'bm server \<Rightarrow> ('bm server, exn, bytes list option) result" where
  "get_list ev key s =
     bindR (expect_kind ev key KIND_LIST s)
       (\<lambda>s v. returns s (case v of Some (VList xs) \<Rightarrow> Some xs | _ \<Rightarrow> None))"

definition drop_empty :: "env \<Rightarrow> bytes \<Rightarrow> bytes list \<Rightarrow> 'bm server \<Rightarrow> 'bm server" where
  "drop_empty ev key xs s = (if xs = [] then fst (srv_remove ev key s) else s)"

definition pop_notify :: "env \<Rightarrow> bytes \<Rightarrow> bool \<Rightarrow> 'bm server \<Rightarrow> 'bm server" where
  "pop_notify ev key left s =
     (let s = after_write key (if left then ''lpop'' else ''rpop'') s
      in if \<not> data_is_live ev (data s) key then notify key ''del'' s else s)"

section \<open>Pushes\<close>

definition extend_side :: "bool \<Rightarrow> bytes list \<Rightarrow> bytes list \<Rightarrow> bytes list" where
  "extend_side left vals xs = (if left then rev vals @ xs else xs @ vals)"

definition push :: "env \<Rightarrow> bytes \<Rightarrow> bytes list \<Rightarrow> bool \<Rightarrow> bool \<Rightarrow> 'bm server \<Rightarrow> 'bm cmd_result" where
  "push ev key vals left xx s =
     bindR (get_list ev key s) (\<lambda>s lst.
       if lst = None \<and> xx then returns s (RInt 0)
       else
         let (s, xs) = (case lst of
                None \<Rightarrow> (upd_data (data_setitem key (VList [])) s, [])
              | Some xs \<Rightarrow> (s, xs));
             ys = extend_side left vals xs;
             s = upd_data (data_mutate key (VList ys)) s
         in returns (after_write key (if left then ''lpush'' else ''rpush'') s) (RInt (int (length ys))))"

definition LPUSH :: "env \<Rightarrow> bytes \<Rightarrow> bytes list \<Rightarrow> 'bm server \<Rightarrow> 'bm cmd_result" where
  "LPUSH ev key vals s =
     (if vals = [] then raise_error s (arity ''lpush'') else push ev key vals True False s)"

definition RPUSH :: "env \<Rightarrow> bytes \<Rightarrow> bytes list \<Rightarrow> 'bm server \<Rightarrow> 'bm cmd_result" where
  "RPUSH ev key vals s =
     (if vals = [] then raise_error s (arity ''rpush'') else push ev key vals False False s)"

definition LPUSHX :: "env \<Rightarrow> bytes \<Rightarrow> bytes list \<Rightarrow> 'bm server \<Rightarrow> 'bm cmd_result" where
  "LPUSHX ev key vals s =
     (if vals = [] then raise_error s (arity ''lpushx'') else push ev key vals True True s)"

definition RPUSHX :: "env \<Rightarrow> bytes \<Rightarrow> bytes list \<Rightarrow> 'bm server \<Rightarrow> 'bm cmd_result" where
  "RPUSHX ev key vals s =
     (if vals = [] then raise_error s (arity ''rpushx'') else push ev key vals False True s)"

section \<open>Reads\<close>

definition LLEN :: "env \<Rightarrow> bytes \<Rightarrow> 'bm server \<Rightarrow> 'bm cmd_result" where
  "LLEN ev key s =
     bindR (get_list ev key s) (\<lambda>s lst.
       returns s (RInt (case lst of None \<Rightarrow> 0 | Some xs \<Rightarrow> int (length xs))))"

text \<open>The inclusive window of a range command, as a start and an end within the list, if not empty.\<close>

definition list_window :: "int \<Rightarrow> int \<Rightarrow> int \<Rightarrow> (int \<times> int) option" where
  "list_window start stop n =
     (let start = (if start < 0 then start + n else start);
          stop = (if stop < 0 then stop + n else stop);
          start = (if start < 0 then 0 else start)
      in if start > stop \<or> start \<ge> n then None
         else Some (start, if stop \<ge> n then n - 1 else stop))"

definition LRANGE :: "env \<Rightarrow> bytes \<Rightarrow> int \<Rightarrow> int \<Rightarrow> 'bm server \<Rightarrow> 'bm cmd_result" where
  "LRANGE ev key start stop s =
     bindR (get_list ev key s) (\<lambda>s lst.
       case lst of
         None \<Rightarrow> returns s (RList [])
       | Some xs \<Rightarrow>
           (case list_window start stop (int (length xs)) of
              None \<Rightarrow> returns s (RList [])
            | Some (i, j) \<Rightarrow> returns s (RList (map RBytes (slice (nat i) (nat (j + 1)) xs)))))"

definition list_index :: "int \<Rightarrow> nat \<Rightarrow> nat option" where
  "list_index index n =
     (let i = (if index \<ge> 0 then index else int n + index)
      in if i < 0 \<or> i \<ge> int n then None else Some (nat i))"

definition LINDEX :: "env \<Rightarrow> bytes \<Rightarrow> int \<Rightarrow> 'bm server \<Rightarrow> 'bm cmd_result" where
  "LINDEX ev key index s =
     bindR (get_list ev key s) (\<lambda>s lst.
       case lst of
         None \<Rightarrow> returns s (RResponse NIL)
       | Some xs \<Rightarrow>
           (case list_index index (length xs) of
              None \<Rightarrow> returns s (RResponse NIL)
            | Some i \<Rightarrow> returns s (RBytes (xs ! i))))"

section \<open>Pops\<close>

definition pop_side :: "bool \<Rightarrow> bytes list \<Rightarrow> bytes \<times> bytes list" where
  "pop_side left xs = (if left then (hd xs, tl xs) else (last xs, butlast xs))"

fun pop_many :: "bool \<Rightarrow> nat \<Rightarrow> bytes list \<Rightarrow> bytes list \<times> bytes list" where
  "pop_many left 0 xs = ([], xs)"
| "pop_many left (Suc n) xs =
     (case pop_side left xs of (v, rest) \<Rightarrow>
        (case pop_many left n rest of (popped, rest) \<Rightarrow> (v # popped, rest)))"

definition pop :: "env \<Rightarrow> bytes \<Rightarrow> int option \<Rightarrow> bool \<Rightarrow> 'bm server \<Rightarrow> 'bm cmd_result" where
  "pop ev key num left s =
     (if num \<noteq> None \<and> the num < 0 then raise_error s NOT_POSITIVE
      else
        bindR (get_list ev key s) (\<lambda>s lst.
          let nothing = (if num = None then RResponse NIL else RResponse NIL_ARRAY) in
          case lst of
            None \<Rightarrow> returns s nothing
          | Some xs \<Rightarrow>
              if num = Some 0 then returns s (RList [])
              else if xs = [] then returns (fst (srv_remove ev key s)) nothing
              else case num of
                None \<Rightarrow>
                  (case pop_side left xs of (v, rest) \<Rightarrow>
                     let s = upd_data (data_mutate key (VList rest)) s;
                         s = drop_empty ev key rest s
                     in returns (pop_notify ev key left s) (RBytes v))
              | Some c \<Rightarrow>
                  (case pop_many left (nat (min c (int (length xs)))) xs of (popped, rest) \<Rightarrow>
                     let s = upd_data (data_mutate key (VList rest)) s;
                         s = drop_empty ev key rest s
                     in returns (pop_notify ev key left s) (RList (map RBytes popped)))))"

definition LPOP :: "env \<Rightarrow> bytes \<Rightarrow> int option \<Rightarrow> 'bm server \<Rightarrow> 'bm cmd_result" where
  "LPOP ev key num s = pop ev key num True s"

definition RPOP :: "env \<Rightarrow> bytes \<Rightarrow> int option \<Rightarrow> 'bm server \<Rightarrow> 'bm cmd_result" where
  "RPOP ev key num s = pop ev key num False s"

section \<open>Mutations\<close>

definition LSET :: "env \<Rightarrow> bytes \<Rightarrow> int \<Rightarrow> bytes \<Rightarrow> 'bm server \<Rightarrow> 'bm cmd_result" where
  "LSET ev key index v s =
     bindR (get_list ev key s) (\<lambda>s lst.
       case lst of
         None \<Rightarrow> raise_error s NOKEY
       | Some xs \<Rightarrow>
           (case list_index index (length xs) of
              None \<Rightarrow> raise_error s INDEX_RANGE
            | Some i \<Rightarrow>
                returns (after_write key ''lset'' (upd_data (data_mutate key (VList (xs[i := v]))) s))
                  (RResponse OK)))"

definition LTRIM :: "env \<Rightarrow> bytes \<Rightarrow> int \<Rightarrow> int \<Rightarrow> 'bm server \<Rightarrow> 'bm cmd_result" where
  "LTRIM ev key start stop s =
     bindR (get_list ev key s) (\<lambda>s lst.
       case lst of
         None \<Rightarrow> returns s (RResponse OK)
       | Some xs \<Rightarrow>
           (case list_window start stop (int (length xs)) of
              None \<Rightarrow> returns (fst (srv_remove ev key s)) (RResponse OK)
            | Some (i, j) \<Rightarrow>
                let s = after_write key ''ltrim'' s in
                if i = 0 \<and> j = int (length xs) - 1 then returns s (RResponse OK)
                else returns (upd_data (data_set ev key (VList (slice (nat i) (nat (j + 1)) xs)) None True) s)
                       (RResponse OK)))"

text \<open>The loop of \<^verbatim>\<open>LREM\<close>; \<open>limit\<close> 0 stands for no limit.\<close>

fun lrem_loop :: "bytes \<Rightarrow> int \<Rightarrow> bytes list \<Rightarrow> int \<Rightarrow> bytes list \<Rightarrow> int \<times> bytes list" where
  "lrem_loop v limit [] removed kept = (removed, kept)"
| "lrem_loop v limit (item # rest) removed kept =
     (if item = v \<and> (limit = 0 \<or> removed < limit) then lrem_loop v limit rest (removed + 1) kept
      else lrem_loop v limit rest removed (kept @ [item]))"

definition lrem :: "int \<Rightarrow> bytes \<Rightarrow> bytes list \<Rightarrow> int \<times> bytes list" where
  "lrem num v xs =
     (if num \<ge> 0 then lrem_loop v num xs 0 []
      else map_prod id rev (lrem_loop v (- num) (rev xs) 0 []))"

definition LREM :: "env \<Rightarrow> bytes \<Rightarrow> int \<Rightarrow> bytes \<Rightarrow> 'bm server \<Rightarrow> 'bm cmd_result" where
  "LREM ev key num v s =
     bindR (get_list ev key s) (\<lambda>s lst.
       case lst of
         None \<Rightarrow> returns s (RInt 0)
       | Some xs \<Rightarrow>
           (case lrem num v xs of (removed, kept) \<Rightarrow>
              let s = (if removed = 0 then s
                       else
                         let s = after_write key ''lrem'' s in
                         if kept \<noteq> [] then upd_data (data_set ev key (VList kept) None True) s
                         else notify key ''del'' (fst (srv_remove ev key s)))
              in returns s (RInt removed)))"

definition insert_at :: "nat \<Rightarrow> 'a \<Rightarrow> 'a list \<Rightarrow> 'a list" where
  "insert_at i v xs = take i xs @ v # drop i xs"

definition LINSERT :: "env \<Rightarrow> bytes \<Rightarrow> bytes \<Rightarrow> bytes \<Rightarrow> bytes \<Rightarrow> 'bm server \<Rightarrow> 'bm cmd_result" where
  "LINSERT ev key whr pivot v s =
     bindR (if upper whr = ''BEFORE'' then returns s 0
            else if upper whr = ''AFTER'' then returns s 1
            else raise_error s SYNTAX) (\<lambda>s offset.
     bindR (get_list ev key s) (\<lambda>s lst.
       case lst of
         None \<Rightarrow> returns s (RInt 0)
       | Some xs \<Rightarrow>
           let i = length (takeWhile (\<lambda>item. item \<noteq> pivot) xs) in
           if i < length xs then
             let ys = insert_at (i + offset) v xs
             in returns (after_write key ''linsert'' (upd_data (data_mutate key (VList ys)) s))
                  (RInt (int (length ys)))
           else returns s (RInt (- 1))))"

section \<open>Moves\<close>

definition list_side :: "bytes \<Rightarrow> error + bool" where
  "list_side whr =
     (if upper whr = ''LEFT'' then Inr True else if upper whr = ''RIGHT'' then Inr False else Inl SYNTAX)"

definition push_side :: "bool \<Rightarrow> bytes \<Rightarrow> bytes list \<Rightarrow> bytes list" where
  "push_side left v xs = (if left then v # xs else xs @ [v])"

definition move_events :: "bytes \<Rightarrow> bytes \<Rightarrow> bool \<Rightarrow> bool \<Rightarrow> 'bm server \<Rightarrow> 'bm server" where
  "move_events source destination from_left to_left s =
     after_write source (if from_left then ''lpop'' else ''rpop'')
       (after_write destination (if to_left then ''lpush'' else ''rpush'') s)"

definition move :: "env \<Rightarrow> bytes \<Rightarrow> bytes \<Rightarrow> bool \<Rightarrow> bool \<Rightarrow> 'bm server \<Rightarrow> 'bm cmd_result" where
  "move ev source destination from_left to_left s =
     bindR (get_list ev source s) (\<lambda>s src.
       case src of
         None \<Rightarrow> returns s (RResponse NIL)
       | Some xs \<Rightarrow>
           if xs = [] then returns (fst (srv_remove ev source s)) (RResponse NIL)
           else if destination = source then
             (case pop_side from_left xs of (v, rest) \<Rightarrow>
                returns (move_events source destination from_left to_left
                  (upd_data (data_mutate source (VList (push_side to_left v rest))) s)) (RBytes v))
           else
             bindR (get_list ev destination s) (\<lambda>s dst.
               case pop_side from_left xs of (v, rest) \<Rightarrow>
                 let s = upd_data (data_mutate source (VList rest)) s;
                     (s, ys) = (case dst of
                        None \<Rightarrow> (upd_data (data_setitem destination (VList [])) s, [])
                      | Some ys \<Rightarrow> (s, ys));
                     s = upd_data (data_mutate destination (VList (push_side to_left v ys))) s;
                     s = move_events source destination from_left to_left s;
                     s = (if rest = [] then notify source ''del'' (fst (srv_remove ev source s)) else s)
                 in returns s (RBytes v)))"

definition LMOVE :: "env \<Rightarrow> bytes \<Rightarrow> bytes \<Rightarrow> bytes \<Rightarrow> bytes \<Rightarrow> 'bm server \<Rightarrow> 'bm cmd_result" where
  "LMOVE ev source destination wherefrom whereto s =
     bindR (liftE s (list_side wherefrom)) (\<lambda>s from_left.
     bindR (liftE s (list_side whereto)) (\<lambda>s to_left.
       move ev source destination from_left to_left s))"

definition RPOPLPUSH :: "env \<Rightarrow> bytes \<Rightarrow> bytes \<Rightarrow> 'bm server \<Rightarrow> 'bm cmd_result" where
  "RPOPLPUSH ev source destination s = move ev source destination False True s"

text \<open>The options after the side of \<^verbatim>\<open>LMPOP\<close>: at most one count.\<close>

definition lmpop_count :: "bytes list \<Rightarrow> error + int" where
  "lmpop_count options =
     (case options of
        [] \<Rightarrow> Inr 1
      | option # rest \<Rightarrow>
          if upper option = ''COUNT'' \<and> rest \<noteq> [] then
            (case string2ll (hd rest) of
               None \<Rightarrow> Inl NOT_INT
             | Some c \<Rightarrow>
                 if c < 1 then Inl (err ''count should be greater than 0'')
                 else if tl rest \<noteq> [] then Inl SYNTAX else Inr c)
          else Inl SYNTAX)"

fun lmpop_keys :: "env \<Rightarrow> bytes list \<Rightarrow> bool \<Rightarrow> int \<Rightarrow> 'bm server \<Rightarrow> 'bm cmd_result" where
  "lmpop_keys ev [] from_left c s = returns s (RResponse NIL_ARRAY)"
| "lmpop_keys ev (key # keys) from_left c s =
     bindR (get_list ev key s) (\<lambda>s lst.
       case lst of
         None \<Rightarrow> lmpop_keys ev keys from_left c s
       | Some xs \<Rightarrow>
           if xs = [] then lmpop_keys ev keys from_left c (fst (srv_remove ev key s))
           else
             (case pop_many from_left (nat (min c (int (length xs)))) xs of (popped, rest) \<Rightarrow>
                let s = upd_data (data_mutate key (VList rest)) s;
                    s = drop_empty ev key rest s
                in returns (pop_notify ev key from_left s)
                     (RList [RBytes key, RList (map RBytes popped)])))"

definition LMPOP :: "env \<Rightarrow> int \<Rightarrow> bytes list \<Rightarrow> 'bm server \<Rightarrow> 'bm cmd_result" where
  "LMPOP ev numkeys rest s =
     (if numkeys < 1 then raise_error s (err ''numkeys should be greater than 0'')
      else if numkeys + 1 > int (length rest) then raise_error s SYNTAX
      else
        let n = nat numkeys in
        bindR (liftE s (list_side (rest ! n))) (\<lambda>s from_left.
        bindR (liftE s (lmpop_count (drop (n + 1) rest))) (\<lambda>s c.
          lmpop_keys ev (take n rest) from_left c s)))"

section \<open>Positions\<close>

record lpos_options =
  lpos_rank :: int
  lpos_count :: int
  lpos_maxlen :: int

fun lpos_parse :: "bytes list \<Rightarrow> lpos_options \<Rightarrow> error + lpos_options" where
  "lpos_parse [] opts = Inr opts"
| "lpos_parse [option] opts = Inl SYNTAX"
| "lpos_parse (option # raw # rest) opts =
     (let opt = upper option in
      if opt \<notin> {''RANK'', ''COUNT'', ''MAXLEN''} then Inl SYNTAX
      else case string2ll raw of
        None \<Rightarrow> Inl NOT_INT
      | Some v \<Rightarrow>
          if opt = ''RANK'' then
            (if v = 0 then Inl RANK_ZERO else lpos_parse rest (opts\<lparr>lpos_rank := v\<rparr>))
          else if opt = ''COUNT'' then
            (if v < 0 then Inl COUNT_NEG else lpos_parse rest (opts\<lparr>lpos_count := v\<rparr>))
          else
            (if v < 0 then Inl MAXLEN_NEG else lpos_parse rest (opts\<lparr>lpos_maxlen := v\<rparr>)))"

text \<open>The scan: an early return is \<open>Inl\<close>, the list of positions found is \<open>Inr\<close>.\<close>

fun lpos_loop ::
  "bytes \<Rightarrow> int \<Rightarrow> int \<Rightarrow> int \<Rightarrow> (int \<Rightarrow> int) \<Rightarrow> bytes list \<Rightarrow> int \<Rightarrow> int \<Rightarrow> int list \<Rightarrow> int + int list"
  where
  "lpos_loop element rank num maxlen position [] index matches found = Inr found"
| "lpos_loop element rank num maxlen position (item # rest) index matches found =
     (if maxlen \<noteq> 0 \<and> index \<ge> maxlen then Inr found
      else if item \<noteq> element then lpos_loop element rank num maxlen position rest (index + 1) matches found
      else if matches + 1 < rank then
        lpos_loop element rank num maxlen position rest (index + 1) (matches + 1) found
      else if num = - 1 then Inl (position index)
      else
        let found = found @ [position index] in
        if num \<noteq> 0 \<and> int (length found) \<ge> num then Inr found
        else lpos_loop element rank num maxlen position rest (index + 1) (matches + 1) found)"

definition lpos :: "bytes \<Rightarrow> lpos_options \<Rightarrow> bytes list \<Rightarrow> int + int list" where
  "lpos element opts xs =
     (let n = int (length xs) in
      if lpos_rank opts < 0 then
        lpos_loop element (- lpos_rank opts) (lpos_count opts) (lpos_maxlen opts) (\<lambda>index. n - 1 - index)
          (rev xs) 0 0 []
      else
        lpos_loop element (lpos_rank opts) (lpos_count opts) (lpos_maxlen opts) (\<lambda>index. index) xs 0 0 [])"

definition LPOS :: "env \<Rightarrow> bytes \<Rightarrow> bytes \<Rightarrow> bytes list \<Rightarrow> 'bm server \<Rightarrow> 'bm cmd_result" where
  "LPOS ev key element options s =
     bindR (liftE s (lpos_parse options \<lparr>lpos_rank = 1, lpos_count = - 1, lpos_maxlen = 0\<rparr>)) (\<lambda>s opts.
     bindR (get_list ev key s) (\<lambda>s lst.
       case lst of
         None \<Rightarrow> returns s (if lpos_count opts = - 1 then RResponse NIL else RList [])
       | Some xs \<Rightarrow>
           returns s (case lpos element opts xs of
             Inl i \<Rightarrow> RInt i
           | Inr found \<Rightarrow> if lpos_count opts = - 1 then RResponse NIL else RList (map RInt found))))"

section \<open>Safety\<close>

definition list_of :: "'bm val option \<Rightarrow> error + bytes list option" where
  "list_of v = (case v of None \<Rightarrow> Inr None | Some (VList xs) \<Rightarrow> Inr (Some xs) | Some _ \<Rightarrow> Inl WRONGTYPE)"

lemma get_list_eq: "get_list ev key s = liftE (fst (srv_get ev key s)) (list_of (value_at ev s key))"
  by (simp add: get_list_def expect_kind_cases list_of_def split: option.splits val.splits)

lemma safe_get_list [safe_intros]: "safe s (fst (get_list ev key s))"
  by (simp add: get_list_eq safe_get)

text \<open>Overwriting a value that was just written, and removing it.\<close>

lemma store_ok_setitem_mutate:
  "store_ok d \<Longrightarrow> value_ok v \<Longrightarrow> store_ok (data_mutate key v (data_setitem key u d))"
  by (auto simp: store_ok_def wf_writes ok_at_mutate ok_at_setitem)

lemma store_ok_mutate_remove: "store_ok d \<Longrightarrow> store_ok (fst (data_remove ck key (data_mutate key v d)))"
  by (auto simp: store_ok_def wf_writes ok_at_mutate ok_at_remove)

lemma safe_setitem_mutate [safe_intros]:
  "safe s s' \<Longrightarrow> value_ok v \<Longrightarrow>
    safe s (upd_data (data_mutate key v) (upd_data (data_setitem key u) s'))"
proof -
  assume "safe s s'" "value_ok v"
  moreover have "upd_data (data_mutate key v) (upd_data (data_setitem key u) s')
      = upd_data (\<lambda>d. data_mutate key v (data_setitem key u d)) s'"
    by (simp add: upd_data_def)
  ultimately show ?thesis
    using safe_trans [OF _ safe_upd] store_ok_setitem_mutate by metis
qed

lemma extend_side_nonempty [simp]: "vals \<noteq> [] \<Longrightarrow> extend_side left vals xs \<noteq> []"
  by (simp add: extend_side_def)

lemma push_side_nonempty [simp]: "push_side left v xs \<noteq> []"
  by (simp add: push_side_def)

declare safe_remove' [safe_intros del]

lemma safe_push: "vals \<noteq> [] \<Longrightarrow> safe s (fst (push ev key vals left xx s))"
  by (auto simp: push_def Let_def intro!: safe_bind safe_intros split: option.splits)

lemma safe_shrink:
  "safe s s' \<Longrightarrow> safe s (pop_notify ev key left (drop_empty ev key rest
     (upd_data (data_mutate key (VList rest)) s')))"
proof -
  have rm: "safe s (fst (srv_remove ev key (upd_data (data_mutate key (VList xs)) s)))"
    for xs and s :: "'a server"
    by (simp add: safe_def quiet_trans [OF quiet_upd_data quiet_srv_remove] store_ok_mutate_remove)
  assume "safe s s'"
  then show ?thesis
    by (auto simp: pop_notify_def drop_empty_def Let_def intro!: safe_after_write' safe_notify' safe_mutate'
        safe_trans [OF _ rm])
qed

lemma safe_pop: "safe s (fst (pop ev key num left s))"
  by (auto simp: pop_def Let_def case_prod_unfold intro!: safe_bind safe_intros safe_remove' safe_shrink
      split: option.splits)

lemma safe_list_reads:
  "safe s (fst (LLEN ev key s))" "safe s (fst (LRANGE ev key i j s))" "safe s (fst (LINDEX ev key i s))"
  "safe s (fst (LPOS ev key v options s))"
  by (auto simp: LLEN_def LRANGE_def LINDEX_def LPOS_def intro!: safe_bind safe_intros split: option.splits prod.splits)

lemma slice_nonempty: "i < j \<Longrightarrow> i < length xs \<Longrightarrow> slice i j xs \<noteq> []"
  by (simp add: slice_def)

lemma list_window_bounds:
  "list_window start stop (int (length xs)) = Some (i, j) \<Longrightarrow> 0 \<le> i \<and> i \<le> j \<and> j < int (length xs)"
  by (auto simp: list_window_def Let_def split: if_splits)

lemma list_of_ok: "store_ok (data s) \<Longrightarrow> list_of (value_at ev s key) = Inr (Some xs) \<Longrightarrow> xs \<noteq> []"
  using value_at_ok [of s ev key] by (auto simp: list_of_def split: option.splits val.splits)

lemma insert_at_nonempty [simp]: "insert_at i v xs \<noteq> []"
  by (simp add: insert_at_def)

lemma get_list_some:
  "get_list ev key s = (s', Inr (Some xs)) \<Longrightarrow> s' = fst (srv_get ev key s) \<and> list_of (value_at ev s key) = Inr (Some xs)"
  by (auto simp: get_list_eq liftE_def returns_def raises_def split: sum.splits)

lemma list_index_bound: "list_index index n = Some i \<Longrightarrow> i < n"
  by (auto simp: list_index_def Let_def split: if_splits)

lemma safe_list_edits:
  "safe s (fst (LTRIM ev key i j s))" "safe s (fst (LREM ev key n v s))"
  "safe s (fst (LINSERT ev key whr pivot v s))" "safe s (fst (LSET ev key i v s))"
proof -
  show "safe s (fst (LTRIM ev key i j s))"
    by (auto simp: LTRIM_def Let_def slice_nonempty intro!: safe_bind safe_intros safe_remove'
        dest!: list_window_bounds split: option.splits prod.splits)
  show "safe s (fst (LREM ev key n v s))"
    by (auto simp: LREM_def Let_def intro!: safe_bind safe_intros safe_remove' split: option.splits prod.splits)
  show "safe s (fst (LINSERT ev key whr pivot v s))"
    by (auto simp: LINSERT_def Let_def intro!: safe_bind safe_intros split: option.splits)
  show "safe s (fst (LSET ev key i v s))"
    by (auto simp: LSET_def intro!: safe_bind safe_intros dest!: list_index_bound split: option.splits)
qed

lemma safe_move_events: "safe s s' \<Longrightarrow> safe s (move_events source destination from_left to_left s')"
  by (simp add: move_events_def safe_after_write')

text \<open>A source that a move empties is removed after its events.\<close>

lemma safe_emptied:
  assumes "safe s s'" "value_ok v"
  shows "safe s (fst (srv_remove ev source (move_events source destination from_left to_left
    (upd_data (data_mutate destination v) (upd_data (data_mutate source u) s')))))"
    and "safe s (fst (srv_remove ev source (move_events source destination from_left to_left
    (upd_data (data_mutate destination v) (upd_data (data_setitem destination w)
       (upd_data (data_mutate source u) s'))))))"
proof -
  have q: "quiet s' (fst (srv_remove ev source (move_events source destination from_left to_left (upd_data f s'))))"
    for f and s' :: "'a server"
    by (rule quiet_trans [OF quiet_upd_data quiet_trans [OF _ quiet_srv_remove]])
      (rule safe_quiet [OF safe_move_events [OF safe_refl]])
  have comp: "upd_data f (upd_data g s) = upd_data (\<lambda>d. f (g d)) s" for f g and s :: "'a server"
    by (simp add: upd_data_def)
  have d: "data (move_events source destination from_left to_left s) = data_touch source (data_touch destination (data s))"
    for s :: "'a server" by (simp add: move_events_def)
  have ok: "store_ok d \<Longrightarrow> store_ok (fst (data_remove ck source (data_touch source (data_touch destination
      (data_mutate destination v (data_mutate source u d))))))"
    "store_ok d \<Longrightarrow> store_ok (fst (data_remove ck source (data_touch source (data_touch destination
      (data_mutate destination v (data_setitem destination w (data_mutate source u d)))))))"
    for d :: "'a val data" and ck :: env
    using assms(2) by (simp_all add: store_ok_def wf_writes(2,3,4) wf_touch ok_at_simps)
  show "safe s (fst (srv_remove ev source (move_events source destination from_left to_left
    (upd_data (data_mutate destination v) (upd_data (data_mutate source u) s')))))"
    by (rule safe_trans [OF assms(1)]) (simp add: safe_def comp q d ok)
  show "safe s (fst (srv_remove ev source (move_events source destination from_left to_left
    (upd_data (data_mutate destination v) (upd_data (data_setitem destination w)
       (upd_data (data_mutate source u) s'))))))"
    by (rule safe_trans [OF assms(1)]) (simp add: safe_def comp q d ok)
qed

lemma safe_setitem_mutate2 [safe_intros]:
  "safe s s' \<Longrightarrow> value_ok v \<Longrightarrow> value_ok u \<Longrightarrow>
    safe s (upd_data (data_mutate key v) (upd_data (data_setitem key w) (upd_data (data_mutate k u) s')))"
  by (intro safe_intros) auto

lemma safe_move: "safe s (fst (move ev source destination from_left to_left s))"
  by (auto simp: move_def Let_def case_prod_unfold
      intro!: safe_bind safe_intros safe_move_events safe_emptied safe_remove
      split: option.splits)

lemma safe_lmpop_keys: "safe s (fst (lmpop_keys ev keys from_left c s))"
proof (induction keys arbitrary: s)
  case (Cons key keys)
  then show ?case
    by (auto simp: Let_def case_prod_unfold intro!: safe_bind safe_intros safe_shrink safe_remove
        safe_trans [OF _ Cons] split: option.splits)
qed simp

lemma safe_list_cmds:
  "safe s (fst (LPUSH ev key vals s))" "safe s (fst (RPUSH ev key vals s))"
  "safe s (fst (LPUSHX ev key vals s))" "safe s (fst (RPUSHX ev key vals s))"
  "safe s (fst (LPOP ev key num s))" "safe s (fst (RPOP ev key num s))"
  "safe s (fst (LMOVE ev source destination w1 w2 s))" "safe s (fst (RPOPLPUSH ev source destination s))"
  "safe s (fst (LMPOP ev numkeys rest s))"
  by (auto simp: LPUSH_def RPUSH_def LPUSHX_def RPUSHX_def LPOP_def RPOP_def LMOVE_def RPOPLPUSH_def LMPOP_def
      Let_def safe_push safe_pop intro!: safe_bind safe_move safe_lmpop_keys)

section \<open>What the commands do to the view\<close>

definition deadline_of :: "env \<Rightarrow> 'bm server \<Rightarrow> bytes \<Rightarrow> int option" where
  "deadline_of ev s key = (case view ev s key of None \<Rightarrow> None | Some (_, t) \<Rightarrow> t)"

text \<open>The entry of a key that holds a list: none for the empty list.\<close>

definition list_entry :: "int option \<Rightarrow> bytes list \<Rightarrow> ('bm val \<times> int option) option" where
  "list_entry t xs = (if xs = [] then None else Some (VList xs, t))"

lemma list_of_None: "list_of (value_at ev s key) = Inr None \<longleftrightarrow> view ev s key = None"
  by (auto simp: list_of_def value_at_def split: option.splits val.splits)

lemma list_of_Some:
  "list_of (value_at ev s key) = Inr (Some xs) \<longleftrightarrow> view ev s key = Some (VList xs, deadline_of ev s key)"
  by (auto simp: list_of_def value_at_def deadline_of_def split: option.splits val.splits)

lemma value_at_cong: "view ev s = view ev s' \<Longrightarrow> value_at ev s = value_at ev s'"
  by (simp add: value_at_def fun_eq_iff)

lemma value_at_get [simp]: "value_at ev (fst (srv_get ev k s)) = value_at ev s"
  by (rule value_at_cong) (rule view_get)

lemma view_push:
  assumes "list_of (value_at ev s key) = Inr lst" "lst \<noteq> None \<or> \<not> xx"
  shows "view ev (fst (push ev key vals left xx s)) = (view ev s)(key \<mapsto>
      (VList (extend_side left vals (case lst of None \<Rightarrow> [] | Some xs \<Rightarrow> xs)), deadline_of ev s key))"
    and "snd (push ev key vals left xx s) =
      Inr (RInt (int (length (extend_side left vals (case lst of None \<Rightarrow> [] | Some xs \<Rightarrow> xs)))))"
proof -
  let ?s = "fst (srv_get ev key s)"
  have "view ev (fst (push ev key vals left xx s)) = (view ev s)(key \<mapsto>
      (VList (extend_side left vals (case lst of None \<Rightarrow> [] | Some xs \<Rightarrow> xs)), deadline_of ev s key))
    \<and> snd (push ev key vals left xx s) =
      Inr (RInt (int (length (extend_side left vals (case lst of None \<Rightarrow> [] | Some xs \<Rightarrow> xs)))))"
  proof (cases lst)
    case None
    then have v: "view ev s key = None" "\<not> xx" using assms by (simp_all add: list_of_None)
    show ?thesis
      unfolding push_def get_list_eq assms(1) using None v
      by (simp add: Let_def view_simps deadline_of_def)
  next
    case (Some xs)
    then have v: "view ev s key = Some (VList xs, deadline_of ev s key)" using assms(1) by (simp add: list_of_Some)
    show ?thesis
      unfolding push_def get_list_eq assms(1) using Some v by (simp add: Let_def view_simps)
  qed
  then show "view ev (fst (push ev key vals left xx s)) = (view ev s)(key \<mapsto>
      (VList (extend_side left vals (case lst of None \<Rightarrow> [] | Some xs \<Rightarrow> xs)), deadline_of ev s key))"
    and "snd (push ev key vals left xx s) =
      Inr (RInt (int (length (extend_side left vals (case lst of None \<Rightarrow> [] | Some xs \<Rightarrow> xs)))))" by simp_all
qed

lemma pop_many_eq:
  "n \<le> length xs \<Longrightarrow> pop_many True n xs = (take n xs, drop n xs)"
  "n \<le> length xs \<Longrightarrow> pop_many False n xs = (take n (rev xs), rev (drop n (rev xs)))"
proof -
  show "n \<le> length xs \<Longrightarrow> pop_many True n xs = (take n xs, drop n xs)"
  proof (induction n arbitrary: xs)
    case (Suc n)
    then show ?case by (cases xs) (simp_all add: pop_side_def)
  qed simp
  show "n \<le> length xs \<Longrightarrow> pop_many False n xs = (take n (rev xs), rev (drop n (rev xs)))"
  proof (induction n arbitrary: xs)
    case (Suc n)
    then show ?case by (cases xs rule: rev_cases) (simp_all add: pop_side_def)
  qed simp
qed

lemma view_shrink:
  "view ev s key = Some (v, t) \<Longrightarrow>
   view ev (pop_notify ev key left (drop_empty ev key rest (upd_data (data_mutate key (VList rest)) s)))
     = (view ev s)(key := list_entry t rest)"
  by (simp add: pop_notify_def drop_empty_def Let_def view_simps list_entry_def)

lemma view_pop:
  assumes "list_of (value_at ev s key) = Inr (Some xs)" "0 < n" "xs \<noteq> []"
  defines "m \<equiv> nat (min n (int (length xs)))"
  shows "view ev (fst (pop ev key (Some n) left s)) =
      (view ev s)(key := list_entry (deadline_of ev s key) (snd (pop_many left m xs)))"
    and "snd (pop ev key (Some n) left s) = Inr (RList (map RBytes (fst (pop_many left m xs))))"
proof -
  have at: "view ev (fst (srv_get ev key s)) key = Some (VList xs, deadline_of ev s key)"
    using assms(1) by (simp add: view_get list_of_Some)
  obtain popped rest where p: "pop_many left m xs = (popped, rest)" by (cases "pop_many left m xs")
  have "pop ev key (Some n) left s = returns (pop_notify ev key left (drop_empty ev key rest
      (upd_data (data_mutate key (VList rest)) (fst (srv_get ev key s))))) (RList (map RBytes popped))"
    using assms(2,3) p unfolding pop_def get_list_eq assms(1) m_def by (simp add: Let_def)
  then show "view ev (fst (pop ev key (Some n) left s)) =
      (view ev s)(key := list_entry (deadline_of ev s key) (snd (pop_many left m xs)))"
    and "snd (pop ev key (Some n) left s) = Inr (RList (map RBytes (fst (pop_many left m xs))))"
    using view_shrink [OF at] by (simp_all add: p view_get)
qed

lemma list_window_spec:
  "list_window start stop (int n) =
     (let lo = max 0 (if start < 0 then start + int n else start);
          hi = min (int n - 1) (if stop < 0 then stop + int n else stop)
      in if lo \<le> hi then Some (lo, hi) else None)"
  by (auto simp: list_window_def Let_def)

text \<open>The window of a range command, as a list.\<close>

definition window :: "int \<Rightarrow> int \<Rightarrow> 'a list \<Rightarrow> 'a list" where
  "window start stop xs =
     (let lo = max 0 (if start < 0 then start + int (length xs) else start);
          hi = min (int (length xs) - 1) (if stop < 0 then stop + int (length xs) else stop)
      in take (nat (hi - lo + 1)) (drop (nat lo) xs))"

lemma window_eq:
  "window start stop xs =
     (case list_window start stop (int (length xs)) of None \<Rightarrow> [] | Some (i, j) \<Rightarrow> slice (nat i) (nat (j + 1)) xs)"
  by (auto simp: window_def list_window_spec Let_def slice_window_int)

lemma window_full: "window 0 (-1) xs = xs"
  by (simp add: window_def Let_def)

lemma LRANGE_window:
  assumes "list_of (value_at ev s key) = Inr lst"
  shows "snd (LRANGE ev key start stop s) =
    Inr (RList (map RBytes (window start stop (case lst of None \<Rightarrow> [] | Some xs \<Rightarrow> xs))))"
  unfolding LRANGE_def get_list_eq assms
  by (cases lst) (simp_all add: window_eq split: option.splits, auto simp: list_window_def slice_def split: option.splits)

lemma view_LTRIM:
  assumes "list_of (value_at ev s key) = Inr (Some xs)" "xs \<noteq> []"
  shows "view ev (fst (LTRIM ev key start stop s)) =
    (view ev s)(key := list_entry (deadline_of ev s key) (window start stop xs))"
proof (cases "list_window start stop (int (length xs))")
  case None
  then have "window start stop xs = []" by (simp add: window_eq)
  then show ?thesis unfolding LTRIM_def get_list_eq assms(1) using None
    by (simp add: view_simps list_entry_def)
next
  case (Some ij)
  obtain i j where ij: "ij = (i, j)" by (cases ij)
  have v: "view ev s key = Some (VList xs, deadline_of ev s key)" using assms(1) by (simp add: list_of_Some)
  have w: "window start stop xs = slice (nat i) (nat (j + 1)) xs" using Some ij by (simp add: window_eq)
  have b: "0 \<le> i" "i \<le> j" "j < int (length xs)"
    using list_window_bounds [of start stop xs i j] Some ij by simp_all
  then have ne: "slice (nat i) (nat (j + 1)) xs \<noteq> []" by (intro slice_nonempty) auto
  show ?thesis
  proof (cases "i = 0 \<and> j = int (length xs) - 1")
    case True
    then have "slice (nat i) (nat (j + 1)) xs = xs" by (simp add: slice_def)
    then have same: "(view ev s)(key := list_entry (deadline_of ev s key) (window start stop xs)) = view ev s"
      using v assms(2) by (auto simp: w list_entry_def fun_eq_iff)
    show ?thesis unfolding same unfolding LTRIM_def get_list_eq assms(1) using Some ij True
      by (simp add: Let_def view_simps)
  next
    case False
    then show ?thesis unfolding LTRIM_def get_list_eq assms(1) w using Some ij v ne
      by (auto simp: Let_def view_simps list_entry_def fun_eq_iff)
  qed
qed

lemma lrem_loop_full: "limit \<noteq> 0 \<Longrightarrow> lrem_loop v limit xs limit kept = (limit, kept @ xs)"
  by (induction xs arbitrary: kept) auto

lemma lrem_loop_split:
  assumes "0 \<le> limit" "0 \<le> removed" "limit = 0 \<or> removed \<le> limit"
  shows "\<exists>ys zs. xs = ys @ zs
    \<and> lrem_loop v limit xs removed kept =
        (removed + int (count_list ys v), kept @ filter (\<lambda>x. x \<noteq> v) ys @ zs)
    \<and> (limit = 0 \<or> removed + int (count_list ys v) < limit \<longrightarrow> v \<notin> set zs)
    \<and> (limit = 0 \<or> removed + int (count_list ys v) \<le> limit)"
  using assms
proof (induction xs arbitrary: removed kept)
  case Nil
  then show ?case by auto
next
  case (Cons item rest)
  consider (drop) "item = v" "limit = 0 \<or> removed < limit" | (full) "item = v" "limit \<noteq> 0" "removed = limit"
    | (keep) "item \<noteq> v" using Cons.prems by fastforce
  then show ?case
  proof cases
    case drop
    then obtain ys zs where "rest = ys @ zs" "lrem_loop v limit rest (removed + 1) kept =
        (removed + 1 + int (count_list ys v), kept @ filter (\<lambda>x. x \<noteq> v) ys @ zs)"
      "limit = 0 \<or> removed + 1 + int (count_list ys v) < limit \<longrightarrow> v \<notin> set zs"
      "limit = 0 \<or> removed + 1 + int (count_list ys v) \<le> limit"
      using Cons.IH [of "removed + 1" kept] Cons.prems by auto
    then show ?thesis using drop by (intro exI [of _ "item # ys"] exI [of _ zs]) auto
  next
    case full
    then show ?thesis using lrem_loop_full [of limit v rest "kept @ [item]"]
      by (intro exI [of _ "[]"] exI [of _ "item # rest"]) auto
  next
    case keep
    then obtain ys zs where "rest = ys @ zs" "lrem_loop v limit rest removed (kept @ [item]) =
        (removed + int (count_list ys v), (kept @ [item]) @ filter (\<lambda>x. x \<noteq> v) ys @ zs)"
      "limit = 0 \<or> removed + int (count_list ys v) < limit \<longrightarrow> v \<notin> set zs"
      "limit = 0 \<or> removed + int (count_list ys v) \<le> limit"
      using Cons.IH [of removed "kept @ [item]"] Cons.prems by auto
    then show ?thesis using keep by (intro exI [of _ "item # ys"] exI [of _ zs]) auto
  qed
qed

lemma view_LREM:
  assumes "list_of (value_at ev s key) = Inr (Some xs)" "xs \<noteq> []" "lrem n v xs = (removed, kept)"
    and "removed = 0 \<Longrightarrow> kept = xs"
  shows "view ev (fst (LREM ev key n v s)) = (view ev s)(key := list_entry (deadline_of ev s key) kept)"
    and "snd (LREM ev key n v s) = Inr (RInt removed)"
proof -
  have at: "view ev s key = Some (VList xs, deadline_of ev s key)" using assms(1) by (simp add: list_of_Some)
  show "snd (LREM ev key n v s) = Inr (RInt removed)"
    unfolding LREM_def get_list_eq assms(1) using assms(3) by (simp add: Let_def)
  show "view ev (fst (LREM ev key n v s)) = (view ev s)(key := list_entry (deadline_of ev s key) kept)"
    unfolding LREM_def get_list_eq assms(1) using assms(2-4) at
    by (auto simp: Let_def view_simps list_entry_def fun_eq_iff)
qed

lemma view_move_events [view_simps]: "view ev (move_events src dst from_left to_left s) = view ev s"
  by (simp add: move_events_def view_simps)

lemma view_move_same:
  assumes "list_of (value_at ev s key) = Inr (Some xs)" "xs \<noteq> []" "pop_side from_left xs = (v, rest)"
  shows "view ev (fst (move ev key key from_left to_left s)) =
      (view ev s)(key \<mapsto> (VList (push_side to_left v rest), deadline_of ev s key))"
    and "snd (move ev key key from_left to_left s) = Inr (RBytes v)"
proof -
  have at: "view ev s key = Some (VList xs, deadline_of ev s key)" using assms(1) by (simp add: list_of_Some)
  show "snd (move ev key key from_left to_left s) = Inr (RBytes v)"
    unfolding move_def get_list_eq assms(1) using assms(2,3) by simp
  show "view ev (fst (move ev key key from_left to_left s)) =
      (view ev s)(key \<mapsto> (VList (push_side to_left v rest), deadline_of ev s key))"
    unfolding move_def get_list_eq assms(1) using assms(2,3) at by (simp add: view_simps)
qed

lemma view_move_other:
  assumes "list_of (value_at ev s src) = Inr (Some xs)" "xs \<noteq> []" "pop_side from_left xs = (v, rest)"
    and "dst \<noteq> src" "list_of (value_at ev s dst) = Inr lst"
  shows "view ev (fst (move ev src dst from_left to_left s)) =
      (view ev s)(src := list_entry (deadline_of ev s src) rest,
        dst \<mapsto> (VList (push_side to_left v (case lst of None \<Rightarrow> [] | Some ys \<Rightarrow> ys)), deadline_of ev s dst))"
    and "snd (move ev src dst from_left to_left s) = Inr (RBytes v)"
proof -
  have at: "view ev s src = Some (VList xs, deadline_of ev s src)" using assms(1) by (simp add: list_of_Some)
  have eq: "bindR (get_list ev dst (fst (srv_get ev src s))) f = f (fst (srv_get ev dst (fst (srv_get ev src s)))) lst"
    for f :: "'a server \<Rightarrow> bytes list option \<Rightarrow> 'a cmd_result"
    unfolding get_list_eq by (simp add: assms(5))
  show "snd (move ev src dst from_left to_left s) = Inr (RBytes v)"
    unfolding move_def get_list_eq [of ev src] assms(1) using assms(2-4) by (cases lst) (simp_all add: eq Let_def)
  show "view ev (fst (move ev src dst from_left to_left s)) =
      (view ev s)(src := list_entry (deadline_of ev s src) rest,
        dst \<mapsto> (VList (push_side to_left v (case lst of None \<Rightarrow> [] | Some ys \<Rightarrow> ys)), deadline_of ev s dst))"
  proof (cases lst)
    case None
    then have "view ev s dst = None" "deadline_of ev s dst = None"
      using assms(5) by (simp_all add: list_of_None deadline_of_def)
    then show ?thesis
      unfolding move_def get_list_eq [of ev src] assms(1) using assms(2-4) at None
      by (auto simp: eq Let_def view_simps list_entry_def fun_eq_iff)
  next
    case (Some ys)
    then have "view ev s dst = Some (VList ys, deadline_of ev s dst)" using assms(5) by (simp add: list_of_Some)
    then show ?thesis
      unfolding move_def get_list_eq [of ev src] assms(1) using assms(2-4) at Some
      by (auto simp: eq Let_def view_simps list_entry_def fun_eq_iff)
  qed
qed

text \<open>The positions of an element that a scan visits, from an index on.\<close>

fun hits :: "bytes \<Rightarrow> int \<Rightarrow> int \<Rightarrow> bytes list \<Rightarrow> int list" where
  "hits element maxlen index [] = []"
| "hits element maxlen index (item # rest) =
     (if maxlen \<noteq> 0 \<and> index \<ge> maxlen then []
      else (if item = element then [index] else []) @ hits element maxlen (index + 1) rest)"

lemma lpos_loop_hits:
  assumes "- 1 \<le> n" "0 < n \<longrightarrow> int (length found) < n"
  shows "lpos_loop element rank n maxlen position xs index matches found =
    (let ps = map position (drop (nat (rank - 1 - matches)) (hits element maxlen index xs)) in
     if n = - 1 then (case ps of [] \<Rightarrow> Inr found | p # _ \<Rightarrow> Inl p)
     else if n = 0 then Inr (found @ ps)
     else Inr (found @ take (nat n - length found) ps))"
  using assms(2)
proof (induction xs arbitrary: index matches found)
  case (Cons item rest)
  show ?case
  proof (cases "maxlen \<noteq> 0 \<and> index \<ge> maxlen \<or> item \<noteq> element")
    case True
    then show ?thesis using Cons by auto
  next
    case False
    then have go: "\<not> (maxlen \<noteq> 0 \<and> index \<ge> maxlen)" "item = element" by auto
    let ?k = "nat (rank - 1 - (matches + 1))"
    have h: "hits element maxlen index (item # rest) = index # hits element maxlen (index + 1) rest"
      using go by simp
    note IH = Cons.IH [where index = "index + 1" and matches = "matches + 1", unfolded Let_def]
    show ?thesis
    proof (cases "matches + 1 < rank")
      case True
      then have k: "nat (rank - 1 - matches) = Suc ?k" by simp
      show ?thesis unfolding h k drop_Suc_Cons Let_def IH [OF Cons.prems, symmetric] using go True by auto
    next
      case here: False
      then have k: "nat (rank - 1 - matches) = 0" "?k = 0" by auto
      have step: "lpos_loop element rank n maxlen position (item # rest) index matches found =
        (if n = - 1 then Inl (position index)
         else if n \<noteq> 0 \<and> int (length (found @ [position index])) \<ge> n then Inr (found @ [position index])
         else lpos_loop element rank n maxlen position rest (index + 1) (matches + 1) (found @ [position index]))"
        using go here by (auto simp: Let_def)
      note IH' = IH [of "found @ [position index]", unfolded k(2) drop_0]
      consider "n = - 1" | "n = 0" | "0 < n" "int (length found) + 1 \<ge> n" | "0 < n" "int (length found) + 1 < n"
        using assms(1) by linarith
      then show ?thesis
      proof cases
        case 3
        then have "nat n - length found = 1" using Cons.prems by auto
        then show ?thesis unfolding step h k Let_def using 3 by simp
      next
        case 4
        then have "nat n - length found = Suc (nat n - length (found @ [position index]))" by auto
        then show ?thesis unfolding step h k Let_def using 4 IH' by simp
      next
        case 2
        then show ?thesis unfolding step h k Let_def using IH' by simp
      next
        case 1
        then show ?thesis unfolding step h k Let_def by simp
      qed
    qed
  qed
qed (simp add: Let_def)

lemma hits_spec:
  "0 \<le> index \<Longrightarrow> 0 \<le> maxlen \<Longrightarrow> set (hits element maxlen index xs) =
     {index + int i |i. i < length xs \<and> xs ! i = element \<and> (maxlen = 0 \<or> index + int i < maxlen)}
   \<and> sorted_wrt (<) (hits element maxlen index xs)"
proof (induction xs arbitrary: index)
  case (Cons item rest)
  have IH: "set (hits element maxlen (index + 1) rest) =
     {index + 1 + int i |i. i < length rest \<and> rest ! i = element \<and> (maxlen = 0 \<or> index + 1 + int i < maxlen)}"
    "sorted_wrt (<) (hits element maxlen (index + 1) rest)"
    using Cons by auto
  have split: "{index + int i |i. i < length (item # rest) \<and> (item # rest) ! i = element \<and> (maxlen = 0 \<or> index + int i < maxlen)}
    = (if item = element \<and> (maxlen = 0 \<or> index < maxlen) then {index} else {}) \<union>
      {index + 1 + int i |i. i < length rest \<and> rest ! i = element \<and> (maxlen = 0 \<or> index + 1 + int i < maxlen)}"
    (is "?L = ?R")
  proof (intro equalityI subsetI)
    fix x assume "x \<in> ?L"
    then obtain i where i: "x = index + int i" "i < length (item # rest)" "(item # rest) ! i = element"
      "maxlen = 0 \<or> index + int i < maxlen" by auto
    show "x \<in> ?R"
    proof (cases i)
      case 0
      then show ?thesis using i by auto
    next
      case (Suc j)
      have "x = index + 1 + int j \<and> j < length rest \<and> rest ! j = element \<and> (maxlen = 0 \<or> index + 1 + int j < maxlen)"
        using i Suc by (simp add: add.assoc)
      then show ?thesis by blast
    qed
  next
    fix x assume "x \<in> ?R"
    then consider "x = index" "item = element" "maxlen = 0 \<or> index < maxlen"
      | j where "x = index + 1 + int j" "j < length rest" "rest ! j = element" "maxlen = 0 \<or> index + 1 + int j < maxlen"
      by (auto split: if_splits)
    then show "x \<in> ?L"
    proof cases
      case 1
      then have "x = index + int 0 \<and> 0 < length (item # rest) \<and> (item # rest) ! 0 = element
        \<and> (maxlen = 0 \<or> index + int 0 < maxlen)" by simp
      then show ?thesis by blast
    next
      case (2 j)
      then have "x = index + int (Suc j) \<and> Suc j < length (item # rest) \<and> (item # rest) ! Suc j = element
        \<and> (maxlen = 0 \<or> index + int (Suc j) < maxlen)" by (simp add: add.assoc)
      then show ?thesis by blast
    qed
  qed
  show ?case
  proof (cases "maxlen \<noteq> 0 \<and> index \<ge> maxlen")
    case True
    then show ?thesis by auto
  next
    case False
    then have "maxlen = 0 \<or> index < maxlen" by auto
    then show ?thesis unfolding split using IH False by auto
  qed
qed simp

section \<open>Properties\<close>

text \<open>
  C11: popping undoes pushing, at either end.  After a push of some values the same number of pops from
  the same end returns them last first, and the keyspace looks as before: the old list, or no key at
  all if there was none, with the old deadline.
\<close>

theorem push_pop_inverse:
  fixes left :: bool
  assumes "list_of (value_at ev s key) = Inr lst" "lst \<noteq> Some []" "vals \<noteq> []"
  defines "s' \<equiv> fst (push ev key vals left False s)"
  shows "snd (pop ev key (Some (int (length vals))) left s') = Inr (RList (map RBytes (rev vals)))
    \<and> view ev (fst (pop ev key (Some (int (length vals))) left s')) = view ev s"
proof -
  let ?old = "case lst of None \<Rightarrow> [] | Some xs \<Rightarrow> xs"
  let ?xs = "extend_side left vals ?old"
  have v: "view ev s' = (view ev s)(key \<mapsto> (VList ?xs, deadline_of ev s key))"
    unfolding s'_def using view_push(1) [OF assms(1), of False vals left] by simp
  then have at: "list_of (value_at ev s' key) = Inr (Some ?xs)" "deadline_of ev s' key = deadline_of ev s key"
    by (simp_all add: list_of_def value_at_def deadline_of_def)
  have ne: "0 < int (length vals)" "?xs \<noteq> []" using assms(3) by simp_all
  have m: "nat (min (int (length vals)) (int (length ?xs))) = length vals" by (simp add: extend_side_def)
  have many: "pop_many left (length vals) ?xs = (rev vals, ?old)"
    by (cases left) (simp_all add: extend_side_def pop_many_eq)
  have "(view ev s')(key := list_entry (deadline_of ev s key) ?old) = view ev s"
    using assms(1,2) by (cases lst) (auto simp: v list_entry_def list_of_None list_of_Some fun_eq_iff)
  then show ?thesis using view_pop [OF at(1) ne, of left] by (simp add: m many at(2))
qed

theorem push_pop_inverse_witness:
  "snd (LPOP demo_env ''k'' (Some 2) (fst (LPUSH demo_env ''k'' [''x'', ''y'']
     (with_keys [(''k'', VList [''a''])] :: unit server)))) = Inr (RList [RBytes ''y'', RBytes ''x''])"
  using push_pop_inverse [of demo_env "with_keys [(''k'', VList [''a''])] :: unit server" "''k''" "Some [''a'']"
      "[''x'', ''y'']" True]
  by (simp add: value_at_with_keys list_of_def LPOP_def LPUSH_def)

text \<open>
  \<^verbatim>\<open>LRANGE\<close> answers the inclusive window of the list, negative indexes counting from the
  tail and indexes outside clamped; \<^verbatim>\<open>LTRIM\<close> keeps exactly that window, removing the key when it
  is empty, with its deadline kept and no other key changed; reading everything after a trim is reading
  the window before it.
\<close>

theorem LRANGE_LTRIM:
  assumes "list_of (value_at ev s key) = Inr (Some xs)" "xs \<noteq> []"
  shows "snd (LRANGE ev key start stop s) = Inr (RList (map RBytes (window start stop xs)))
    \<and> view ev (fst (LTRIM ev key start stop s)) =
        (view ev s)(key := list_entry (deadline_of ev s key) (window start stop xs))
    \<and> snd (LRANGE ev key 0 (-1) (fst (LTRIM ev key start stop s))) = snd (LRANGE ev key start stop s)"
proof -
  have "list_of (value_at ev (fst (LTRIM ev key start stop s)) key) =
      Inr (if window start stop xs = [] then None else Some (window start stop xs))"
    by (simp add: value_at_def view_LTRIM [OF assms] list_of_def list_entry_def)
  from LRANGE_window [OF this, of 0 "-1"] show ?thesis
    using LRANGE_window [OF assms(1), of start stop] view_LTRIM [OF assms] by (simp add: window_full)
qed

theorem LRANGE_LTRIM_witness:
  "snd (LRANGE demo_env ''k'' (-2) 10 (with_keys [(''k'', VList [''a'', ''b'', ''c''])] :: unit server))
     = Inr (RList [RBytes ''b'', RBytes ''c''])"
  using LRANGE_LTRIM [of demo_env "with_keys [(''k'', VList [''a'', ''b'', ''c''])] :: unit server" "''k''"
      "[''a'', ''b'', ''c'']" "-2" 10]
  by (simp add: value_at_with_keys list_of_def window_def)

text \<open>
  \<^verbatim>\<open>LREM\<close> removes the occurrences of the value from the front part of the list (the back part
  for a negative count) and nothing else.  It answers how many, never more than the count unless the count
  is 0, and it stops early only when no occurrence is left; an emptied list removes the key.
\<close>

theorem LREM_correct:
  assumes "list_of (value_at ev s key) = Inr (Some xs)" "xs \<noteq> []"
  shows "\<exists>ys zs. (if 0 \<le> n then xs = ys @ zs else xs = zs @ ys)
    \<and> snd (LREM ev key n v s) = Inr (RInt (int (count_list ys v)))
    \<and> view ev (fst (LREM ev key n v s)) = (view ev s)(key := list_entry (deadline_of ev s key)
        (if 0 \<le> n then filter (\<lambda>x. x \<noteq> v) ys @ zs else zs @ filter (\<lambda>x. x \<noteq> v) ys))
    \<and> (n = 0 \<or> int (count_list ys v) < \<bar>n\<bar> \<longrightarrow> v \<notin> set zs)
    \<and> (n = 0 \<or> int (count_list ys v) \<le> \<bar>n\<bar>)"
proof -
  let ?l = "if 0 \<le> n then xs else rev xs"
  obtain ys zs where l: "?l = ys @ zs" "lrem_loop v \<bar>n\<bar> ?l 0 [] =
      (int (count_list ys v), filter (\<lambda>x. x \<noteq> v) ys @ zs)"
    "n = 0 \<or> int (count_list ys v) < \<bar>n\<bar> \<longrightarrow> v \<notin> set zs" "n = 0 \<or> int (count_list ys v) \<le> \<bar>n\<bar>"
    using lrem_loop_split [of "\<bar>n\<bar>" 0 ?l v "[]"] by auto
  have none: "count_list us v = 0 \<Longrightarrow> filter (\<lambda>x. x \<noteq> v) us = us" for us
    by (simp add: filter_id_conv count_list_0_iff) metis
  show ?thesis
  proof (cases "0 \<le> n")
    case True
    then have "lrem n v xs = (int (count_list ys v), filter (\<lambda>x. x \<noteq> v) ys @ zs)" "xs = ys @ zs"
      using l by (simp_all add: lrem_def)
    with view_LREM [OF assms this(1)] none l(3,4) True show ?thesis by (intro exI [of _ ys] exI [of _ zs]) auto
  next
    case False
    have rl: "xs = rev zs @ rev ys" using l(1) False by (metis rev_append rev_rev_ident)
    have "lrem n v xs = (int (count_list (rev ys) v), rev zs @ filter (\<lambda>x. x \<noteq> v) (rev ys))"
      using l False by (simp add: lrem_def rev_filter)
    with view_LREM [OF assms this] none [of "rev ys"] rl l(3,4) False show ?thesis
      by (intro exI [of _ "rev ys"] exI [of _ "rev zs"]) auto
  qed
qed

theorem LREM_correct_witness:
  "\<exists>ys zs. [''a'', ''b'', ''a'', ''a''] = zs @ ys \<and>
     snd (LREM demo_env ''k'' (-2) ''a'' (with_keys [(''k'', VList [''a'', ''b'', ''a'', ''a''])] :: unit server))
       = Inr (RInt (int (count_list ys ''a''))) \<and> int (count_list ys ''a'') \<le> 2"
  using LREM_correct [of demo_env "with_keys [(''k'', VList [''a'', ''b'', ''a'', ''a''])] :: unit server" "''k''"
      "[''a'', ''b'', ''a'', ''a'']" "-2" "''a''"]
  by (simp add: value_at_with_keys list_of_def) blast

text \<open>
  a move takes one element and loses none.  The reply is the element at the chosen end of the source,
  which loses it (and disappears when it was the last), and the destination gains it at the chosen end; on
  the same key the list is rotated.  The elements of the two lists together are the same before and after,
  and no other key changes.
\<close>

theorem move_conserves:
  assumes "list_of (value_at ev s src) = Inr (Some xs)" "xs \<noteq> []"
    and "list_of (value_at ev s dst) = Inr lst"
  shows "\<exists>v rest. pop_side from_left xs = (v, rest) \<and> mset xs = add_mset v (mset rest)
    \<and> snd (move ev src dst from_left to_left s) = Inr (RBytes v)
    \<and> (if dst = src
       then view ev (fst (move ev src dst from_left to_left s)) =
              (view ev s)(src := list_entry (deadline_of ev s src) (push_side to_left v rest))
            \<and> mset (push_side to_left v rest) = mset xs
       else let ys = (case lst of None \<Rightarrow> [] | Some ys \<Rightarrow> ys) in
            view ev (fst (move ev src dst from_left to_left s)) =
              (view ev s)(src := list_entry (deadline_of ev s src) rest,
                          dst := list_entry (deadline_of ev s dst) (push_side to_left v ys))
            \<and> mset rest + mset (push_side to_left v ys) = mset xs + mset ys)"
proof -
  obtain v rest where p: "pop_side from_left xs = (v, rest)" by (cases "pop_side from_left xs")
  have "mset xs = add_mset v (mset rest)"
  proof (cases from_left)
    case True
    then show ?thesis using p assms(2) by (cases xs) (auto simp: pop_side_def)
  next
    case False
    then show ?thesis using p assms(2) by (cases xs rule: rev_cases) (auto simp: pop_side_def)
  qed
  then show ?thesis
    using p view_move_same [OF assms(1,2) p, of to_left] view_move_other [OF assms(1,2) p _ assms(3), of to_left]
    by (intro exI [of _ v] exI [of _ rest]) (simp add: list_entry_def push_side_def Let_def)
qed

theorem move_conserves_witness:
  "snd (RPOPLPUSH demo_env ''a'' ''b'' (with_keys [(''a'', VList [''x'', ''y''])] :: unit server)) = Inr (RBytes ''y'')"
  using move_conserves [of demo_env "with_keys [(''a'', VList [''x'', ''y''])] :: unit server" "''a''"
      "[''x'', ''y'']" "''b''" None False True]
  by (simp add: value_at_with_keys list_of_def RPOPLPUSH_def pop_side_def)

text \<open>
  \<^verbatim>\<open>LPOS\<close> answers positions of the element in scanning order, from the head for a positive rank
  and from the tail for a negative one, looking at the first \<open>MAXLEN\<close> items only, skipping the first
  \<open>|RANK| - 1\<close> hits: without a count the first one left or nil, with count 0 all, otherwise the first
  ones.  The positions \<open>hits\<close> of a scan are exactly the matching ones, in increasing order.
\<close>

theorem LPOS_correct:
  assumes "- 1 \<le> lpos_count opts" "0 \<le> lpos_maxlen opts"
  shows "(lpos e opts xs =
    (let scanned = (if lpos_rank opts < 0 then rev xs else xs);
         position = (if lpos_rank opts < 0 then (\<lambda>i. int (length xs) - 1 - i) else (\<lambda>i. i));
         ps = map position (drop (nat (\<bar>lpos_rank opts\<bar> - 1)) (hits e (lpos_maxlen opts) 0 scanned))
     in if lpos_count opts = - 1 then (case ps of [] \<Rightarrow> Inr [] | p # _ \<Rightarrow> Inl p)
        else if lpos_count opts = 0 then Inr ps
        else Inr (take (nat (lpos_count opts)) ps)))
    \<and> set (hits e (lpos_maxlen opts) 0 ys) =
      {int i |i. i < length ys \<and> ys ! i = e \<and> (lpos_maxlen opts = 0 \<or> int i < lpos_maxlen opts)}
    \<and> sorted_wrt (<) (hits e (lpos_maxlen opts) 0 ys)"
proof (intro conjI)
  have len: "0 < lpos_count opts \<longrightarrow> int (length ([] :: int list)) < lpos_count opts" by simp
  show "lpos e opts xs =
    (let scanned = (if lpos_rank opts < 0 then rev xs else xs);
         position = (if lpos_rank opts < 0 then (\<lambda>i. int (length xs) - 1 - i) else (\<lambda>i. i));
         ps = map position (drop (nat (\<bar>lpos_rank opts\<bar> - 1)) (hits e (lpos_maxlen opts) 0 scanned))
     in if lpos_count opts = - 1 then (case ps of [] \<Rightarrow> Inr [] | p # _ \<Rightarrow> Inl p)
        else if lpos_count opts = 0 then Inr ps
        else Inr (take (nat (lpos_count opts)) ps))"
    unfolding lpos_def Let_def lpos_loop_hits [OF assms(1) len] by simp
  show "set (hits e (lpos_maxlen opts) 0 ys) =
      {int i |i. i < length ys \<and> ys ! i = e \<and> (lpos_maxlen opts = 0 \<or> int i < lpos_maxlen opts)}"
    and "sorted_wrt (<) (hits e (lpos_maxlen opts) 0 ys)"
    using hits_spec [of 0 "lpos_maxlen opts" e ys] assms(2) by simp_all
qed

theorem LPOS_correct_witness:
  "lpos ''b'' \<lparr>lpos_rank = - 1, lpos_count = 0, lpos_maxlen = 0\<rparr> [''a'', ''b'', ''c'', ''b''] = Inr [3, 1]"
  using LPOS_correct [of "\<lparr>lpos_rank = - 1, lpos_count = 0, lpos_maxlen = 0\<rparr>" "''b''"
      "[''a'', ''b'', ''c'', ''b'']"] by simp

end
