(* ===== verification/SetCmds.thy ===== *)
theory SetCmds
  imports ListCmds
begin

text \<open>
  The set commands of \<open>commands/set.py\<close>.  A stored Python set is an \<open>fset\<close>; \<^verbatim>\<open>list(cur)\<close> is
  its iteration order \<open>set_order\<close>, and \<^verbatim>\<open>cur.pop()\<close> takes the first member of that order.
\<close>

definition get_set :: "env \<Rightarrow> bytes \<Rightarrow> 'bm server \<Rightarrow> ('bm server, exn, bytes fset option) result" where
  "get_set ev key s =
     bindR (expect_kind ev key KIND_SET s)
       (\<lambda>s v. returns s (case v of Some (VSet S) \<Rightarrow> Some S | _ \<Rightarrow> None))"

fun get_sets :: "env \<Rightarrow> bytes list \<Rightarrow> bytes fset list \<Rightarrow> 'bm server \<Rightarrow> ('bm server, exn, bytes fset list) result"
  where
  "get_sets ev [] sets s = returns s sets"
| "get_sets ev (key # keys) sets s =
     (case srv_get ev key s of (s, cur) \<Rightarrow>
        (case cur of
           None \<Rightarrow> get_sets ev keys (sets @ [{||}]) s
         | Some (VSet S) \<Rightarrow> get_sets ev keys (sets @ [S]) s
         | Some _ \<Rightarrow> raise_error s WRONGTYPE))"

definition member_list :: "env \<Rightarrow> bytes fset \<Rightarrow> reply" where
  "member_list ev S = RList (map RBytes (set_order ev S))"

section \<open>Members\<close>

definition SADD :: "env \<Rightarrow> bytes \<Rightarrow> bytes list \<Rightarrow> 'bm server \<Rightarrow> 'bm cmd_result" where
  "SADD ev key vals s =
     (if vals = [] then raise_error s (arity ''sadd'')
      else
        bindR (get_set ev key s) (\<lambda>s cur.
          case cur of
            None \<Rightarrow>
              returns (after_write key ''sadd'' (upd_data (data_setitem key (VSet (fset_of_list vals))) s))
                (RInt (int (fcard (fset_of_list vals))))
          | Some S \<Rightarrow>
              let S' = S |\<union>| fset_of_list vals;
                  s = upd_data (data_mutate key (VSet S')) s;
                  added = int (fcard S') - int (fcard S)
              in returns (if added \<noteq> 0 then after_write key ''sadd'' s else s) (RInt added)))"

definition SCARD :: "env \<Rightarrow> bytes \<Rightarrow> 'bm server \<Rightarrow> 'bm cmd_result" where
  "SCARD ev key s =
     bindR (get_set ev key s) (\<lambda>s cur.
       returns s (RInt (case cur of None \<Rightarrow> 0 | Some S \<Rightarrow> int (fcard S))))"

definition SMEMBERS :: "env \<Rightarrow> bytes \<Rightarrow> 'bm server \<Rightarrow> 'bm cmd_result" where
  "SMEMBERS ev key s =
     bindR (get_set ev key s) (\<lambda>s cur.
       returns s (case cur of None \<Rightarrow> RList [] | Some S \<Rightarrow> member_list ev S))"

fun srem_loop :: "bytes list \<Rightarrow> bytes fset \<Rightarrow> int \<Rightarrow> bytes fset \<times> int" where
  "srem_loop [] S removed = (S, removed)"
| "srem_loop (member # rest) S removed =
     (if member |\<in>| S then srem_loop rest (S |-| {|member|}) (removed + 1) else srem_loop rest S removed)"

definition SREM :: "env \<Rightarrow> bytes \<Rightarrow> bytes list \<Rightarrow> 'bm server \<Rightarrow> 'bm cmd_result" where
  "SREM ev key members s =
     (if members = [] then raise_error s (arity ''srem'')
      else
        bindR (get_set ev key s) (\<lambda>s cur.
          case cur of
            None \<Rightarrow> returns s (RInt 0)
          | Some S \<Rightarrow>
              (case srem_loop members S 0 of (S', removed) \<Rightarrow>
                 let s = upd_data (data_mutate key (VSet S')) s;
                     s = (if removed \<noteq> 0 then after_write key ''srem'' s else s);
                     s = (if S' = {||}
                          then (let s = fst (srv_remove ev key s)
                                in if removed \<noteq> 0 then notify key ''del'' s else s)
                          else s)
                 in returns s (RInt removed))))"

definition SISMEMBER :: "env \<Rightarrow> bytes \<Rightarrow> bytes \<Rightarrow> 'bm server \<Rightarrow> 'bm cmd_result" where
  "SISMEMBER ev key v s =
     bindR (get_set ev key s) (\<lambda>s cur.
       returns s (RInt (case cur of None \<Rightarrow> 0 | Some S \<Rightarrow> if v |\<in>| S then 1 else 0)))"

definition SMISMEMBER :: "env \<Rightarrow> bytes \<Rightarrow> bytes list \<Rightarrow> 'bm server \<Rightarrow> 'bm cmd_result" where
  "SMISMEMBER ev key members s =
     (if members = [] then raise_error s (arity ''smismember'')
      else
        bindR (get_set ev key s) (\<lambda>s cur.
          returns s (RList (map
            (\<lambda>m. RInt (case cur of None \<Rightarrow> 0 | Some S \<Rightarrow> if m |\<in>| S then 1 else 0)) members))))"

definition SSCAN :: "env \<Rightarrow> bytes \<Rightarrow> bytes \<Rightarrow> bytes list \<Rightarrow> 'bm server \<Rightarrow> 'bm cmd_result" where
  "SSCAN ev key cursor options s =
     bindR (liftE s (parse_scan_cursor cursor)) (\<lambda>s _.
     bindR (liftE s (parse_scan_options options)) (\<lambda>s pattern.
     bindR (get_set ev key s) (\<lambda>s cur.
       returns s (RList [RBytes ''0'',
         case cur of
           None \<Rightarrow> RList []
         | Some S \<Rightarrow> RList (map RBytes (filter (glob_filter pattern) (set_order ev S)))]))))"

section \<open>Algebra\<close>

text \<open>\<^verbatim>\<open>reduce(op, sets[1:], set(sets[0]) if sets else set())\<close>\<close>

definition reduce_sets :: "(bytes fset \<Rightarrow> bytes fset \<Rightarrow> bytes fset) \<Rightarrow> bytes fset list \<Rightarrow> bytes fset" where
  "reduce_sets f sets = (case sets of [] \<Rightarrow> {||} | S # rest \<Rightarrow> foldl f S rest)"

definition set_algebra ::
  "(bytes fset \<Rightarrow> bytes fset \<Rightarrow> bytes fset) \<Rightarrow> bytes \<Rightarrow> env \<Rightarrow> bytes list \<Rightarrow> 'bm server \<Rightarrow> 'bm cmd_result" where
  "set_algebra f command ev keys s =
     (if keys = [] then raise_error s (arity command)
      else bindR (get_sets ev keys [] s) (\<lambda>s sets. returns s (member_list ev (reduce_sets f sets))))"

definition store_result :: "env \<Rightarrow> bytes \<Rightarrow> bytes fset \<Rightarrow> bytes \<Rightarrow> 'bm server \<Rightarrow> 'bm server \<times> int" where
  "store_result ev target r event s =
     (if r \<noteq> {||} then after_write target event (upd_data (data_setitem target (VSet r)) s)
      else fst (srv_remove ev target s), int (fcard r))"

definition set_algebra_store ::
  "(bytes fset \<Rightarrow> bytes fset \<Rightarrow> bytes fset) \<Rightarrow> bytes \<Rightarrow> env \<Rightarrow> bytes \<Rightarrow> bytes list \<Rightarrow> 'bm server \<Rightarrow> 'bm cmd_result"
  where
  "set_algebra_store f command ev target keys s =
     (if keys = [] then raise_error s (arity command)
      else
        bindR (get_sets ev keys [] s) (\<lambda>s sets.
          case store_result ev target (reduce_sets f sets) command s of (s, n) \<Rightarrow> returns s (RInt n)))"

definition SDIFF :: "env \<Rightarrow> bytes list \<Rightarrow> 'bm server \<Rightarrow> 'bm cmd_result" where
  "SDIFF = set_algebra (|-|) ''sdiff''"

definition SINTER :: "env \<Rightarrow> bytes list \<Rightarrow> 'bm server \<Rightarrow> 'bm cmd_result" where
  "SINTER = set_algebra (|\<inter>|) ''sinter''"

definition SUNION :: "env \<Rightarrow> bytes list \<Rightarrow> 'bm server \<Rightarrow> 'bm cmd_result" where
  "SUNION = set_algebra (|\<union>|) ''sunion''"

definition SDIFFSTORE :: "env \<Rightarrow> bytes \<Rightarrow> bytes list \<Rightarrow> 'bm server \<Rightarrow> 'bm cmd_result" where
  "SDIFFSTORE = set_algebra_store (|-|) ''sdiffstore''"

definition SINTERSTORE :: "env \<Rightarrow> bytes \<Rightarrow> bytes list \<Rightarrow> 'bm server \<Rightarrow> 'bm cmd_result" where
  "SINTERSTORE = set_algebra_store (|\<inter>|) ''sinterstore''"

definition SUNIONSTORE :: "env \<Rightarrow> bytes \<Rightarrow> bytes list \<Rightarrow> 'bm server \<Rightarrow> 'bm cmd_result" where
  "SUNIONSTORE = set_algebra_store (|\<union>|) ''sunionstore''"

fun sintercard_options :: "bytes list \<Rightarrow> int \<Rightarrow> error + int" where
  "sintercard_options [] limit = Inr limit"
| "sintercard_options [opt] limit = Inl SYNTAX"
| "sintercard_options (opt # raw # rest) limit =
     (if upper opt = ''LIMIT'' then
        (let limit = (case string2ll raw of None \<Rightarrow> - 1 | Some v \<Rightarrow> v)
         in if limit < 0 then Inl (err (''LIMIT can'' @ quote_char @ ''t be negative''))
            else sintercard_options rest limit)
      else Inl SYNTAX)"

fun sintercard_loop :: "bytes list \<Rightarrow> bytes fset list \<Rightarrow> int \<Rightarrow> int \<Rightarrow> int" where
  "sintercard_loop [] others limit n = n"
| "sintercard_loop (member # rest) others limit n =
     (if list_all (\<lambda>S. member |\<in>| S) others then
        (if limit \<noteq> 0 \<and> n + 1 \<ge> limit then n + 1 else sintercard_loop rest others limit (n + 1))
      else sintercard_loop rest others limit n)"

definition SINTERCARD :: "env \<Rightarrow> int \<Rightarrow> bytes list \<Rightarrow> 'bm server \<Rightarrow> 'bm cmd_result" where
  "SINTERCARD ev numkeys rest s =
     (if numkeys < 1 then raise_error s (err ''numkeys should be greater than 0'')
      else if numkeys > int (length rest) then
        raise_error s (err (''Number of keys can'' @ quote_char @ ''t be greater than number of args''))
      else
        let n = nat numkeys in
        bindR (liftE s (sintercard_options (drop n rest) 0)) (\<lambda>s limit.
        bindR (get_sets ev (take n rest) [] s) (\<lambda>s sets.
          let first = hd sets in
          if first = {||} then returns s (RInt 0)
          else returns s (RInt (sintercard_loop (set_order ev first) (tl sets) limit 0)))))"

section \<open>Moving, popping, sampling\<close>

definition SMOVE :: "env \<Rightarrow> bytes \<Rightarrow> bytes \<Rightarrow> bytes \<Rightarrow> 'bm server \<Rightarrow> 'bm cmd_result" where
  "SMOVE ev source target v s =
     bindR (get_set ev source s) (\<lambda>s src.
       case src of
         None \<Rightarrow> returns s (RInt 0)
       | Some S \<Rightarrow>
           if v |\<notin>| S then returns s (RInt 0)
           else
             bindR (get_set ev target s) (\<lambda>s dst.
               if target = source then
                 let s = upd_data (data_mutate source (VSet (finsert v (S |-| {|v|})))) s;
                     s = after_write source ''srem'' s
                 in returns (after_write target ''sadd'' s) (RInt 1)
               else
                 let S' = S |-| {|v|};
                     s = upd_data (data_mutate source (VSet S')) s;
                     (s, D) = (case dst of
                        None \<Rightarrow> (upd_data (data_setitem target (VSet {||})) s, {||})
                      | Some D \<Rightarrow> (s, D));
                     s = upd_data (data_mutate target (VSet (finsert v D))) s;
                     s = after_write source ''srem'' s;
                     s = (if S' = {||} then notify source ''del'' (fst (srv_remove ev source s)) else s)
                 in returns (after_write target ''sadd'' s) (RInt 1)))"

fun set_pops :: "env \<Rightarrow> nat \<Rightarrow> bytes fset \<Rightarrow> bytes list \<times> bytes fset" where
  "set_pops ev 0 S = ([], S)"
| "set_pops ev (Suc n) S =
     (let v = hd (set_order ev S) in
      case set_pops ev n (S |-| {|v|}) of (vs, S') \<Rightarrow> (v # vs, S'))"

definition SPOP :: "env \<Rightarrow> bytes \<Rightarrow> int option \<Rightarrow> 'bm server \<Rightarrow> 'bm cmd_result" where
  "SPOP ev key num s =
     (if num \<noteq> None \<and> the num < 0 then raise_error s NOT_POSITIVE
      else
        bindR (get_set ev key s) (\<lambda>s cur.
          case cur of
            None \<Rightarrow> returns s (if num = None then RResponse NIL else RList [])
          | Some S \<Rightarrow>
              if S = {||} then returns s (if num = None then RResponse NIL else RList [])
              else case num of
                None \<Rightarrow>
                  let v = hd (set_order ev S); S' = S |-| {|v|};
                      s = upd_data (data_mutate key (VSet S')) s;
                      s = after_write key ''spop'' s;
                      s = (if S' = {||} then notify key ''del'' (fst (srv_remove ev key s)) else s)
                  in returns s (RBytes v)
              | Some c \<Rightarrow>
                  if c = 0 then returns s (RList [])
                  else if c \<ge> int (fcard S) then
                    let s = after_write key ''spop'' s;
                        s = notify key ''del'' (fst (srv_remove ev key s))
                    in returns s (member_list ev S)
                  else
                    let s = after_write key ''spop'' s in
                    (case set_pops ev (nat c) S of (vs, S') \<Rightarrow>
                       returns (upd_data (data_mutate key (VSet S')) s) (RList (map RBytes vs)))))"

definition SRANDMEMBER :: "env \<Rightarrow> bytes \<Rightarrow> int option \<Rightarrow> 'bm server \<Rightarrow> 'bm cmd_result" where
  "SRANDMEMBER ev key num s =
     bindR (get_set ev key s) (\<lambda>s cur.
       case cur of
         None \<Rightarrow> returns s (if num = None then RResponse NIL else RList [])
       | Some S \<Rightarrow>
           if S = {||} then returns s (if num = None then RResponse NIL else RList [])
           else
             let members = set_order ev S; n = length members in
             returns s (case num of
               None \<Rightarrow> RBytes (members ! rng_choice ev 0 n)
             | Some c \<Rightarrow>
                 if c < 0 then RList (map (\<lambda>i. RBytes (members ! rng_choice ev i n)) [0..<nat (- c)])
                 else if c = 0 then RList []
                 else if c \<ge> int n then RList (map RBytes members)
                 else RList (map (\<lambda>i. RBytes (members ! i)) (rng_sample ev n (nat c)))))"

section \<open>Safety\<close>

definition set_of :: "'bm val option \<Rightarrow> error + bytes fset option" where
  "set_of v = (case v of None \<Rightarrow> Inr None | Some (VSet S) \<Rightarrow> Inr (Some S) | Some _ \<Rightarrow> Inl WRONGTYPE)"

lemma get_set_eq: "get_set ev key s = liftE (fst (srv_get ev key s)) (set_of (value_at ev s key))"
  by (simp add: get_set_def expect_kind_cases set_of_def split: option.splits val.splits)

lemma safe_get_set [safe_intros]: "safe s (fst (get_set ev key s))"
  by (simp add: get_set_eq safe_get)

lemma safe_get_sets [safe_intros]: "safe s (fst (get_sets ev keys sets s))"
proof (induction keys arbitrary: sets s)
  case (Cons key keys)
  then show ?case
    by (auto simp: case_prod_unfold intro!: safe_get safe_trans [OF safe_get Cons] split: option.splits val.splits)
qed simp

lemma fset_of_list_empty_iff [simp]: "fset_of_list xs = {||} \<longleftrightarrow> xs = []"
  by (cases xs) auto

lemma set_of_ok: "store_ok (data s) \<Longrightarrow> set_of (value_at ev s key) = Inr (Some S) \<Longrightarrow> S \<noteq> {||}"
  using value_at_ok [of s ev key] by (auto simp: set_of_def split: option.splits val.splits)

lemma safe_set_reads:
  "safe s (fst (SCARD ev key s))" "safe s (fst (SMEMBERS ev key s))" "safe s (fst (SISMEMBER ev key v s))"
  "safe s (fst (SMISMEMBER ev key vs s))" "safe s (fst (SSCAN ev key cursor options s))"
  "safe s (fst (SDIFF ev keys s))" "safe s (fst (SINTER ev keys s))" "safe s (fst (SUNION ev keys s))"
  "safe s (fst (SINTERCARD ev n keys s))" "safe s (fst (SRANDMEMBER ev key num s))"
  by (auto simp: SCARD_def SMEMBERS_def SISMEMBER_def SMISMEMBER_def SSCAN_def SDIFF_def SINTER_def SUNION_def
      set_algebra_def SINTERCARD_def SRANDMEMBER_def Let_def intro!: safe_bind safe_intros split: option.splits)

lemma safe_SADD: "safe s (fst (SADD ev key vals s))"
  by (auto simp: SADD_def Let_def intro!: safe_bind safe_intros split: option.splits)

lemma safe_SREM: "safe s (fst (SREM ev key members s))"
  by (auto simp: SREM_def Let_def case_prod_unfold
      intro!: safe_bind safe_intros safe_but_remove safe_but_intros split: option.splits)

lemma safe_set_algebra_store: "safe s (fst (set_algebra_store f command ev target keys s))"
  by (auto simp: set_algebra_store_def store_result_def intro!: safe_bind safe_intros safe_remove)

lemma subset_singleton_other: "S |\<subseteq>| {|v|} \<Longrightarrow> x |\<in>| S \<Longrightarrow> x \<noteq> v \<Longrightarrow> P"
  by auto

lemma safe_SMOVE: "safe s (fst (SMOVE ev source target v s))"
  by (auto simp: SMOVE_def Let_def intro!: safe_bind safe_intros safe_but_remove safe_but_after_write safe_but_notify
      safe_but_mutate_other safe_but_setitem_mutate safe_but_mutate split: option.splits)
    (meson subset_singleton_other)+

lemma set_order_props:
  assumes "env_ok ev"
  shows "distinct (set_order ev S)" "set (set_order ev S) = fset S" "length (set_order ev S) = fcard S"
proof -
  have o: "distinct (set_order ev S)" "fset_of_list (set_order ev S) = S" using assms by (auto simp: env_ok_def)
  show "distinct (set_order ev S)" by (rule o)
  show s: "set (set_order ev S) = fset S" using o(2) by (metis fset_of_list.rep_eq)
  show "length (set_order ev S) = fcard S"
    using distinct_card [OF o(1)] s by (simp add: fcard.rep_eq)
qed

lemma set_order_Nil: "env_ok ev \<Longrightarrow> set_order ev S = [] \<longleftrightarrow> S = {||}"
  using set_order_props(2) [of ev S] by (metis bot_fset.rep_eq fset_inject set_empty)

lemma hd_set_order: "env_ok ev \<Longrightarrow> S \<noteq> {||} \<Longrightarrow> hd (set_order ev S) |\<in>| S"
  using set_order_props(2) [of ev S] set_order_Nil [of ev S] hd_in_set by fastforce

lemma set_pops_spec:
  assumes "env_ok ev" "n \<le> fcard S"
  shows "set_pops ev n S = (vs, S') \<Longrightarrow>
    distinct vs \<and> length vs = n \<and> fset_of_list vs |\<inter>| S' = {||} \<and> fset_of_list vs |\<union>| S' = S"
  using assms(2)
proof (induction n arbitrary: S vs S')
  case (Suc n)
  let ?v = "hd (set_order ev S)"
  have "S \<noteq> {||}" using Suc.prems(2) by (auto simp: fcard_fempty)
  then have v: "?v |\<in>| S" by (rule hd_set_order [OF assms(1)])
  obtain vs' where vs: "set_pops ev n (S |-| {|?v|}) = (vs', S')" "vs = ?v # vs'"
    using Suc.prems by (auto simp: Let_def split: prod.splits)
  have "fcard (S |-| {|?v|}) = fcard S - 1" using v by simp
  then have *: "distinct vs' \<and> length vs' = n \<and> fset_of_list vs' |\<inter>| S' = {||} \<and> fset_of_list vs' |\<union>| S' = S |-| {|?v|}"
    using Suc.IH [OF vs(1)] Suc.prems by simp
  then have "?v |\<notin>| fset_of_list vs' |\<union>| S'" by simp
  then have "?v \<notin> set vs'" "?v |\<notin>| S'" by (auto simp: fset_of_list_elem)
  then show ?case using * v vs(2) by auto
qed simp

text \<open>Taking members out leaves none only when there were no more than that.\<close>

lemma safe_SPOP: "env_ok ev \<Longrightarrow> safe s (fst (SPOP ev key num s))"
proof -
  assume ev: "env_ok ev"
  have "snd (set_pops ev (nat c) S) \<noteq> {||}" if "c < int (fcard S)" "0 \<le> c" for c S
  proof -
    obtain vs S' where p: "set_pops ev (nat c) S = (vs, S')" by (cases "set_pops ev (nat c) S")
    then have "length vs = nat c" "fset_of_list vs |\<union>| S' = S" using set_pops_spec [OF ev _ p] that by auto
    moreover have "fcard (fset_of_list vs) \<le> length vs"
      by (simp add: fcard.rep_eq fset_of_list.rep_eq card_length)
    ultimately show ?thesis using p that by auto
  qed
  then show ?thesis
    by (auto simp: SPOP_def Let_def case_prod_unfold intro!: safe_bind safe_intros safe_but_remove safe_but_after_write
      safe_but_mutate safe_but_weaken [OF safe_refl] split: option.splits)
      (meson subset_singleton_other)+
qed

lemmas safe_set_cmds =
  safe_set_reads safe_SADD safe_SREM safe_SMOVE safe_SPOP
  safe_set_algebra_store [of _ "(|-|)" "''sdiffstore''", folded SDIFFSTORE_def]
  safe_set_algebra_store [of _ "(|\<inter>|)" "''sinterstore''", folded SINTERSTORE_def]
  safe_set_algebra_store [of _ "(|\<union>|)" "''sunionstore''", folded SUNIONSTORE_def]

section \<open>What the commands do to the view\<close>

text \<open>The operand a key stands for, the typed keys, and the entry of a key that holds a set.\<close>

definition operand :: "env \<Rightarrow> 'bm server \<Rightarrow> bytes \<Rightarrow> bytes fset" where
  "operand ev s key = (case value_at ev s key of Some (VSet S) \<Rightarrow> S | _ \<Rightarrow> {||})"

definition set_typed :: "env \<Rightarrow> 'bm server \<Rightarrow> bytes \<Rightarrow> bool" where
  "set_typed ev s key \<longleftrightarrow> (case value_at ev s key of None \<Rightarrow> True | Some (VSet S) \<Rightarrow> True | _ \<Rightarrow> False)"

definition set_entry :: "int option \<Rightarrow> bytes fset \<Rightarrow> ('bm val \<times> int option) option" where
  "set_entry t S = (if S = {||} then None else Some (VSet S, t))"

lemma set_typed_cases:
  assumes "set_typed ev s key"
  obtains "set_of (value_at ev s key) = Inr None" "operand ev s key = {||}" "view ev s key = None"
      "deadline_of ev s key = None"
    | S where "set_of (value_at ev s key) = Inr (Some S)" "operand ev s key = S"
      "view ev s key = Some (VSet S, deadline_of ev s key)"
proof (cases "view ev s key")
  case None
  then show ?thesis using that(1) by (simp add: value_at_def set_of_def operand_def deadline_of_def)
next
  case (Some x)
  then obtain S t where "x = (VSet S, t)"
    using assms by (cases x) (auto simp: set_typed_def value_at_def split: val.splits)
  then show ?thesis using that(2) Some by (simp add: value_at_def set_of_def operand_def deadline_of_def)
qed

lemma set_typed_cong: "view ev s = view ev s' \<Longrightarrow> set_typed ev s = set_typed ev s'"
  and operand_cong: "view ev s = view ev s' \<Longrightarrow> operand ev s = operand ev s'"
  using value_at_cong [of ev s s'] by (auto simp: set_typed_def operand_def fun_eq_iff)

lemma set_get [simp]:
  "set_typed ev (fst (srv_get ev k s)) = set_typed ev s" "operand ev (fst (srv_get ev k s)) = operand ev s"
  by (rule set_typed_cong operand_cong, rule view_get)+

lemma fcard_added: "int (fcard (S |\<union>| T)) - int (fcard S) = int (fcard (T |-| S))"
proof -
  have "card (fset S \<union> fset T) = card (fset S) + card (fset T - fset S)"
    using card_Un_disjoint [of "fset S" "fset T - fset S"] by simp
  then show ?thesis by (simp add: fcard.rep_eq)
qed

lemma view_SADD:
  assumes "set_typed ev s key" "vals \<noteq> []"
  shows "view ev (fst (SADD ev key vals s)) = (view ev s)(key \<mapsto>
      (VSet (operand ev s key |\<union>| fset_of_list vals), deadline_of ev s key))"
    and "snd (SADD ev key vals s) = Inr (RInt (int (fcard (fset_of_list vals |-| operand ev s key))))"
  using assms(1)
  by (cases rule: set_typed_cases;
      use assms(2) in \<open>simp add: SADD_def get_set_eq Let_def view_simps fcard_added if_distrib [of "view ev"] cong: if_cong\<close>)+

lemma srem_loop_eq:
  "srem_loop members S n = (S |-| fset_of_list members, n + int (fcard (S |\<inter>| fset_of_list members)))"
proof (induction members arbitrary: S n)
  case (Cons m members)
  show ?case
  proof (cases "m |\<in>| S")
    case True
    have rest: "S |-| {|m|} |-| fset_of_list members = S |-| fset_of_list (m # members)" by auto
    have "S |\<inter>| fset_of_list (m # members) = finsert m (S |-| {|m|} |\<inter>| fset_of_list members)"
      using True by auto
    then have "fcard (S |\<inter>| fset_of_list (m # members)) = Suc (fcard (S |-| {|m|} |\<inter>| fset_of_list members))"
      by (simp only:) (rule fcard_finsert_disjoint, auto)
    then show ?thesis using True Cons [of "S |-| {|m|}" "n + 1"] rest by simp
  next
    case False
    then have "S |-| fset_of_list (m # members) = S |-| fset_of_list members"
      "S |\<inter>| fset_of_list (m # members) = S |\<inter>| fset_of_list members" by auto
    then show ?thesis using False Cons by simp
  qed
qed (simp add: fcard_fempty)

lemma view_SREM:
  assumes "set_typed ev s key" "members \<noteq> []"
  shows "view ev (fst (SREM ev key members s)) =
      (view ev s)(key := set_entry (deadline_of ev s key) (operand ev s key |-| fset_of_list members))"
    and "snd (SREM ev key members s) = Inr (RInt (int (fcard (operand ev s key |\<inter>| fset_of_list members))))"
  using assms(1)
  by (cases rule: set_typed_cases;
      use assms(2) in \<open>auto simp: SREM_def get_set_eq Let_def view_simps srem_loop_eq set_entry_def
        fun_eq_iff\<close>)+

lemma get_sets_eq:
  assumes "\<forall>key\<in>set keys. set_typed ev s key"
  shows "\<exists>s'. get_sets ev keys sets s = returns s' (sets @ map (operand ev s) keys) \<and> view ev s' = view ev s"
  using assms
proof (induction keys arbitrary: sets s)
  case (Cons key keys)
  let ?s = "fst (srv_get ev key s)"
  have "\<exists>s'. get_sets ev keys (sets @ [operand ev s key]) ?s
      = returns s' ((sets @ [operand ev s key]) @ map (operand ev s) keys) \<and> view ev s' = view ev s"
    using Cons.IH [of ?s "sets @ [operand ev s key]"] Cons.prems by (simp add: view_get)
  moreover have "get_sets ev (key # keys) sets s = get_sets ev keys (sets @ [operand ev s key]) ?s"
    using Cons.prems
    by (auto simp: case_prod_unfold set_typed_def operand_def split: option.splits val.splits)
  ultimately show ?case by simp
qed simp

lemma set_order_list: "env_ok ev \<Longrightarrow> \<exists>ms. set_order ev S = ms \<and> distinct ms \<and> set ms = fset S"
  using set_order_props [of ev S] by simp

lemma reduce_algebra:
  "keys \<noteq> [] \<Longrightarrow> fset (reduce_sets (|\<inter>|) (map f keys)) = (\<Inter>key\<in>set keys. fset (f key))"
  "keys \<noteq> [] \<Longrightarrow> fset (reduce_sets (|\<union>|) (map f keys)) = (\<Union>key\<in>set keys. fset (f key))"
  "fset (reduce_sets (|-|) (map f (key # keys))) = fset (f key) - (\<Union>k\<in>set keys. fset (f k))"
proof -
  have i: "fset (foldl (|\<inter>|) S (map f ks)) = fset S \<inter> (\<Inter>k\<in>set ks. fset (f k))" for S ks
    by (induction ks arbitrary: S) auto
  have u: "fset (foldl (|\<union>|) S (map f ks)) = fset S \<union> (\<Union>k\<in>set ks. fset (f k))" for S ks
    by (induction ks arbitrary: S) auto
  have d: "fset (foldl (|-|) S (map f ks)) = fset S - (\<Union>k\<in>set ks. fset (f k))" for S ks
    by (induction ks arbitrary: S) auto
  show "keys \<noteq> [] \<Longrightarrow> fset (reduce_sets (|\<inter>|) (map f keys)) = (\<Inter>key\<in>set keys. fset (f key))"
    by (cases keys) (auto simp: reduce_sets_def i)
  show "keys \<noteq> [] \<Longrightarrow> fset (reduce_sets (|\<union>|) (map f keys)) = (\<Union>key\<in>set keys. fset (f key))"
    by (cases keys) (auto simp: reduce_sets_def u)
  show "fset (reduce_sets (|-|) (map f (key # keys))) = fset (f key) - (\<Union>k\<in>set keys. fset (f k))"
    by (simp add: reduce_sets_def d)
qed

lemma set_algebra_reply:
  assumes "env_ok ev" "keys \<noteq> []" "\<forall>key\<in>set keys. set_typed ev s key"
  shows "\<exists>ms. snd (set_algebra f command ev keys s) = Inr (RList (map RBytes ms)) \<and> distinct ms
    \<and> set ms = fset (reduce_sets f (map (operand ev s) keys))"
proof -
  obtain s' where "get_sets ev keys [] s = returns s' (map (operand ev s) keys)"
    using get_sets_eq [OF assms(3), of "[]"] by auto
  then show ?thesis
    using assms(2) set_order_list [OF assms(1)] by (auto simp: set_algebra_def member_list_def)
qed

lemma set_algebra_stored:
  assumes "keys \<noteq> []" "\<forall>key\<in>set keys. set_typed ev s key"
  shows "view ev (fst (set_algebra_store f command ev target keys s)) =
      (view ev s)(target := set_entry None (reduce_sets f (map (operand ev s) keys)))"
    and "snd (set_algebra_store f command ev target keys s) =
      Inr (RInt (int (fcard (reduce_sets f (map (operand ev s) keys)))))"
proof -
  obtain s' where s': "get_sets ev keys [] s = returns s' (map (operand ev s) keys)" "view ev s' = view ev s"
    using get_sets_eq [OF assms(2), of "[]"] by auto
  show "view ev (fst (set_algebra_store f command ev target keys s)) =
      (view ev s)(target := set_entry None (reduce_sets f (map (operand ev s) keys)))"
    using assms(1) s' by (auto simp: set_algebra_store_def store_result_def view_simps set_entry_def)
  show "snd (set_algebra_store f command ev target keys s) =
      Inr (RInt (int (fcard (reduce_sets f (map (operand ev s) keys)))))"
    using assms(1) s' by (auto simp: set_algebra_store_def store_result_def)
qed

lemma sintercard_loop_eq:
  "0 \<le> limit \<Longrightarrow> 0 \<le> n \<Longrightarrow> limit = 0 \<or> n < limit \<Longrightarrow>
   sintercard_loop ms others limit n =
     (let c = n + int (length (filter (\<lambda>m. list_all (\<lambda>S. m |\<in>| S) others) ms))
      in if limit = 0 then c else min limit c)"
proof (induction ms arbitrary: n)
  case (Cons m ms)
  then show ?case by (auto simp: Let_def min_def)
qed auto

lemma SINTERCARD_reply:
  assumes "env_ok ev" "keys \<noteq> []" "\<forall>key\<in>set keys. set_typed ev s key"
    and "sintercard_options options 0 = Inr limit" "0 \<le> limit"
  shows "snd (SINTERCARD ev (int (length keys)) (keys @ options) s) =
    Inr (RInt (let c = int (card (\<Inter>key\<in>set keys. fset (operand ev s key)))
               in if limit = 0 then c else min limit c))"
proof -
  obtain s' where g: "get_sets ev keys [] s = returns s' (map (operand ev s) keys)"
    using get_sets_eq [OF assms(3), of "[]"] by auto
  obtain key rest where k: "keys = key # rest" using assms(2) by (cases keys) auto
  let ?S = "operand ev s key" and ?others = "map (operand ev s) rest"
  have "length (filter (\<lambda>m. list_all (\<lambda>S. m |\<in>| S) ?others) (set_order ev ?S))
      = card (set (filter (\<lambda>m. list_all (\<lambda>S. m |\<in>| S) ?others) (set_order ev ?S)))"
    by (rule distinct_card [symmetric]) (simp add: set_order_props(1) [OF assms(1)])
  also have "set (filter (\<lambda>m. list_all (\<lambda>S. m |\<in>| S) ?others) (set_order ev ?S))
      = (\<Inter>key\<in>set keys. fset (operand ev s key))"
    using set_order_props(2) [OF assms(1)] by (auto simp: k list_all_iff)
  finally have len: "length (filter (\<lambda>m. list_all (\<lambda>S. m |\<in>| S) ?others) (set_order ev ?S))
      = card (\<Inter>key\<in>set keys. fset (operand ev s key))" .
  have hd: "hd (map (operand ev s) keys) = ?S" "tl (map (operand ev s) keys) = ?others" by (simp_all add: k)
  have "1 \<le> length keys" using assms(2) by (cases keys) auto
  then have eq: "snd (SINTERCARD ev (int (length keys)) (keys @ options) s) = Inr (RInt
      (if ?S = {||} then 0 else sintercard_loop (set_order ev ?S) ?others limit 0))"
    using assms(4) by (auto simp: SINTERCARD_def Let_def liftE_def g hd)
  show ?thesis
  proof (cases "?S = {||}")
    case True
    then have "(\<Inter>key\<in>set keys. fset (operand ev s key)) = {}" by (auto simp: k)
    then show ?thesis using True assms(5) by (simp add: eq)
  next
    case False
    then show ?thesis
      using assms(5) sintercard_loop_eq [of limit 0 "set_order ev ?S" ?others]
      by (auto simp: eq len Let_def)
  qed
qed

lemma view_SMOVE:
  assumes "set_typed ev s source" "set_typed ev s target" "v |\<in>| operand ev s source"
  shows "view ev (fst (SMOVE ev source target v s)) =
      (if source = target then view ev s
       else (view ev s)
         (source := set_entry (deadline_of ev s source) (operand ev s source |-| {|v|}),
          target \<mapsto> (VSet (finsert v (operand ev s target)), deadline_of ev s target)))"
    and "snd (SMOVE ev source target v s) = Inr (RInt 1)"
proof -
  obtain S where src: "set_of (value_at ev s source) = Inr (Some S)" "operand ev s source = S"
      "view ev s source = Some (VSet S, deadline_of ev s source)"
    using assms(1,3) by (cases rule: set_typed_cases) auto
  show "snd (SMOVE ev source target v s) = Inr (RInt 1)"
    using assms(2,3) src
    by (cases rule: set_typed_cases) (auto simp: SMOVE_def get_set_eq Let_def)
  show "view ev (fst (SMOVE ev source target v s)) =
      (if source = target then view ev s
       else (view ev s)
         (source := set_entry (deadline_of ev s source) (operand ev s source |-| {|v|}),
          target \<mapsto> (VSet (finsert v (operand ev s target)), deadline_of ev s target)))"
    using assms(2)
  proof (cases rule: set_typed_cases)
    case 1
    then show ?thesis using assms(3) src
      by (auto simp: SMOVE_def get_set_eq Let_def view_simps set_entry_def fun_eq_iff)
  next
    case (2 D)
    then show ?thesis using assms(3) src
      by (auto simp: SMOVE_def get_set_eq Let_def view_simps set_entry_def fun_eq_iff finsert_absorb)
  qed
qed

lemma SMOVE_absent:
  assumes "set_typed ev s source" "v |\<notin>| operand ev s source"
  shows "view ev (fst (SMOVE ev source target v s)) = view ev s \<and> snd (SMOVE ev source target v s) = Inr (RInt 0)"
  using assms by (cases rule: set_typed_cases) (auto simp: SMOVE_def get_set_eq view_simps)

lemma view_SPOP:
  assumes "env_ok ev" "set_typed ev s key" "0 \<le> c"
  shows "\<exists>vs. snd (SPOP ev key (Some c) s) = Inr (RList (map RBytes vs)) \<and> distinct vs
    \<and> set vs \<subseteq> fset (operand ev s key) \<and> length vs = min (nat c) (fcard (operand ev s key))
    \<and> (operand ev s key \<noteq> {||} \<longrightarrow> view ev (fst (SPOP ev key (Some c) s)) =
        (view ev s)(key := set_entry (deadline_of ev s key) (operand ev s key |-| fset_of_list vs)))"
  using assms(2)
proof (cases rule: set_typed_cases)
  case 1
  then show ?thesis by (intro exI [of _ "[]"]) (use assms(3) in \<open>simp add: SPOP_def get_set_eq fcard_fempty\<close>)
next
  case (2 S)
  note o = set_order_props [OF assms(1), of S]
  show ?thesis
  proof (cases "S = {||} \<or> c = 0")
    case True
    then show ?thesis using 2 assms(3)
      by (intro exI [of _ "[]"]) (auto simp: SPOP_def get_set_eq view_simps set_entry_def fcard_fempty fun_eq_iff)
  next
    case ne: False
    show ?thesis
    proof (cases "int (fcard S) \<le> c")
      case True
      have "S |-| fset_of_list (set_order ev S) = {||}"
        using o(2) by (simp add: fset_of_list.rep_eq less_eq_fset.rep_eq)
      then show ?thesis
        by (intro exI [of _ "set_order ev S"])
          (use 2 ne True o assms(3) in \<open>auto simp: SPOP_def get_set_eq Let_def view_simps member_list_def set_entry_def\<close>)
    next
      case False
      obtain vs S' where p: "set_pops ev (nat c) S = (vs, S')" by (cases "set_pops ev (nat c) S")
      then have *: "distinct vs" "length vs = nat c" "fset_of_list vs |\<inter>| S' = {||}" "fset_of_list vs |\<union>| S' = S"
        using set_pops_spec [OF assms(1) _ p] False by auto
      have S': "S' = S |-| fset_of_list vs" using *(3,4) by auto
      have sub: "set vs \<subseteq> fset S" using *(4) by (auto simp flip: fset_of_list.rep_eq)
      have "fcard (fset_of_list vs) \<le> nat c" using *(2) by (metis card_length fcard.rep_eq fset_of_list.rep_eq)
      then have "S' \<noteq> {||}" using False * assms(3) by auto
      then show ?thesis
        by (intro exI [of _ vs])
          (use 2 ne False p * sub S' assms(3) in \<open>auto simp: SPOP_def get_set_eq Let_def view_simps set_entry_def\<close>)
    qed
  qed
qed

lemma SRANDMEMBER_distinct:
  assumes "env_ok ev" "set_typed ev s key" "operand ev s key \<noteq> {||}" "0 < c"
  shows "\<exists>vs. snd (SRANDMEMBER ev key (Some c) s) = Inr (RList (map RBytes vs)) \<and> distinct vs
      \<and> set vs \<subseteq> fset (operand ev s key) \<and> length vs = min (nat c) (fcard (operand ev s key))
      \<and> view ev (fst (SRANDMEMBER ev key (Some c) s)) = view ev s"
proof -
  let ?S = "operand ev s key" and ?ms = "set_order ev (operand ev s key)"
  note o = set_order_props [OF assms(1), of ?S]
  have g: "set_of (value_at ev s key) = Inr (Some ?S)"
    using assms(2,3) by (cases rule: set_typed_cases) auto
  have v: "view ev (fst (SRANDMEMBER ev key (Some c) s)) = view ev s"
    using assms(3) by (simp add: SRANDMEMBER_def get_set_eq g Let_def view_simps)
  show ?thesis
  proof (cases "int (length ?ms) \<le> c")
    case True
    then show ?thesis
      by (intro exI [of _ ?ms]) (use assms(3,4) o v in \<open>auto simp: SRANDMEMBER_def get_set_eq g Let_def\<close>)
  next
    case False
    let ?is = "rng_sample ev (length ?ms) (nat c)"
    have i: "length ?is = nat c" "distinct ?is" "set ?is \<subseteq> {..<length ?ms}"
      using assms(1) False unfolding env_ok_def by simp_all
    then have "distinct (map ((!) ?ms) ?is)" "set (map ((!) ?ms) ?is) \<subseteq> set ?ms"
      using o(1) by (auto simp: distinct_map intro!: inj_on_nth)
    then show ?thesis
      by (intro exI [of _ "map ((!) ?ms) ?is"])
        (use assms(3,4) o v i False in \<open>auto simp: SRANDMEMBER_def get_set_eq g Let_def\<close>)
  qed
qed

section \<open>Properties\<close>

lemma env_ok_demo: "env_ok demo_env"
proof -
  have "fset_of_list (sorted_list_of_fset S) = S" for S :: "bytes fset"
    by (simp add: fset_inject [symmetric] fset_of_list.rep_eq)
  moreover have "distinct (sorted_list_of_fset S)" for S :: "bytes fset"
    by (simp add: sorted_list_of_fset.rep_eq)
  ultimately show ?thesis by (auto simp: env_ok_def demo_env_def)
qed

text \<open>
  \<^verbatim>\<open>SADD\<close> adds the given members and answers how many were new; \<^verbatim>\<open>SREM\<close> takes the given members
  out and answers how many were there, and a set it empties disappears.  Repeated arguments count once,
  the deadline is kept, and no other key changes.
\<close>

theorem set_members_correct:
  assumes "set_typed ev s key" "vals \<noteq> []"
  shows "view ev (fst (SADD ev key vals s)) = (view ev s)(key \<mapsto>
        (VSet (operand ev s key |\<union>| fset_of_list vals), deadline_of ev s key))
    \<and> snd (SADD ev key vals s) = Inr (RInt (int (card (set vals - fset (operand ev s key)))))
    \<and> view ev (fst (SREM ev key vals s)) =
        (view ev s)(key := set_entry (deadline_of ev s key) (operand ev s key |-| fset_of_list vals))
    \<and> snd (SREM ev key vals s) = Inr (RInt (int (card (fset (operand ev s key) \<inter> set vals))))"
  using view_SADD [OF assms] view_SREM [OF assms] by (simp add: fcard.rep_eq fset_of_list.rep_eq)

theorem set_members_correct_witness:
  "snd (SADD demo_env ''k'' [''b'', ''c'', ''c''] (with_keys [(''k'', VSet {|''a'', ''b''|})] :: unit server)) = Inr (RInt 1)
   \<and> snd (SREM demo_env ''k'' [''b'', ''c'', ''c''] (with_keys [(''k'', VSet {|''a'', ''b''|})] :: unit server)) = Inr (RInt 1)"
proof -
  let ?s = "with_keys [(''k'', VSet {|''a'', ''b''|})] :: unit server"
  have v: "set_typed demo_env ?s ''k''" "operand demo_env ?s ''k'' = {|''a'', ''b''|}"
    by (simp_all add: set_typed_def operand_def value_at_with_keys)
  have "card ({''b'', ''c'', ''c''} - {''a'', ''b''}) = 1" "card ({''a'', ''b''} \<inter> {''b'', ''c'', ''c''}) = 1"
    by code_simp+
  then show ?thesis using set_members_correct [OF v(1), of "[''b'', ''c'', ''c'']"] v(2) by simp
qed

text \<open>
  C12: the set algebra.  Over keys that hold sets or nothing, the replies list without duplicates the
  intersection, the union and the first set less the others; the storing forms put that set, without a
  deadline, in the place of whatever the target held, remove the target when the set is empty, change no
  other key, and answer the size of the set.
\<close>

theorem set_algebra_correct:
  fixes ev :: env and s :: "'bm server" and key :: bytes and keys :: "bytes list"
  assumes "env_ok ev" "\<forall>k\<in>set (key # keys). set_typed ev s k"
  defines "F \<equiv> \<lambda>k. fset (operand ev s k)"
  shows "(\<exists>ms. snd (SINTER ev (key # keys) s) = Inr (RList (map RBytes ms)) \<and> distinct ms
        \<and> set ms = (\<Inter>k\<in>set (key # keys). F k))
    \<and> (\<exists>ms. snd (SUNION ev (key # keys) s) = Inr (RList (map RBytes ms)) \<and> distinct ms
        \<and> set ms = (\<Union>k\<in>set (key # keys). F k))
    \<and> (\<exists>ms. snd (SDIFF ev (key # keys) s) = Inr (RList (map RBytes ms)) \<and> distinct ms
        \<and> set ms = F key - (\<Union>k\<in>set keys. F k))
    \<and> (\<exists>R. fset R = (\<Inter>k\<in>set (key # keys). F k)
        \<and> view ev (fst (SINTERSTORE ev target (key # keys) s)) = (view ev s)(target := set_entry None R)
        \<and> snd (SINTERSTORE ev target (key # keys) s) = Inr (RInt (int (fcard R))))
    \<and> (\<exists>R. fset R = (\<Union>k\<in>set (key # keys). F k)
        \<and> view ev (fst (SUNIONSTORE ev target (key # keys) s)) = (view ev s)(target := set_entry None R)
        \<and> snd (SUNIONSTORE ev target (key # keys) s) = Inr (RInt (int (fcard R))))
    \<and> (\<exists>R. fset R = F key - (\<Union>k\<in>set keys. F k)
        \<and> view ev (fst (SDIFFSTORE ev target (key # keys) s)) = (view ev s)(target := set_entry None R)
        \<and> snd (SDIFFSTORE ev target (key # keys) s) = Inr (RInt (int (fcard R))))"
proof -
  note r = reduce_algebra(1,2) [of "key # keys" "operand ev s", OF list.distinct(2)]
    reduce_algebra(3) [of "operand ev s" key keys]
  note reply = set_algebra_reply [OF assms(1) list.distinct(2) assms(2)]
  note stored = set_algebra_stored [OF list.distinct(2) assms(2)]
  show ?thesis
    unfolding SINTER_def SUNION_def SDIFF_def SINTERSTORE_def SUNIONSTORE_def SDIFFSTORE_def F_def stored
    unfolding r [symmetric]
    by (intro conjI reply; (rule exI, intro conjI, rule refl, rule refl, rule refl))
qed

theorem set_algebra_correct_witness:
  "\<exists>ms. snd (SDIFF demo_env [''x'', ''y'', ''z'']
       (with_keys [(''x'', VSet {|''a'', ''b''|}), (''y'', VSet {|''b'', ''c''|})] :: unit server))
     = Inr (RList (map RBytes ms)) \<and> distinct ms \<and> set ms = {''a''}"
proof -
  let ?s = "with_keys [(''x'', VSet {|''a'', ''b''|}), (''y'', VSet {|''b'', ''c''|})] :: unit server"
  have v: "\<forall>k\<in>set [''x'', ''y'', ''z'']. set_typed demo_env ?s k"
      "operand demo_env ?s ''x'' = {|''a'', ''b''|}" "operand demo_env ?s ''y'' = {|''b'', ''c''|}"
      "operand demo_env ?s ''z'' = {||}"
    by (simp_all add: set_typed_def operand_def value_at_with_keys)
  have e: "fset (operand demo_env ?s ''x'') - (\<Union>k\<in>set [''y'', ''z'']. fset (operand demo_env ?s k)) = {''a''}"
    by (auto simp: v)
  show ?thesis
    using set_algebra_correct [OF env_ok_demo v(1), THEN conjunct2, THEN conjunct2, THEN conjunct1] unfolding e .
qed

text \<open>
  \<^verbatim>\<open>SINTERCARD\<close> answers the size of the intersection, and at most the given limit, where a limit of
  zero means none.
\<close>

theorem SINTERCARD_correct:
  assumes "env_ok ev" "keys \<noteq> []" "\<forall>key\<in>set keys. set_typed ev s key"
    and "upper option = ''LIMIT''" "string2ll raw = Some limit" "0 \<le> limit"
  shows "snd (SINTERCARD ev (int (length keys)) (keys @ [option, raw]) s) =
    Inr (RInt (let c = int (card (\<Inter>key\<in>set keys. fset (operand ev s key)))
               in if limit = 0 then c else min limit c))"
  using SINTERCARD_reply [OF assms(1-3), of "[option, raw]" limit] assms(4-6) by simp

theorem SINTERCARD_correct_witness:
  "snd (SINTERCARD demo_env 2 [''x'', ''y'', ''limit'', ''1'']
     (with_keys [(''x'', VSet {|''a'', ''b'', ''c''|}), (''y'', VSet {|''b'', ''c''|})] :: unit server)) = Inr (RInt 1)"
proof -
  let ?s = "with_keys [(''x'', VSet {|''a'', ''b'', ''c''|}), (''y'', VSet {|''b'', ''c''|})] :: unit server"
  have v: "\<forall>k\<in>set [''x'', ''y'']. set_typed demo_env ?s k"
      "operand demo_env ?s ''x'' = {|''a'', ''b'', ''c''|}" "operand demo_env ?s ''y'' = {|''b'', ''c''|}"
    by (simp_all add: set_typed_def operand_def value_at_with_keys)
  have "(\<Inter>k\<in>set [''x'', ''y'']. fset (operand demo_env ?s k)) = {''b'', ''c''}" by (auto simp: v)
  then have c: "card (\<Inter>k\<in>set [''x'', ''y'']. fset (operand demo_env ?s k)) = 2" by simp
  have "upper ''limit'' = ''LIMIT''" "string2ll ''1'' = Some 1" by code_simp+
  from SINTERCARD_correct [OF env_ok_demo _ v(1) this] show ?thesis by (simp add: c del: set_simps)
qed

text \<open>
  \<^verbatim>\<open>SMOVE\<close> takes a member of the source to the target, both keeping their deadlines, and a source it
  empties disappears; onto its own key it changes nothing.  The target counts only as a set or a missing
  key, so a member is never taken out of the source and lost.
\<close>

theorem SMOVE_correct:
  assumes "set_typed ev s source" "set_typed ev s target"
  shows "(if v |\<in>| operand ev s source
      then snd (SMOVE ev source target v s) = Inr (RInt 1)
        \<and> view ev (fst (SMOVE ev source target v s)) =
          (if source = target then view ev s
           else (view ev s)
             (source := set_entry (deadline_of ev s source) (operand ev s source |-| {|v|}),
              target \<mapsto> (VSet (finsert v (operand ev s target)), deadline_of ev s target)))
      else snd (SMOVE ev source target v s) = Inr (RInt 0)
        \<and> view ev (fst (SMOVE ev source target v s)) = view ev s)"
  using view_SMOVE [OF assms] SMOVE_absent [OF assms(1)] by simp

theorem SMOVE_correct_witness:
  "snd (SMOVE demo_env ''x'' ''y'' ''a'' (with_keys [(''x'', VSet {|''a''|})] :: unit server)) = Inr (RInt 1)
   \<and> view demo_env (fst (SMOVE demo_env ''x'' ''y'' ''a'' (with_keys [(''x'', VSet {|''a''|})] :: unit server))) ''x'' = None"
proof -
  let ?s = "with_keys [(''x'', VSet {|''a''|})] :: unit server"
  have "set_typed demo_env ?s ''x''" "set_typed demo_env ?s ''y''" "operand demo_env ?s ''x'' = {|''a''|}"
    by (simp_all add: set_typed_def operand_def value_at_with_keys)
  then show ?thesis using SMOVE_correct [of demo_env ?s "''x''" "''y''" "''a''"] by (simp add: set_entry_def)
qed

text \<open>
  \<^verbatim>\<open>SPOP\<close> with a count takes that many distinct members out of the set, all of them when there are
  not more, answers exactly those, and removes a set it empties; \<^verbatim>\<open>SRANDMEMBER\<close> with a positive count answers as many distinct members and changes nothing.
\<close>

theorem SPOP_SRANDMEMBER_correct:
  assumes "env_ok ev" "set_typed ev s key" "operand ev s key \<noteq> {||}" "0 < c"
  shows "(\<exists>vs. snd (SPOP ev key (Some c) s) = Inr (RList (map RBytes vs)) \<and> distinct vs
      \<and> set vs \<subseteq> fset (operand ev s key) \<and> length vs = min (nat c) (fcard (operand ev s key))
      \<and> view ev (fst (SPOP ev key (Some c) s)) =
          (view ev s)(key := set_entry (deadline_of ev s key) (operand ev s key |-| fset_of_list vs)))
    \<and> (\<exists>vs. snd (SRANDMEMBER ev key (Some c) s) = Inr (RList (map RBytes vs)) \<and> distinct vs
      \<and> set vs \<subseteq> fset (operand ev s key) \<and> length vs = min (nat c) (fcard (operand ev s key))
      \<and> view ev (fst (SRANDMEMBER ev key (Some c) s)) = view ev s)"
proof
  show "\<exists>vs. snd (SPOP ev key (Some c) s) = Inr (RList (map RBytes vs)) \<and> distinct vs
      \<and> set vs \<subseteq> fset (operand ev s key) \<and> length vs = min (nat c) (fcard (operand ev s key))
      \<and> view ev (fst (SPOP ev key (Some c) s)) =
          (view ev s)(key := set_entry (deadline_of ev s key) (operand ev s key |-| fset_of_list vs))"
    using view_SPOP [OF assms(1,2), of c] assms(3,4) by auto
  show "\<exists>vs. snd (SRANDMEMBER ev key (Some c) s) = Inr (RList (map RBytes vs)) \<and> distinct vs
      \<and> set vs \<subseteq> fset (operand ev s key) \<and> length vs = min (nat c) (fcard (operand ev s key))
      \<and> view ev (fst (SRANDMEMBER ev key (Some c) s)) = view ev s"
    by (rule SRANDMEMBER_distinct [OF assms])
qed

theorem SPOP_SRANDMEMBER_correct_witness:
  "\<exists>vs. snd (SPOP demo_env ''k'' (Some 2) (with_keys [(''k'', VSet {|''a'', ''b'', ''c''|})] :: unit server))
     = Inr (RList (map RBytes vs)) \<and> length vs = 2"
proof -
  let ?s = "with_keys [(''k'', VSet {|''a'', ''b'', ''c''|})] :: unit server"
  have v: "set_typed demo_env ?s ''k''" "operand demo_env ?s ''k'' = {|''a'', ''b'', ''c''|}"
    by (simp_all add: set_typed_def operand_def value_at_with_keys)
  have "fcard {|''a'', ''b'', ''c''|} = 3" by code_simp
  then show ?thesis using SPOP_SRANDMEMBER_correct [OF env_ok_demo v(1), of 2] v(2) by auto
qed

end
