(* ===== verification/KeyspaceCmds.thy ===== *)
theory KeyspaceCmds
  imports StringCmds
begin

text \<open>
  The commands of \<open>commands/basic.py\<close> on keys of any kind: deletion, expiration, listing, type,
  flushing, and the connection commands \<^verbatim>\<open>PING\<close> and \<^verbatim>\<open>ECHO\<close>.
\<close>

section \<open>Deletion and existence\<close>

fun del_loop :: "env \<Rightarrow> bytes list \<Rightarrow> int \<Rightarrow> 'bm server \<Rightarrow> 'bm cmd_result" where
  "del_loop ev [] removed s = returns s (RInt removed)"
| "del_loop ev (key # keys) removed s =
     (case srv_remove ev key s of
        (s, n) \<Rightarrow>
          if n \<noteq> 0 then del_loop ev keys (removed + 1) (after_write key ''del'' s)
          else del_loop ev keys removed s)"

definition DEL :: "env \<Rightarrow> bytes list \<Rightarrow> 'bm server \<Rightarrow> 'bm cmd_result" where
  "DEL ev keys s = (if keys = [] then raise_error s (arity ''del'') else del_loop ev keys 0 s)"

definition count_live :: "env \<Rightarrow> bytes list \<Rightarrow> 'bm server \<Rightarrow> int" where
  "count_live ev keys s = int (length (filter (data_contains ev (data s)) keys))"

definition EXISTS :: "env \<Rightarrow> bytes list \<Rightarrow> 'bm server \<Rightarrow> 'bm cmd_result" where
  "EXISTS ev keys s =
     (if keys = [] then raise_error s (arity ''exists'') else returns s (RInt (count_live ev keys s)))"

definition TOUCH :: "env \<Rightarrow> bytes list \<Rightarrow> 'bm server \<Rightarrow> 'bm cmd_result" where
  "TOUCH ev keys s =
     (if keys = [] then raise_error s (arity ''touch'') else returns s (RInt (count_live ev keys s)))"

section \<open>Expiration\<close>

definition expire_notify :: "env \<Rightarrow> bytes \<Rightarrow> int \<Rightarrow> bool \<Rightarrow> 'bm server \<Rightarrow> 'bm server" where
  "expire_notify ev key r live_before s =
     (if r = 0 then s
      else after_write key
        (if live_before \<and> \<not> data_is_live ev (data s) key then ''del'' else ''expire'') s)"

definition EXPIRE :: "env \<Rightarrow> bytes \<Rightarrow> int \<Rightarrow> 'bm server \<Rightarrow> 'bm cmd_result" where
  "EXPIRE ev key secs s =
     (let live_before = data_is_live ev (data s) key
      in case lift_data (data_expire ev key secs) s of
           (s, r) \<Rightarrow> returns (expire_notify ev key r live_before s) (RInt r))"

definition expire_until :: "env \<Rightarrow> bytes \<Rightarrow> int \<Rightarrow> 'bm server \<Rightarrow> 'bm cmd_result" where
  "expire_until ev key wall_deadline s =
     (let live_before = data_is_live ev (data s) key
      in case lift_data (data_expire_at ev key wall_deadline) s of
           (s, r) \<Rightarrow> returns (expire_notify ev key r live_before s) (RInt r))"

definition PEXPIRE :: "env \<Rightarrow> bytes \<Rightarrow> int \<Rightarrow> 'bm server \<Rightarrow> 'bm cmd_result" where
  "PEXPIRE ev key ms s = expire_until ev key (wall_ns ev + ms * 1000000) s"

definition EXPIREAT :: "env \<Rightarrow> bytes \<Rightarrow> int \<Rightarrow> 'bm server \<Rightarrow> 'bm cmd_result" where
  "EXPIREAT ev key ts s = expire_until ev key (ts * 1000000000) s"

definition PEXPIREAT :: "env \<Rightarrow> bytes \<Rightarrow> int \<Rightarrow> 'bm server \<Rightarrow> 'bm cmd_result" where
  "PEXPIREAT ev key ts s = expire_until ev key (ts * 1000000) s"

definition PERSIST :: "env \<Rightarrow> bytes \<Rightarrow> 'bm server \<Rightarrow> 'bm cmd_result" where
  "PERSIST ev key s =
     (case data_persist ev key (data s) of
        (d, r) \<Rightarrow>
          let s = s\<lparr>data := d\<rparr>
          in returns (if r \<noteq> 0 then after_write key ''persist'' s else s) (RInt r))"

definition EXPIRETIME :: "env \<Rightarrow> bytes \<Rightarrow> 'bm server \<Rightarrow> 'bm cmd_result" where
  "EXPIRETIME ev key s =
     (case lift_data (data_wall_expiry ev key) s of
        (s, v) \<Rightarrow> returns s (RInt (if v > 0 then v div 1000000000 else v)))"

definition PEXPIRETIME :: "env \<Rightarrow> bytes \<Rightarrow> 'bm server \<Rightarrow> 'bm cmd_result" where
  "PEXPIRETIME ev key s =
     (case lift_data (data_wall_expiry ev key) s of
        (s, v) \<Rightarrow> returns s (RInt (if v > 0 then v div 1000000 else v)))"

definition TTL :: "env \<Rightarrow> bytes \<Rightarrow> 'bm server \<Rightarrow> 'bm cmd_result" where
  "TTL ev key s = (case lift_data (data_ttl ev key) s of (s, v) \<Rightarrow> returns s (RInt v))"

definition PTTL :: "env \<Rightarrow> bytes \<Rightarrow> 'bm server \<Rightarrow> 'bm cmd_result" where
  "PTTL ev key s = (case lift_data (data_ttl_ms ev key) s of (s, v) \<Rightarrow> returns s (RInt v))"

section \<open>Listing\<close>

definition KEYS :: "env \<Rightarrow> bytes \<Rightarrow> 'bm server \<Rightarrow> 'bm cmd_result" where
  "KEYS ev pattern s =
     (case lift_data (data_iter ev) s of
        (s, keys) \<Rightarrow> returns s (RList (map RBytes (filter (compile_glob pattern) keys))))"

text \<open>The options of \<^verbatim>\<open>SCAN\<close>: the pattern and the type filter.\<close>

fun scan_loop :: "bytes list \<Rightarrow> bytes option \<Rightarrow> bytes option \<Rightarrow> error + bytes option \<times> bytes option" where
  "scan_loop [] pattern type_filter = Inr (pattern, type_filter)"
| "scan_loop [opt] pattern type_filter = Inl SYNTAX"
| "scan_loop (opt # v # rest) pattern type_filter =
     (if upper opt = ''MATCH'' then scan_loop rest (Some v) type_filter
      else if upper opt = ''COUNT'' then
        (case string2ll v of
           None \<Rightarrow> Inl NOT_INT
         | Some count \<Rightarrow> if count < 1 then Inl SYNTAX else scan_loop rest pattern type_filter)
      else if upper opt = ''TYPE'' then scan_loop rest pattern (Some (ascii_replace (lower v)))
      else Inl SYNTAX)"

fun scan_keys ::
  "env \<Rightarrow> bytes option \<Rightarrow> bytes option \<Rightarrow> bytes list \<Rightarrow> bytes list \<Rightarrow> 'bm server \<Rightarrow> 'bm server \<times> bytes list"
  where
  "scan_keys ev pattern type_filter [] keys s = (s, keys)"
| "scan_keys ev pattern type_filter (key # rest) keys s =
     (if \<not> glob_filter pattern key then scan_keys ev pattern type_filter rest keys s
      else case type_filter of
        None \<Rightarrow> scan_keys ev pattern type_filter rest (keys @ [key]) s
      | Some t \<Rightarrow>
          (case srv_get ev key s of
             (s, None) \<Rightarrow> scan_keys ev pattern type_filter rest keys s
           | (s, Some v) \<Rightarrow>
               if TYPE_NAMES (kind_of v) \<noteq> t then scan_keys ev pattern type_filter rest keys s
               else scan_keys ev pattern type_filter rest (keys @ [key]) s))"

definition SCAN :: "env \<Rightarrow> bytes \<Rightarrow> bytes list \<Rightarrow> 'bm server \<Rightarrow> 'bm cmd_result" where
  "SCAN ev cursor options s =
     bindR (liftE s (parse_scan_cursor cursor)) (\<lambda>s cursor_value.
       if cursor_value \<noteq> 0 then returns s (RList [RBytes ''0'', RList []])
       else
         bindR (liftE s (scan_loop options None None)) (\<lambda>s (pattern, type_filter).
           case lift_data (data_iter ev) s of
             (s, all) \<Rightarrow>
               (case scan_keys ev pattern type_filter all [] s of
                  (s, keys) \<Rightarrow> returns s (RList [RBytes ''0'', RList (map RBytes keys)]))))"

definition DBSIZE :: "env \<Rightarrow> 'bm server \<Rightarrow> 'bm cmd_result" where
  "DBSIZE ev s = (case lift_data (data_len ev) s of (s, n) \<Rightarrow> returns s (RInt (int n)))"

definition TYPE_cmd :: "env \<Rightarrow> bytes \<Rightarrow> 'bm server \<Rightarrow> 'bm cmd_result" where
  "TYPE_cmd ev key s =
     (case srv_get ev key s of
        (s, None) \<Rightarrow> returns s (RSimple ''none'')
      | (s, Some v) \<Rightarrow> returns s (RSimple (TYPE_NAMES (kind_of v))))"

section \<open>Flushing and the connection\<close>

definition flush_all :: "'bm server \<Rightarrow> 'bm cmd_result" where
  "flush_all s =
     (let s = upd_data data_clear s
      in returns (s\<lparr>persistence := map_option (\<lambda>rows. []) (persistence s)\<rparr>) (RResponse OK))"

definition FLUSHDB :: "'bm server \<Rightarrow> 'bm cmd_result" where "FLUSHDB s = flush_all s"

definition FLUSHALL :: "'bm server \<Rightarrow> 'bm cmd_result" where "FLUSHALL s = flush_all s"

definition PING :: "bytes option \<Rightarrow> 'bm server \<Rightarrow> 'bm cmd_result" where
  "PING message s = returns s (case message of Some m \<Rightarrow> RBytes m | None \<Rightarrow> RResponse PONG)"

definition ECHO :: "bytes \<Rightarrow> 'bm server \<Rightarrow> 'bm cmd_result" where
  "ECHO message s = returns s (RBytes message)"

section \<open>Safety\<close>

lemma safe_lift': "safe s s' \<Longrightarrow> (store_ok (data s') \<Longrightarrow> store_ok (fst (f (data s')))) \<Longrightarrow>
    safe s (fst (lift_data f s'))"
  by (rule safe_trans [OF _ safe_lift])

lemma safe_del_loop: "safe s (fst (del_loop ev keys removed s))"
proof (induction keys arbitrary: removed s)
  case (Cons key keys)
  obtain s1 n where r: "srv_remove ev key s = (s1, n)" by (cases "srv_remove ev key s")
  then have "safe s s1" using safe_remove [of s ev key] by simp
  moreover from this have "safe s (after_write key ''del'' s1)" by (rule safe_after_write')
  ultimately show ?case using Cons r by (auto intro: safe_trans)
qed simp

lemma safe_keyspace_reads:
  "safe s (fst (DEL ev keys s))" "safe s (fst (EXISTS ev keys s))" "safe s (fst (TOUCH ev keys s))"
  "safe s (fst (TTL ev key s))" "safe s (fst (PTTL ev key s))"
  "safe s (fst (EXPIRETIME ev key s))" "safe s (fst (PEXPIRETIME ev key s))"
  "safe s (fst (KEYS ev pattern s))" "safe s (fst (DBSIZE ev s))" "safe s (fst (TYPE_cmd ev key s))"
  "safe s (fst (PING message s))" "safe s (fst (ECHO msg s))"
  by (auto simp: DEL_def EXISTS_def TOUCH_def TTL_def PTTL_def EXPIRETIME_def PEXPIRETIME_def KEYS_def
      DBSIZE_def TYPE_cmd_def PING_def ECHO_def safe_del_loop case_prod_unfold
      intro!: safe_lift safe_get store_ok_reads store_ok_sweeps split: option.splits)

lemma safe_expire_notify: "safe s s' \<Longrightarrow> safe s (expire_notify ev key r live_before s')"
  by (simp add: expire_notify_def safe_after_write')

lemma safe_expiration:
  "safe s (fst (EXPIRE ev key secs s))" "safe s (fst (expire_until ev key w s))"
  "safe s (fst (PERSIST ev key s))"
proof -
  have "safe s (s\<lparr>data := fst (data_persist ev key (data s))\<rparr>)" for s :: "'a server"
    by (simp add: safe_def quiet_set_data store_ok_expires)
  then show "safe s (fst (PERSIST ev key s))"
    by (auto simp: PERSIST_def Let_def case_prod_unfold intro: safe_after_write')
qed (auto simp: EXPIRE_def expire_until_def Let_def case_prod_unfold
      intro!: safe_expire_notify safe_lift store_ok_expires)

lemma safe_scan_keys: "safe s (fst (scan_keys ev pattern type_filter all keys s))"
proof (induction all arbitrary: keys s)
  case (Cons key rest)
  obtain s1 v where g: "srv_get ev key s = (s1, v)" by (cases "srv_get ev key s")
  then have "safe s s1" using safe_get [of s ev key] by simp
  then have "safe s (fst (scan_keys ev pattern type_filter rest ks s1))" for ks
    using Cons safe_trans by blast
  then show ?case using Cons g by (auto split: option.splits)
qed simp

lemma safe_SCAN: "safe s (fst (SCAN ev cursor options s))"
proof -
  have "safe s (fst (scan_keys ev pattern type_filter keys ks (fst (lift_data (data_iter ev) s))))"
    for pattern type_filter keys ks and s :: "'a server"
    by (rule safe_trans [OF safe_lift safe_scan_keys]) (rule store_ok_sweeps)
  then show ?thesis
    by (auto simp: SCAN_def case_prod_unfold intro!: safe_bind split: prod.splits)
qed

lemma safe_flush_all: "safe s (fst (flush_all s))"
  by (simp add: flush_all_def Let_def safe_def quiet_def upd_data_def store_ok_clear)

lemmas safe_keyspace_cmds = safe_keyspace_reads safe_expiration safe_SCAN safe_flush_all

section \<open>What the commands do to the view\<close>

lemma del_loop_eq:
  "view ev (fst (del_loop ev keys removed s)) =
      (\<lambda>key. if key \<in> set keys then None else view ev s key) \<and>
   snd (del_loop ev keys removed s) = Inr (RInt (removed + int (card (set keys \<inter> dom (view ev s)))))"
proof (induction keys arbitrary: removed s)
  case (Cons key keys)
  obtain s1 n where r: "srv_remove ev key s = (s1, n)" by (cases "srv_remove ev key s")
  have v: "view ev s1 = (view ev s)(key := None)" using view_remove [of ev key s] r by simp
  have n: "n = (if view ev s key = None then 0 else 1)" using srv_remove_result [of ev key s] r by simp
  have split: "insert key (set keys) \<inter> dom (view ev s) =
      (if view ev s key = None then set keys \<inter> dom (view ev s1)
       else insert key (set keys \<inter> dom (view ev s1)))"
    by (auto simp: v)
  have p: "view ev s1 x = (if x = key then None else view ev s x)" for x by (simp add: v)
  have "key \<notin> set keys \<inter> dom (view ev s1)" by (simp add: p domIff)
  then have card: "card (insert key (set keys) \<inter> dom (view ev s)) =
      (if view ev s key = None then 0 else 1) + card (set keys \<inter> dom (view ev s1))"
    unfolding split by simp
  show ?case
  proof (cases "view ev s key")
    case None
    then have step: "del_loop ev (key # keys) removed s = del_loop ev keys removed s1" by (simp add: r n)
    have "view ev (fst (del_loop ev keys removed s1)) =
        (\<lambda>k. if k \<in> set (key # keys) then None else view ev s k)"
      using Cons [of removed s1] p by auto
    then show ?thesis using Cons [of removed s1] card None by (simp only: step) simp
  next
    case (Some e)
    let ?s2 = "after_write key ''del'' s1"
    have step: "del_loop ev (key # keys) removed s = del_loop ev keys (removed + 1) ?s2"
      using Some by (simp add: r n)
    have "view ev (fst (del_loop ev keys (removed + 1) ?s2)) =
        (\<lambda>k. if k \<in> set (key # keys) then None else view ev s k)"
      using Cons [of "removed + 1" ?s2] p by (auto simp: view_after_write)
    then show ?thesis
      using Cons [of "removed + 1" ?s2] card Some by (simp only: step view_after_write) simp
  qed
qed (simp add: fun_eq_iff)

lemma is_live_view: "data_is_live ev (data s) key \<longleftrightarrow> view ev s key \<noteq> None"
  by (simp add: data_is_live_def view_def peek_def split: option.splits)

lemma view_expire_notify [view_simps]: "view ev (expire_notify ev key r live_before s) = view ev s"
  by (simp add: expire_notify_def view_simps)

text \<open>A deadline on the wall clock, as the store sees it.\<close>

definition deadline_entry :: "env \<Rightarrow> 'bm val \<Rightarrow> int \<Rightarrow> ('bm val \<times> int option) option" where
  "deadline_entry ev v w =
     (if w \<le> wall_ns ev then None else Some (v, Some (mono_ns ev + (w - wall_ns ev))))"

lemma view_expire_until:
  "view ev (fst (expire_until ev key w s)) =
      (view ev s)(key := (case view ev s key of None \<Rightarrow> None | Some (v, _) \<Rightarrow> deadline_entry ev v w))"
  "snd (expire_until ev key w s) = Inr (RInt (of_bool (view ev s key \<noteq> None)))"
proof -
  show "snd (expire_until ev key w s) = Inr (RInt (of_bool (view ev s key \<noteq> None)))"
    by (simp add: expire_until_def Let_def case_prod_unfold expire_at_result view_def)
  show "view ev (fst (expire_until ev key w s)) =
      (view ev s)(key := (case view ev s key of None \<Rightarrow> None | Some (v, _) \<Rightarrow> deadline_entry ev v w))"
    by (simp add: expire_until_def Let_def case_prod_unfold view_simps peek_expire_at)
      (auto simp: view_def deadline_entry_def fun_eq_iff split: option.splits)
qed

lemma view_EXPIRE:
  "view ev (fst (EXPIRE ev key secs s)) =
      (view ev s)(key := (case view ev s key of None \<Rightarrow> None
         | Some (v, _) \<Rightarrow> deadline_entry ev v (wall_ns ev + secs * 10 ^ 9)))"
  "snd (EXPIRE ev key secs s) = Inr (RInt (of_bool (view ev s key \<noteq> None)))"
proof -
  show "snd (EXPIRE ev key secs s) = Inr (RInt (of_bool (view ev s key \<noteq> None)))"
    by (simp add: EXPIRE_def Let_def case_prod_unfold expire_result view_def)
  show "view ev (fst (EXPIRE ev key secs s)) =
      (view ev s)(key := (case view ev s key of None \<Rightarrow> None
         | Some (v, _) \<Rightarrow> deadline_entry ev v (wall_ns ev + secs * 10 ^ 9)))"
    by (simp add: EXPIRE_def Let_def case_prod_unfold view_simps peek_expire)
      (auto simp: view_def deadline_entry_def fun_eq_iff split: option.splits)
qed

lemma view_PERSIST:
  "view ev (fst (PERSIST ev key s)) =
      (view ev s)(key := map_option (\<lambda>(v, _). (v, None)) (view ev s key))"
  "snd (PERSIST ev key s) = Inr (RInt (case view ev s key of Some (_, Some _) \<Rightarrow> 1 | _ \<Rightarrow> 0))"
proof -
  show "snd (PERSIST ev key s) = Inr (RInt (case view ev s key of Some (_, Some _) \<Rightarrow> 1 | _ \<Rightarrow> 0))"
    by (simp add: PERSIST_def Let_def case_prod_unfold persist_result view_def split: option.splits)
  have "view ev (fst (PERSIST ev key s)) = peek ev (fst (data_persist ev key (data s)))"
    by (simp add: PERSIST_def Let_def case_prod_unfold view_simps)
  then show "view ev (fst (PERSIST ev key s)) =
      (view ev s)(key := map_option (\<lambda>(v, _). (v, None)) (view ev s key))"
    by (auto simp: peek_persist view_def fun_eq_iff split: option.splits)
qed

lemma iter_view:
  assumes "store_ok (data s)"
  shows "distinct (snd (lift_data (data_iter ev) s))" "set (snd (lift_data (data_iter ev) s)) = dom (view ev s)"
  using assms iter_keys_result [of "data s" ev] by (simp_all add: store_ok_def view_def)

lemma data_iter_store: "fst (data_iter ck d) = fst (sweep ck d)"
  by (simp add: data_iter_def case_prod_unfold)

lemma view_iter: "store_ok (data s) \<Longrightarrow> view ev (fst (lift_data (data_iter ev) s)) = view ev s"
  by (simp add: view_simps data_iter_store peek_sweep store_ok_def) (simp add: view_def)

lemma scan_keys_eq:
  "snd (scan_keys ev pattern type_filter all keys s) = keys @ filter
     (\<lambda>key. glob_filter pattern key \<and>
        (case type_filter of None \<Rightarrow> True
         | Some t \<Rightarrow> (case value_at ev s key of None \<Rightarrow> False | Some v \<Rightarrow> TYPE_NAMES (kind_of v) = t))) all"
proof (induction all arbitrary: keys s)
  case (Cons key all)
  obtain s1 v where g: "srv_get ev key s = (s1, v)" by (cases "srv_get ev key s")
  then have v: "v = value_at ev s key" and s1: "value_at ev s1 = value_at ev s"
    using srv_get_result [of ev key s] view_get [of ev key s] by (auto simp: value_at_def fun_eq_iff)
  show ?case using Cons g by (auto simp: v s1 split: option.splits)
qed simp

section \<open>Properties\<close>

text \<open>
  \<^verbatim>\<open>DEL\<close> removes exactly the named keys and answers how many distinct live keys that were;
  \<^verbatim>\<open>EXISTS\<close> counts the named live keys with repetitions and changes nothing.
\<close>

theorem DEL_EXISTS_correct:
  assumes "keys \<noteq> []"
  shows "view ev (fst (DEL ev keys s)) = (\<lambda>key. if key \<in> set keys then None else view ev s key)
    \<and> snd (DEL ev keys s) = Inr (RInt (int (card (set keys \<inter> dom (view ev s)))))
    \<and> EXISTS ev keys s = returns s (RInt (int (length (filter (\<lambda>key. view ev s key \<noteq> None) keys))))
    \<and> snd (EXISTS ev keys (fst (DEL ev keys s))) = Inr (RInt 0)"
proof -
  have "data_contains ev (data s) = (\<lambda>key. view ev s key \<noteq> None)" for s :: "'a server"
    by (simp add: fun_eq_iff contains_view)
  then show ?thesis
    using assms del_loop_eq [of ev keys 0 s] by (simp add: DEL_def EXISTS_def count_live_def filter_empty_conv)
qed

theorem DEL_EXISTS_correct_witness:
  "snd (DEL demo_env [''a'', ''x'', ''a''] (with_keys [(''a'', VStr ''1''), (''b'', VList [''2''])] :: unit server))
     = Inr (RInt 1)"
proof -
  let ?s = "with_keys [(''a'', VStr ''1''), (''b'', VList [''2''])] :: unit server"
  have "set [''a'', ''x'', ''a''] \<inter> dom (view demo_env ?s) = {''a''}"
    by (auto simp: view_with_keys dom_def)
  then show ?thesis using DEL_EXISTS_correct [of "[''a'', ''x'', ''a'']" demo_env ?s] by simp
qed

text \<open>
  the expiration commands.  Each answers whether the key was live, and then replaces its deadline
  by the requested instant, or removes it when that instant is not in the future, keeping the value;
  \<^verbatim>\<open>PERSIST\<close> takes the deadline away and answers whether there was one.  No other key changes.
\<close>

theorem expiration_correct:
  "view ev (fst (EXPIRE ev key n s)) = (view ev s)(key := Option.bind (view ev s key)
      (\<lambda>(v, _). deadline_entry ev v (wall_ns ev + n * 10 ^ 9)))
   \<and> view ev (fst (PEXPIRE ev key n s)) = (view ev s)(key := Option.bind (view ev s key)
      (\<lambda>(v, _). deadline_entry ev v (wall_ns ev + n * 10 ^ 6)))
   \<and> view ev (fst (EXPIREAT ev key n s)) = (view ev s)(key := Option.bind (view ev s key)
      (\<lambda>(v, _). deadline_entry ev v (n * 10 ^ 9)))
   \<and> view ev (fst (PEXPIREAT ev key n s)) = (view ev s)(key := Option.bind (view ev s key)
      (\<lambda>(v, _). deadline_entry ev v (n * 10 ^ 6)))
   \<and> snd (EXPIRE ev key n s) = Inr (RInt (of_bool (view ev s key \<noteq> None)))
   \<and> snd (PEXPIRE ev key n s) = snd (EXPIRE ev key n s)
   \<and> snd (EXPIREAT ev key n s) = snd (EXPIRE ev key n s)
   \<and> snd (PEXPIREAT ev key n s) = snd (EXPIRE ev key n s)
   \<and> view ev (fst (PERSIST ev key s)) = (view ev s)(key := map_option (\<lambda>(v, _). (v, None)) (view ev s key))
   \<and> snd (PERSIST ev key s) = Inr (RInt (case view ev s key of Some (_, Some _) \<Rightarrow> 1 | _ \<Rightarrow> 0))"
  unfolding PEXPIRE_def EXPIREAT_def PEXPIREAT_def view_expire_until view_EXPIRE view_PERSIST
  by (auto simp: fun_eq_iff split: option.splits)

text \<open>
  listing.  On a well-formed store \<^verbatim>\<open>KEYS\<close> answers, without duplicates, the visible keys that
  match the pattern, \<^verbatim>\<open>DBSIZE\<close> their number, and \<^verbatim>\<open>SCAN\<close> from cursor 0 the same keys as
  \<^verbatim>\<open>KEYS\<close>, restricted to the asked type, with cursor 0 again.
\<close>

theorem listing_correct:
  assumes "store_ok (data s)"
  shows "\<exists>keys. distinct keys \<and> set keys = dom (view ev s)
    \<and> snd (KEYS ev pattern s) = Inr (RList (map RBytes (filter (compile_glob pattern) keys)))
    \<and> snd (DBSIZE ev s) = Inr (RInt (int (card (dom (view ev s)))))
    \<and> (\<forall>options patt t. scan_loop options None None = Inr (patt, t) \<longrightarrow>
        snd (SCAN ev ''0'' options s) = Inr (RList [RBytes ''0'', RList (map RBytes (filter
          (\<lambda>key. glob_filter patt key \<and>
             (case t of None \<Rightarrow> True
              | Some t \<Rightarrow> (case value_at ev s key of None \<Rightarrow> False | Some v \<Rightarrow> TYPE_NAMES (kind_of v) = t)))
          keys))]))"
proof (intro exI conjI allI impI)
  let ?keys = "snd (lift_data (data_iter ev) s)"
  let ?s = "fst (lift_data (data_iter ev) s)"
  show "distinct ?keys" "set ?keys = dom (view ev s)" using iter_view [OF assms] by blast+
  show "snd (KEYS ev pattern s) = Inr (RList (map RBytes (filter (compile_glob pattern) ?keys)))"
    by (simp add: KEYS_def case_prod_unfold)
  show "snd (DBSIZE ev s) = Inr (RInt (int (card (dom (view ev s)))))"
    using assms len_result [of "data s" ev] by (simp add: DBSIZE_def case_prod_unfold store_ok_def view_def)
  fix options patt t
  assume "scan_loop options None None = Inr (patt, t)"
  moreover have "parse_scan_cursor ''0'' = Inr 0" by (simp add: parse_scan_cursor_def string2ll_def)
  moreover have "value_at ev ?s = value_at ev s" by (simp add: value_at_def view_iter [OF assms] fun_eq_iff)
  ultimately show "snd (SCAN ev ''0'' options s) = Inr (RList [RBytes ''0'', RList (map RBytes (filter
          (\<lambda>key. glob_filter patt key \<and>
             (case t of None \<Rightarrow> True
              | Some t \<Rightarrow> (case value_at ev s key of None \<Rightarrow> False | Some v \<Rightarrow> TYPE_NAMES (kind_of v) = t)))
          ?keys))])"
    by (cases t) (simp_all add: SCAN_def case_prod_unfold scan_keys_eq)
qed

lemma store_ok_with_keys: "list_all (\<lambda>(k, v). value_ok v) kvs \<Longrightarrow> store_ok (data (with_keys kvs))"
proof -
  have "list_all (\<lambda>(k, v). value_ok v) kvs \<Longrightarrow> store_ok d \<Longrightarrow>
      store_ok (fold (\<lambda>(k, v). data_setitem k v) kvs d)" for d :: "'a val data"
    by (induction kvs arbitrary: d) (auto intro: store_ok_setitem)
  then show "list_all (\<lambda>(k, v). value_ok v) kvs \<Longrightarrow> store_ok (data (with_keys kvs))"
    by (simp add: with_keys_def Commands_def)
qed

theorem listing_correct_witness:
  "\<exists>keys. set keys = {''a'', ''b''} \<and> snd (KEYS demo_env ''*''
     (with_keys [(''a'', VStr ''1''), (''b'', VList [''2''])] :: unit server)) =
     Inr (RList (map RBytes (filter (compile_glob ''*'') keys)))"
proof -
  let ?s = "with_keys [(''a'', VStr ''1''), (''b'', VList [''2''])] :: unit server"
  have "store_ok (data ?s)" by (rule store_ok_with_keys) simp
  moreover have "dom (view demo_env ?s) = {''a'', ''b''}" by (auto simp: view_with_keys dom_def)
  ultimately show ?thesis using listing_correct [of ?s demo_env "''*''"] by auto
qed

end
