(* ===== verification/FloatText.thy ===== *)
theory FloatText
  imports Doubles Scalars
begin

text \<open>
  \<^verbatim>\<open>_parse_float\<close> and \<^verbatim>\<open>_format_float\<close> of \<open>commands/common.py\<close>, with what they use of Python's
  \<^verbatim>\<open>float(str)\<close> and \<^verbatim>\<open>repr(float)\<close>: decimal syntax, correctly rounded conversion to
  binary64, and the shortest decimal text that converts back to the same value.
\<close>

section \<open>Python's float syntax\<close>

definition round_double :: "rat \<Rightarrow> double" where
  "round_double q =
     (if q = 0 then Fin 0
      else
        let r = round_pos \<bar>q\<bar>
        in if 2 ^ 1024 \<le> r then (if 0 < q then PosInf else NegInf)
           else Fin (if 0 < q then r else - r))"

text \<open>An underscore stands between two digits.\<close>

fun drop_underscores :: "bool \<Rightarrow> bytes \<Rightarrow> bytes option" where
  "drop_underscores prev [] = Some []"
| "drop_underscores prev (c # cs) =
     (if c = CHR ''_'' then
        (if prev \<and> cs \<noteq> [] \<and> is_digit (hd cs) then drop_underscores False cs else None)
      else map_option (\<lambda>b. c # b) (drop_underscores (is_digit c) cs))"

definition is_sign :: "char \<Rightarrow> bool" where
  "is_sign c \<longleftrightarrow> c = CHR ''+'' \<or> c = CHR ''-''"

definition unsigned :: "bytes \<Rightarrow> bytes" where
  "unsigned b = (if b \<noteq> [] \<and> is_sign (hd b) then tl b else b)"

definition negative :: "bytes \<Rightarrow> bool" where
  "negative b \<longleftrightarrow> b \<noteq> [] \<and> hd b = CHR ''-''"

text \<open>The exponent: nothing, or \<open>e\<close> with a signed number.\<close>

definition exponent_part :: "bytes \<Rightarrow> int option" where
  "exponent_part b =
     (if b = [] then Some 0
      else if hd b \<noteq> CHR ''e'' \<and> hd b \<noteq> CHR ''E'' then None
      else
        let digits = unsigned (tl b)
        in if digits = [] \<or> \<not> list_all is_digit digits then None
           else Some (if negative (tl b) then - int (dec_val digits) else int (dec_val digits)))"

definition decimal :: "bytes \<Rightarrow> rat option" where
  "decimal b =
     (let whole = takeWhile is_digit b;
          rest = dropWhile is_digit b;
          fraction = (if rest \<noteq> [] \<and> hd rest = CHR ''.'' then takeWhile is_digit (tl rest) else []);
          rest = (if rest \<noteq> [] \<and> hd rest = CHR ''.'' then dropWhile is_digit (tl rest) else rest)
      in if whole = [] \<and> fraction = [] then None
         else map_option (\<lambda>e. of_nat (dec_val (whole @ fraction)) * 10 powi (e - int (length fraction)))
                (exponent_part rest))"

datatype py_float = Number double | NaN

definition py_float :: "bytes \<Rightarrow> py_float option" where
  "py_float text =
     (let core = lower (unsigned text)
      in if core = ''inf'' \<or> core = ''infinity'' then
           Some (Number (if negative text then NegInf else PosInf))
         else if core = ''nan'' then Some NaN
         else
           case drop_underscores False text of
             None \<Rightarrow> None
           | Some b \<Rightarrow>
               map_option (\<lambda>q. Number (round_double (if negative b then - q else q))) (decimal (unsigned b)))"

section \<open>The parser of the commands\<close>

text \<open>White space of a Python \<^verbatim>\<open>str\<close>, as far as ASCII goes.\<close>

definition str_space :: "char \<Rightarrow> bool" where
  "str_space c \<longleftrightarrow> is_space c \<or> (28 \<le> ord_char c \<and> ord_char c \<le> 31)"

text \<open>\<open>None\<close> stands for \<^verbatim>\<open>Errors.NOT_FLOAT\<close>.\<close>

definition parse_float :: "bytes \<Rightarrow> double option" where
  "parse_float raw =
     (if \<not> list_all (\<lambda>c. ord_char c < 128) raw then None
      else if raw = [] \<or> str_space (hd raw) \<or> str_space (last raw) then None
      else
        case py_float raw of
          None \<Rightarrow> None
        | Some NaN \<Rightarrow> None
        | Some (Number v) \<Rightarrow>
            if v = PosInf \<or> v = NegInf then
              (let core = dropWhile is_sign (lower raw)
               in if core = ''inf'' \<or> core = ''infinity'' then Some v else None)
            else if v = Fin 0 \<and> list_ex (\<lambda>c. is_digit c \<and> c \<noteq> CHR ''0'') raw then None
            else Some v)"

section \<open>The printer\<close>

text \<open>The exponent of the first digit: \<open>10 ^ e \<le> q < 10 ^ (e + 1)\<close>.\<close>

definition dec_exp :: "rat \<Rightarrow> int" where
  "dec_exp q =
     (if 1 \<le> q then int (length (show_nat (nat \<lfloor>q\<rfloor>))) - 1
      else - int (length (show_nat (nat (\<lceil>1 / q\<rceil> - 1)))))"

text \<open>
  The decimal with \<open>n\<close> digits that is closest to \<open>q\<close> among those that convert back to it: its digits
  as a number, to be divided by \<open>10 ^ k\<close>.
\<close>

definition digits_at :: "rat \<Rightarrow> int \<Rightarrow> nat option" where
  "digits_at q k =
     (let x = q * 10 powi k; lo = nat \<lfloor>x\<rfloor>;
          fits = (\<lambda>m. round_pos (of_nat m * 10 powi (- k)) = q)
      in if fits lo \<and> (fits (lo + 1) \<longrightarrow> round_half_even x = int lo) then Some lo
         else if fits (lo + 1) then Some (lo + 1)
         else None)"

fun shortest :: "rat \<Rightarrow> int \<Rightarrow> nat \<Rightarrow> nat \<times> int" where
  "shortest q k 0 = (nat (round_half_even (q * 10 powi k)), k)"
| "shortest q k (Suc n) =
     (case digits_at q k of Some m \<Rightarrow> (m, k) | None \<Rightarrow> shortest q (k + 1) n)"

text \<open>
  \<^verbatim>\<open>repr\<close> of a positive number without the \<open>.0\<close> of a whole one: \<open>point\<close> is the place of the decimal
  point, counted from the first digit; the exponent is used outside \<open>-3 .. 16\<close>.
\<close>

definition strip_zeros :: "bytes \<Rightarrow> bytes" where
  "strip_zeros b = rev (dropWhile (\<lambda>c. c = CHR ''0'') (rev b))"

definition show_exponent :: "int \<Rightarrow> bytes" where
  "show_exponent e =
     ''e'' @ (if e < 0 then ''-'' else ''+'') @ (if \<bar>e\<bar> < 10 then ''0'' else []) @ show_nat (nat \<bar>e\<bar>)"

definition layout :: "bytes \<Rightarrow> int \<Rightarrow> bytes" where
  "layout ds point =
     (if point \<le> - 4 \<or> 16 < point then
        [hd ds] @ (if tl ds = [] then [] else ''.'' @ tl ds) @ show_exponent (point - 1)
      else if point \<le> 0 then ''0.'' @ replicate (nat (- point)) (CHR ''0'') @ ds
      else if int (length ds) \<le> point then ds @ replicate (nat point - length ds) (CHR ''0'')
      else take (nat point) ds @ ''.'' @ drop (nat point) ds)"

definition show_pos :: "rat \<Rightarrow> bytes" where
  "show_pos q =
     (case shortest q (- dec_exp q) 17 of
        (m, k) \<Rightarrow> layout (strip_zeros (show_nat m)) (int (length (show_nat m)) - k))"

fun format_float :: "double \<Rightarrow> bytes" where
  "format_float PosInf = ''inf''"
| "format_float NegInf = ''-inf''"
| "format_float (Fin q) =
     (if q = 0 then ''0'' else if 0 < q then show_pos q else CHR ''-'' # show_pos (- q))"

section \<open>Arithmetic\<close>

text \<open>Addition and multiplication of doubles; \<open>None\<close> is NaN.\<close>

fun double_add :: "double \<Rightarrow> double \<Rightarrow> double option" where
  "double_add (Fin x) (Fin y) = Some (round_double (x + y))"
| "double_add PosInf NegInf = None"
| "double_add NegInf PosInf = None"
| "double_add (Fin x) y = Some y"
| "double_add x _ = Some x"

fun double_sign :: "double \<Rightarrow> int" where
  "double_sign PosInf = 1"
| "double_sign NegInf = - 1"
| "double_sign (Fin x) = (if 0 < x then 1 else if x < 0 then - 1 else 0)"

fun double_mul :: "double \<Rightarrow> double \<Rightarrow> double option" where
  "double_mul (Fin x) (Fin y) = Some (round_double (x * y))"
| "double_mul x y =
     (let sign = double_sign x * double_sign y
      in if sign = 0 then None else Some (if 0 < sign then PosInf else NegInf))"

definition is_finite :: "double \<Rightarrow> bool" where
  "is_finite x \<longleftrightarrow> x \<noteq> PosInf \<and> x \<noteq> NegInf"

end
