(* ===== verification/HashCmds.thy ===== *)
theory HashCmds
  imports SetCmds KeyspaceCmds FloatText
begin

text \<open>
  The hash commands of \<open>commands/hash.py\<close>, expirations of single fields included.  A stored hash is a
  dictionary of names; a field is its bytes, or bytes with a wall-clock deadline.  A command that
  changes the dictionary in place stores it with \<open>data_mutate\<close>.
\<close>

type_synonym hash = "(bytes \<times> field) list"

section \<open>Fields\<close>

definition FIELD_TTL_MAX_MS :: int where "FIELD_TTL_MAX_MS = 2 ^ 46 - 1"

fun hash_entry :: "field \<Rightarrow> bytes \<times> int option" where
  "hash_entry (Plain v) = (v, None)"
| "hash_entry (Expiring v w) = (v, Some w)"

definition hash_put :: "bytes \<Rightarrow> bytes \<Rightarrow> int option \<Rightarrow> hash \<Rightarrow> hash" where
  "hash_put field v deadline cur =
     AList.update field (case deadline of None \<Rightarrow> Plain v | Some w \<Rightarrow> Expiring v w) cur"

definition field_live :: "env \<Rightarrow> field \<Rightarrow> bool" where
  "field_live ev f = (case snd (hash_entry f) of None \<Rightarrow> True | Some w \<Rightarrow> wall_ns ev < w)"

definition hash_field :: "env \<Rightarrow> bytes \<Rightarrow> hash \<Rightarrow> hash \<times> (bytes \<times> int option) option" where
  "hash_field ev field cur =
     (case map_of cur field of
        None \<Rightarrow> (cur, None)
      | Some raw \<Rightarrow> if field_live ev raw then (cur, Some (hash_entry raw)) else (AList.delete field cur, None))"

definition hash_purge :: "env \<Rightarrow> hash \<Rightarrow> hash" where
  "hash_purge ev cur = filter (\<lambda>(field, raw). field_live ev raw) cur"

definition live_pairs :: "env \<Rightarrow> hash \<Rightarrow> hash \<times> (bytes \<times> bytes) list" where
  "live_pairs ev cur =
     (let cur = hash_purge ev cur in (cur, map (\<lambda>(field, raw). (field, fst (hash_entry raw))) cur))"

definition get_hash :: "env \<Rightarrow> bytes \<Rightarrow> 'bm server \<Rightarrow> ('bm server, exn, hash option) result" where
  "get_hash ev key s =
     bindR (expect_kind ev key KIND_HASH s)
       (\<lambda>s v. returns s (case v of Some (VHash h) \<Rightarrow> Some h | _ \<Rightarrow> None))"

definition set_hash :: "bytes \<Rightarrow> hash \<Rightarrow> 'bm server \<Rightarrow> 'bm server" where
  "set_hash key cur s = upd_data (data_mutate key (VHash cur)) s"

definition drop_if_empty :: "env \<Rightarrow> bytes \<Rightarrow> hash \<Rightarrow> 'bm server \<Rightarrow> 'bm server" where
  "drop_if_empty ev key cur s = (if cur = [] then fst (srv_remove ev key s) else s)"

text \<open>\<^verbatim>\<open>if cur is None: cur = {}; self.data[key] = cur\<close>\<close>

definition hash_or_new :: "bytes \<Rightarrow> hash option \<Rightarrow> 'bm server \<Rightarrow> 'bm server \<times> hash" where
  "hash_or_new key cur s =
     (case cur of None \<Rightarrow> (upd_data (data_setitem key (VHash [])) s, []) | Some h \<Rightarrow> (s, h))"

section \<open>Writes\<close>

fun hset_loop :: "env \<Rightarrow> bytes list \<Rightarrow> hash \<Rightarrow> int \<Rightarrow> hash \<times> int" where
  "hset_loop ev (field # v # rest) cur new_fields =
     (case hash_field ev field cur of
        (cur, found) \<Rightarrow>
          hset_loop ev rest (hash_put field v None cur) (if found = None then new_fields + 1 else new_fields))"
| "hset_loop ev _ cur new_fields = (cur, new_fields)"

definition hset_pairs :: "env \<Rightarrow> bytes \<Rightarrow> bytes list \<Rightarrow> 'bm server \<Rightarrow> ('bm server, exn, int) result" where
  "hset_pairs ev key field_values s =
     bindR (get_hash ev key s) (\<lambda>s cur.
       case hash_or_new key cur s of
         (s, cur) \<Rightarrow>
           (case hset_loop ev field_values cur 0 of
              (cur, n) \<Rightarrow> returns (after_write key ''hset'' (set_hash key cur s)) n))"

definition HSET :: "env \<Rightarrow> bytes \<Rightarrow> bytes list \<Rightarrow> 'bm server \<Rightarrow> 'bm cmd_result" where
  "HSET ev key field_values s =
     (if length field_values < 2 \<or> odd (length field_values) then raise_error s (arity ''hset'')
      else bindR (hset_pairs ev key field_values s) (\<lambda>s n. returns s (RInt n)))"

definition HMSET :: "env \<Rightarrow> bytes \<Rightarrow> bytes list \<Rightarrow> 'bm server \<Rightarrow> 'bm cmd_result" where
  "HMSET ev key field_values s =
     (if length field_values < 2 \<or> odd (length field_values) then raise_error s (arity ''hmset'')
      else bindR (hset_pairs ev key field_values s) (\<lambda>s n. returns s (RResponse OK)))"

definition HSETNX :: "env \<Rightarrow> bytes \<Rightarrow> bytes \<Rightarrow> bytes \<Rightarrow> 'bm server \<Rightarrow> 'bm cmd_result" where
  "HSETNX ev key field v s =
     bindR (get_hash ev key s) (\<lambda>s cur.
       let (cur, found) = (case cur of
             None \<Rightarrow> (None, None)
           | Some h \<Rightarrow> (case hash_field ev field h of (h, found) \<Rightarrow> (Some h, found)));
           s = (case cur of None \<Rightarrow> s | Some h \<Rightarrow> set_hash key h s)
       in if found \<noteq> None then returns s (RInt 0)
          else
            case hash_or_new key cur s of
              (s, h) \<Rightarrow>
                returns (after_write key ''hset'' (set_hash key (hash_put field v None h) s)) (RInt 1))"

fun hdel_loop :: "env \<Rightarrow> bytes list \<Rightarrow> hash \<Rightarrow> int \<Rightarrow> hash \<times> int" where
  "hdel_loop ev [] cur removed = (cur, removed)"
| "hdel_loop ev (field # rest) cur removed =
     (case hash_field ev field cur of
        (cur, found) \<Rightarrow>
          if found \<noteq> None then hdel_loop ev rest (AList.delete field cur) (removed + 1)
          else hdel_loop ev rest cur removed)"

definition HDEL :: "env \<Rightarrow> bytes \<Rightarrow> bytes list \<Rightarrow> 'bm server \<Rightarrow> 'bm cmd_result" where
  "HDEL ev key names s =
     (if names = [] then raise_error s (arity ''hdel'')
      else
        bindR (get_hash ev key s) (\<lambda>s cur.
          case cur of
            None \<Rightarrow> returns s (RInt 0)
          | Some h \<Rightarrow>
              (case hdel_loop ev names h 0 of
                 (h, removed) \<Rightarrow>
                   let s = set_hash key h s;
                       s = (if removed \<noteq> 0 then after_write key ''hdel'' s else s);
                       s = (if h = []
                            then (let s = fst (srv_remove ev key s)
                                  in if removed \<noteq> 0 then notify key ''del'' s else s)
                            else s)
                   in returns s (RInt removed))))"

section \<open>Reads\<close>

text \<open>A read of one field purges the field when it has expired, and nothing else.\<close>

definition read_field ::
  "env \<Rightarrow> bytes \<Rightarrow> bytes \<Rightarrow> 'bm server \<Rightarrow> ('bm server, exn, (bytes \<times> int option) option) result" where
  "read_field ev key field s =
     bindR (get_hash ev key s) (\<lambda>s cur.
       case cur of
         None \<Rightarrow> returns s None
       | Some h \<Rightarrow> (case hash_field ev field h of (h, found) \<Rightarrow> returns (set_hash key h s) found))"

definition HGET :: "env \<Rightarrow> bytes \<Rightarrow> bytes \<Rightarrow> 'bm server \<Rightarrow> 'bm cmd_result" where
  "HGET ev key field s =
     bindR (read_field ev key field s) (\<lambda>s found. returns s (bulk_or_nil (map_option fst found)))"

definition HEXISTS :: "env \<Rightarrow> bytes \<Rightarrow> bytes \<Rightarrow> 'bm server \<Rightarrow> 'bm cmd_result" where
  "HEXISTS ev key field s =
     bindR (read_field ev key field s) (\<lambda>s found. returns s (RInt (if found \<noteq> None then 1 else 0)))"

definition HSTRLEN :: "env \<Rightarrow> bytes \<Rightarrow> bytes \<Rightarrow> 'bm server \<Rightarrow> 'bm cmd_result" where
  "HSTRLEN ev key field s =
     bindR (read_field ev key field s) (\<lambda>s found.
       returns s (RInt (case found of None \<Rightarrow> 0 | Some (v, _) \<Rightarrow> int (length v))))"

fun hmget_loop :: "env \<Rightarrow> bytes list \<Rightarrow> hash \<Rightarrow> hash \<times> reply list" where
  "hmget_loop ev [] cur = (cur, [])"
| "hmget_loop ev (field # rest) cur =
     (case hash_field ev field cur of
        (cur, found) \<Rightarrow>
          (case hmget_loop ev rest cur of
             (cur, out) \<Rightarrow> (cur, bulk_or_nil (map_option fst found) # out)))"

definition HMGET :: "env \<Rightarrow> bytes \<Rightarrow> bytes list \<Rightarrow> 'bm server \<Rightarrow> 'bm cmd_result" where
  "HMGET ev key names s =
     (if names = [] then raise_error s (arity ''hmget'')
      else
        bindR (get_hash ev key s) (\<lambda>s cur.
          case cur of
            None \<Rightarrow> returns s (RList (map (\<lambda>_. RResponse NIL) names))
          | Some h \<Rightarrow> (case hmget_loop ev names h of (h, out) \<Rightarrow> returns (set_hash key h s) (RList out))))"

text \<open>The reads of a whole hash: the expired fields are dropped, and the key with the last one.\<close>

definition read_pairs ::
  "env \<Rightarrow> bytes \<Rightarrow> 'bm server \<Rightarrow> ('bm server, exn, (bytes \<times> bytes) list option) result" where
  "read_pairs ev key s =
     bindR (get_hash ev key s) (\<lambda>s cur.
       case cur of
         None \<Rightarrow> returns s None
       | Some h \<Rightarrow>
           (case live_pairs ev h of (h, pairs) \<Rightarrow> returns (drop_if_empty ev key h (set_hash key h s)) (Some pairs)))"

definition flat_pairs :: "(bytes \<times> bytes) list \<Rightarrow> reply list" where
  "flat_pairs pairs = concat (map (\<lambda>(field, v). [RBytes field, RBytes v]) pairs)"

definition HLEN :: "env \<Rightarrow> bytes \<Rightarrow> 'bm server \<Rightarrow> 'bm cmd_result" where
  "HLEN ev key s =
     bindR (read_pairs ev key s) (\<lambda>s pairs.
       returns s (RInt (case pairs of None \<Rightarrow> 0 | Some ps \<Rightarrow> int (length ps))))"

definition HKEYS :: "env \<Rightarrow> bytes \<Rightarrow> 'bm server \<Rightarrow> 'bm cmd_result" where
  "HKEYS ev key s =
     bindR (read_pairs ev key s) (\<lambda>s pairs.
       returns s (RList (case pairs of None \<Rightarrow> [] | Some ps \<Rightarrow> map (\<lambda>(field, v). RBytes field) ps)))"

definition HVALS :: "env \<Rightarrow> bytes \<Rightarrow> 'bm server \<Rightarrow> 'bm cmd_result" where
  "HVALS ev key s =
     bindR (read_pairs ev key s) (\<lambda>s pairs.
       returns s (RList (case pairs of None \<Rightarrow> [] | Some ps \<Rightarrow> map (\<lambda>(field, v). RBytes v) ps)))"

definition HGETALL :: "env \<Rightarrow> bytes \<Rightarrow> 'bm server \<Rightarrow> 'bm cmd_result" where
  "HGETALL ev key s =
     bindR (read_pairs ev key s) (\<lambda>s pairs.
       returns s (RList (case pairs of None \<Rightarrow> [] | Some ps \<Rightarrow> flat_pairs ps)))"

definition HSCAN :: "env \<Rightarrow> bytes \<Rightarrow> bytes \<Rightarrow> bytes list \<Rightarrow> 'bm server \<Rightarrow> 'bm cmd_result" where
  "HSCAN ev key cursor options s =
     bindR (liftE s (parse_scan_cursor cursor)) (\<lambda>s _.
     bindR (liftE s (parse_scan_options options)) (\<lambda>s pattern.
     bindR (read_pairs ev key s) (\<lambda>s pairs.
       returns s (RList [RBytes ''0'',
         RList (case pairs of
             None \<Rightarrow> []
           | Some ps \<Rightarrow> flat_pairs (filter (\<lambda>(field, v). glob_filter pattern field) ps))]))))"

definition HRANDFIELD :: "env \<Rightarrow> bytes \<Rightarrow> int option \<Rightarrow> bytes list \<Rightarrow> 'bm server \<Rightarrow> 'bm cmd_result" where
  "HRANDFIELD ev key num options s =
     (case num of
        None \<Rightarrow>
          if options \<noteq> [] then raise_error s SYNTAX
          else
            bindR (read_pairs ev key s) (\<lambda>s pairs.
              returns s (case pairs of
                  None \<Rightarrow> RResponse NIL
                | Some ps \<Rightarrow> if ps = [] then RResponse NIL else RBytes (fst (ps ! rng_choice ev 0 (length ps)))))
      | Some c \<Rightarrow>
          if list_ex (\<lambda>opt. upper opt \<noteq> ''WITHVALUES'') options then raise_error s SYNTAX
          else
            bindR (read_pairs ev key s) (\<lambda>s pairs.
              case pairs of
                None \<Rightarrow> returns s (RList [])
              | Some ps \<Rightarrow>
                  if ps = [] then returns s (RList [])
                  else
                    let n = length ps;
                        picked =
                          (if c < 0 then map (\<lambda>i. ps ! rng_choice ev i n) [0..<nat (- c)]
                           else if c = 0 then []
                           else if c \<ge> int n then ps
                           else map (\<lambda>i. ps ! i) (rng_sample ev n (nat c)))
                    in returns s (RList (if options = [] then map (\<lambda>(field, v). RBytes field) picked
                         else flat_pairs picked))))"

section \<open>Counters\<close>

definition HINCRBY :: "env \<Rightarrow> bytes \<Rightarrow> bytes \<Rightarrow> int \<Rightarrow> 'bm server \<Rightarrow> 'bm cmd_result" where
  "HINCRBY ev key field increment s =
     bindR (get_hash ev key s) (\<lambda>s cur.
       case hash_or_new key cur s of
         (s, h) \<Rightarrow>
           (case hash_field ev field h of
              (h, found) \<Rightarrow>
                let s = set_hash key h s in
                bindR
                  (case found of
                     None \<Rightarrow> returns s (0, None)
                   | Some (raw, deadline) \<Rightarrow>
                       if \<not> RE_NUMERIC raw then raise_error s HASH_NOT_INT
                       else (case int_of_numeric raw of None \<Rightarrow> raises s Crashed | Some i \<Rightarrow> returns s (i, deadline)))
                  (\<lambda>s (current, deadline).
                     let r = current + increment in
                     if r < INT64_MIN \<or> r > INT64_MAX then raise_error s OVERFLOW
                     else
                       returns (after_write key ''hincrby'' (set_hash key (hash_put field (show_int r) deadline h) s))
                         (RInt r))))"

definition HINCRBYFLOAT :: "env \<Rightarrow> bytes \<Rightarrow> bytes \<Rightarrow> bytes \<Rightarrow> 'bm server \<Rightarrow> 'bm cmd_result" where
  "HINCRBYFLOAT ev key field raw_increment s =
     (case parse_float raw_increment of
        None \<Rightarrow> raise_error s NOT_FLOAT
      | Some increment \<Rightarrow>
          if \<not> is_finite increment then raise_error s HASH_NAN_OR_INF
          else
            bindR (get_hash ev key s) (\<lambda>s cur.
              case hash_or_new key cur s of
                (s, h) \<Rightarrow>
                  (case hash_field ev field h of
                     (h, found) \<Rightarrow>
                       let s = set_hash key h s in
                       bindR
                         (case found of
                            None \<Rightarrow> returns s (Fin 0, None)
                          | Some (raw, deadline) \<Rightarrow>
                              (case parse_float raw of
                                 None \<Rightarrow> raise_error s HASH_NOT_FLOAT
                               | Some current \<Rightarrow> returns s (current, deadline)))
                         (\<lambda>s (current, deadline).
                            case double_add current increment of
                              None \<Rightarrow> raise_error s FLOAT_OVERFLOW
                            | Some r \<Rightarrow>
                                if \<not> is_finite r then raise_error s FLOAT_OVERFLOW
                                else
                                  returns (after_write key ''hincrbyfloat''
                                      (set_hash key (hash_put field (format_float r) deadline h) s))
                                    (RBytes (format_float r))))))"

section \<open>Expirations of fields\<close>

text \<open>\<^verbatim>\<open>_FIELD_TTL_COMMANDS\<close>: whether the command counts seconds, and whether its time is absolute.\<close>

definition counts_seconds :: "bytes \<Rightarrow> bool" where
  "counts_seconds command \<longleftrightarrow> command = ''hexpire'' \<or> command = ''hexpireat''"

definition is_absolute :: "bytes \<Rightarrow> bool" where
  "is_absolute command \<longleftrightarrow> command = ''hexpireat'' \<or> command = ''hpexpireat''"

definition FIELDS_MISPLACED :: error where
  "FIELDS_MISPLACED = err ''Mandatory argument FIELDS is missing or not at the right position''"

definition NUMFIELDS_MISMATCH :: error where
  "NUMFIELDS_MISMATCH = err ''The `numfields` parameter must match the number of arguments''"

definition NUMFIELDS_POSITIVE :: error where
  "NUMFIELDS_POSITIVE = err ''Parameter `numFields` should be greater than 0''"

text \<open>The tokens before \<^verbatim>\<open>FIELDS\<close>: at most one flag.  The result is the flag and what follows.\<close>

fun field_flags :: "bytes \<Rightarrow> bytes list \<Rightarrow> bytes option \<Rightarrow> error + (bytes option \<times> bytes list)" where
  "field_flags command [] flag = Inl (arity command)"
| "field_flags command (raw # rest) flag =
     (let opt = upper raw in
      if opt = ''FIELDS'' then Inr (flag, rest)
      else if opt \<in> {''NX'', ''XX'', ''GT'', ''LT''} \<and> flag = None then field_flags command rest (Some opt)
      else Inl FIELDS_MISPLACED)"

text \<open>\<^verbatim>\<open>numfields field ...\<close>; the error for a number that is not positive differs between the commands.\<close>

definition field_names :: "bytes \<Rightarrow> error \<Rightarrow> bytes list \<Rightarrow> error + bytes list" where
  "field_names command bad rest =
     (case rest of
        [] \<Rightarrow> Inl (arity command)
      | raw # names \<Rightarrow>
          (case string2ll raw of
             None \<Rightarrow> Inl bad
           | Some numfields \<Rightarrow>
               if numfields = 0 then Inl (arity command)
               else if numfields < 0 then Inl bad
               else if int (length names) \<noteq> numfields then Inl NUMFIELDS_MISMATCH
               else Inr names))"

definition parse_field_ttl_args ::
  "env \<Rightarrow> bytes list \<Rightarrow> bytes \<Rightarrow> error + (int \<times> bytes option \<times> bytes list)" where
  "parse_field_ttl_args ev args command =
     (case args of
        [] \<Rightarrow> Inl (arity command)
      | raw # rest \<Rightarrow>
          (case string2ll raw of
             None \<Rightarrow> Inl NOT_INT
           | Some time \<Rightarrow>
               if time < 0 then Inl (err ''invalid expire time, must be >= 0'')
               else
                 let when_ms = time * (if counts_seconds command then 1000 else 1);
                     ceiling = (if is_absolute command then FIELD_TTL_MAX_MS
                                else FIELD_TTL_MAX_MS - wall_ns ev div 10 ^ 6)
                 in if when_ms > ceiling then
                      Inl (err (''invalid expire time in '' @ quote_char @ command @ quote_char @ '' command''))
                    else
                      case field_flags command rest None of
                        Inl e \<Rightarrow> Inl e
                      | Inr (flag, rest) \<Rightarrow>
                          map_sum id (\<lambda>names. (when_ms, flag, names)) (field_names command NUMFIELDS_POSITIVE rest)))"

definition flag_blocks :: "bytes option \<Rightarrow> int option \<Rightarrow> int \<Rightarrow> bool" where
  "flag_blocks flag deadline new_deadline \<longleftrightarrow>
     flag = Some ''NX'' \<and> deadline \<noteq> None
     \<or> flag = Some ''XX'' \<and> deadline = None
     \<or> flag = Some ''GT'' \<and> (case deadline of None \<Rightarrow> False | Some w \<Rightarrow> new_deadline \<le> w)
     \<or> flag = Some ''LT'' \<and> (case deadline of None \<Rightarrow> True | Some w \<Rightarrow> new_deadline \<ge> w)"

fun hexpire_loop :: "env \<Rightarrow> bytes option \<Rightarrow> int \<Rightarrow> bytes list \<Rightarrow> hash \<Rightarrow> hash \<times> int list" where
  "hexpire_loop ev flag new_deadline [] cur = (cur, [])"
| "hexpire_loop ev flag new_deadline (field # rest) cur =
     (case hash_field ev field cur of
        (cur, found) \<Rightarrow>
          (let (cur, r) =
             (case found of
                None \<Rightarrow> (cur, - 2)
              | Some (v, deadline) \<Rightarrow>
                  if flag_blocks flag deadline new_deadline then (cur, 0)
                  else if new_deadline \<le> wall_ns ev then (AList.delete field cur, 2)
                  else (hash_put field v (Some new_deadline) cur, 1))
           in map_prod id (\<lambda>out. r # out) (hexpire_loop ev flag new_deadline rest cur)))"

definition hexpire :: "env \<Rightarrow> bytes \<Rightarrow> bytes list \<Rightarrow> bytes \<Rightarrow> 'bm server \<Rightarrow> 'bm cmd_result" where
  "hexpire ev key args command s =
     bindR (liftE s (parse_field_ttl_args ev args command)) (\<lambda>s (when_ms, flag, names).
     bindR (get_hash ev key s) (\<lambda>s cur.
       case cur of
         None \<Rightarrow> returns s (RList (map (\<lambda>_. RInt (- 2)) names))
       | Some h \<Rightarrow>
           let new_deadline = (if is_absolute command then when_ms * 10 ^ 6 else wall_ns ev + when_ms * 10 ^ 6)
           in case hexpire_loop ev flag new_deadline names h of
                (h, out) \<Rightarrow>
                  let s = set_hash key h s;
                      s = (if 1 \<in> set out \<or> 2 \<in> set out
                           then (let s = after_write key ''hexpire'' s
                                 in if h = [] then notify key ''del'' s else s)
                           else s)
                  in returns (drop_if_empty ev key h s) (RList (map RInt out))))"

definition HEXPIRE :: "env \<Rightarrow> bytes \<Rightarrow> bytes list \<Rightarrow> 'bm server \<Rightarrow> 'bm cmd_result" where
  "HEXPIRE ev key args s = hexpire ev key args ''hexpire'' s"

definition HPEXPIRE :: "env \<Rightarrow> bytes \<Rightarrow> bytes list \<Rightarrow> 'bm server \<Rightarrow> 'bm cmd_result" where
  "HPEXPIRE ev key args s = hexpire ev key args ''hpexpire'' s"

definition HEXPIREAT :: "env \<Rightarrow> bytes \<Rightarrow> bytes list \<Rightarrow> 'bm server \<Rightarrow> 'bm cmd_result" where
  "HEXPIREAT ev key args s = hexpire ev key args ''hexpireat'' s"

definition HPEXPIREAT :: "env \<Rightarrow> bytes \<Rightarrow> bytes list \<Rightarrow> 'bm server \<Rightarrow> 'bm cmd_result" where
  "HPEXPIREAT ev key args s = hexpire ev key args ''hpexpireat'' s"

text \<open>The reads of field deadlines, and \<^verbatim>\<open>HPERSIST\<close>, share a loop.\<close>

datatype ttl_kind = Ttl | Pttl | Persist | Expiretime | Pexpiretime

definition ttl_reply :: "env \<Rightarrow> ttl_kind \<Rightarrow> int \<Rightarrow> int" where
  "ttl_reply ev kind deadline =
     (let ms = - ((deadline - wall_ns ev) div - (10 ^ 6)) in
      case kind of
        Ttl \<Rightarrow> (ms + 500) div 1000
      | Pttl \<Rightarrow> ms
      | Expiretime \<Rightarrow> deadline div 10 ^ 9
      | _ \<Rightarrow> deadline div 10 ^ 6)"

fun hexpire_read_loop :: "env \<Rightarrow> ttl_kind \<Rightarrow> bytes list \<Rightarrow> hash \<Rightarrow> hash \<times> int list" where
  "hexpire_read_loop ev kind [] cur = (cur, [])"
| "hexpire_read_loop ev kind (field # rest) cur =
     (case hash_field ev field cur of
        (cur, found) \<Rightarrow>
          (let (cur, r) =
             (case found of
                None \<Rightarrow> (cur, - 2)
              | Some (v, None) \<Rightarrow> (cur, - 1)
              | Some (v, Some w) \<Rightarrow>
                  if kind = Persist then (hash_put field v None cur, 1) else (cur, ttl_reply ev kind w))
           in map_prod id (\<lambda>out. r # out) (hexpire_read_loop ev kind rest cur)))"

definition hexpire_read ::
  "env \<Rightarrow> bytes \<Rightarrow> bytes list \<Rightarrow> bytes \<Rightarrow> ttl_kind \<Rightarrow> 'bm server \<Rightarrow> 'bm cmd_result" where
  "hexpire_read ev key args command kind s =
     (if length args < 2 \<or> upper (hd args) \<noteq> ''FIELDS'' then raise_error s (arity command)
      else
        bindR (liftE s (field_names command (err ''Number of fields must be a positive integer'') (tl args)))
          (\<lambda>s names.
        bindR (get_hash ev key s) (\<lambda>s cur.
          case cur of
            None \<Rightarrow> returns s (RList (map (\<lambda>_. RInt (- 2)) names))
          | Some h \<Rightarrow>
              (case hexpire_read_loop ev kind names h of
                 (h, out) \<Rightarrow>
                   let s = set_hash key h s;
                       s = (if kind = Persist \<and> 1 \<in> set out then after_write key ''hpersist'' s else s)
                   in returns (drop_if_empty ev key h s) (RList (map RInt out))))))"

definition HTTL :: "env \<Rightarrow> bytes \<Rightarrow> bytes list \<Rightarrow> 'bm server \<Rightarrow> 'bm cmd_result" where
  "HTTL ev key args s = hexpire_read ev key args ''httl'' Ttl s"

definition HPTTL :: "env \<Rightarrow> bytes \<Rightarrow> bytes list \<Rightarrow> 'bm server \<Rightarrow> 'bm cmd_result" where
  "HPTTL ev key args s = hexpire_read ev key args ''hpttl'' Pttl s"

definition HPERSIST :: "env \<Rightarrow> bytes \<Rightarrow> bytes list \<Rightarrow> 'bm server \<Rightarrow> 'bm cmd_result" where
  "HPERSIST ev key args s = hexpire_read ev key args ''hpersist'' Persist s"

definition HEXPIRETIME :: "env \<Rightarrow> bytes \<Rightarrow> bytes list \<Rightarrow> 'bm server \<Rightarrow> 'bm cmd_result" where
  "HEXPIRETIME ev key args s = hexpire_read ev key args ''hexpiretime'' Expiretime s"

definition HPEXPIRETIME :: "env \<Rightarrow> bytes \<Rightarrow> bytes list \<Rightarrow> 'bm server \<Rightarrow> 'bm cmd_result" where
  "HPEXPIRETIME ev key args s = hexpire_read ev key args ''hpexpiretime'' Pexpiretime s"

section \<open>Safety\<close>

definition hash_of :: "'bm val option \<Rightarrow> error + hash option" where
  "hash_of v = (case v of None \<Rightarrow> Inr None | Some (VHash h) \<Rightarrow> Inr (Some h) | Some _ \<Rightarrow> Inl WRONGTYPE)"

lemma get_hash_eq: "get_hash ev key s = liftE (fst (srv_get ev key s)) (hash_of (value_at ev s key))"
  by (simp add: get_hash_def expect_kind_cases hash_of_def split: option.splits val.splits)

definition fields_ok :: "hash \<Rightarrow> bool" where
  "fields_ok h \<longleftrightarrow> distinct (map fst h)"

named_theorems fields_ok_simps

lemma fields_ok_basic [fields_ok_simps]:
  "fields_ok []" "fields_ok h \<Longrightarrow> fields_ok (hash_put field v deadline h)"
  "fields_ok h \<Longrightarrow> fields_ok (AList.delete field h)" "fields_ok h \<Longrightarrow> fields_ok (fst (hash_field ev field h))"
  "fields_ok h \<Longrightarrow> fields_ok (hash_purge ev h)"
  by (auto simp: fields_ok_def hash_put_def hash_field_def hash_purge_def distinct_update distinct_map_filter
      AList.distinct_delete alist.inv_put alist.inv_del split: option.splits simp del: AList.delete_eq)

lemma fields_ok_loops [fields_ok_simps]:
  "fields_ok h \<Longrightarrow> fields_ok (fst (hset_loop ev kvs h n))"
  "fields_ok h \<Longrightarrow> fields_ok (fst (hdel_loop ev names h n))"
  "fields_ok h \<Longrightarrow> fields_ok (fst (hmget_loop ev names h))"
  "fields_ok h \<Longrightarrow> fields_ok (fst (hexpire_loop ev flag w names h))"
  "fields_ok h \<Longrightarrow> fields_ok (fst (hexpire_read_loop ev kind names h))"
proof -
  show "fields_ok h \<Longrightarrow> fields_ok (fst (hset_loop ev kvs h n))"
    by (induction ev kvs h n rule: hset_loop.induct) (auto simp: case_prod_unfold fields_ok_simps)
  show "fields_ok h \<Longrightarrow> fields_ok (fst (hdel_loop ev names h n))"
    by (induction names arbitrary: h n) (auto simp: case_prod_unfold fields_ok_simps simp del: AList.delete_eq)
  show "fields_ok h \<Longrightarrow> fields_ok (fst (hmget_loop ev names h))"
    by (induction names arbitrary: h) (auto simp: case_prod_unfold fields_ok_simps)
  show "fields_ok h \<Longrightarrow> fields_ok (fst (hexpire_loop ev flag w names h))"
    by (induction names arbitrary: h)
      (auto simp: case_prod_unfold fields_ok_simps Let_def simp del: AList.delete_eq split: option.splits)
  show "fields_ok h \<Longrightarrow> fields_ok (fst (hexpire_read_loop ev kind names h))"
    by (induction names arbitrary: h) (auto simp: case_prod_unfold fields_ok_simps Let_def split: option.splits)
qed

lemma safe_hash_bind:
  assumes "\<And>s' cur. (store_ok (data s') \<Longrightarrow> (\<forall>h. cur = Some h \<longrightarrow> fields_ok h)) \<Longrightarrow> safe s' (fst (f s' cur))"
  shows "safe s (fst (bindR (get_hash ev key s) f))"
proof -
  let ?s = "fst (srv_get ev key s)"
  have "fields_ok h" if "store_ok (data ?s)" "hash_of (value_at ev s key) = Inr (Some h)" for h
    using value_at_ok [OF that(1), of ev key] that(2) value_at_cong [OF view_get]
    by (auto simp: hash_of_def fields_ok_def split: option.splits val.splits)
  then show ?thesis
    using safe_trans [OF safe_get assms]
    by (cases "hash_of (value_at ev s key)") (auto simp: get_hash_eq safe_get)
qed

lemma safe_set_hash:
  "safe s s' \<Longrightarrow> (store_ok (data s) \<Longrightarrow> fields_ok h) \<Longrightarrow> safe s (set_hash key h s')"
  unfolding set_hash_def
  using quiet_trans [OF _ quiet_upd_data] by (auto simp: safe_def fields_ok_def intro!: store_ok_mutate)

lemma safe_new_hash: "safe s s' \<Longrightarrow> safe s (upd_data (data_setitem key (VHash [])) s')"
  by (rule safe_setitem') simp_all

lemma safe_drop: "safe s s' \<Longrightarrow> safe s (drop_if_empty ev key h s')"
  by (simp add: drop_if_empty_def safe_remove')

lemma safe_hash_or_new:
  "safe s s' \<Longrightarrow> safe s (fst (hash_or_new key cur s'))"
  "(store_ok (data s) \<Longrightarrow> (\<forall>h. cur = Some h \<longrightarrow> fields_ok h)) \<Longrightarrow> store_ok (data s) \<Longrightarrow> fields_ok (snd (hash_or_new key cur s'))"
  by (auto simp: hash_or_new_def fields_ok_simps intro: safe_new_hash split: option.split)

lemmas safe_hash_intros = safe_set_hash safe_drop safe_after_write' safe_notify' safe_remove'

lemma safe_read_field: "safe s (fst (read_field ev key field s))"
  unfolding read_field_def
  by (rule safe_hash_bind) (auto simp: case_prod_unfold intro!: safe_hash_intros fields_ok_simps split: option.split)

lemma safe_read_pairs: "safe s (fst (read_pairs ev key s))"
  unfolding read_pairs_def
  by (rule safe_hash_bind)
    (auto simp: live_pairs_def Let_def intro!: safe_hash_intros fields_ok_simps split: option.split)

lemma safe_hset_pairs: "safe s (fst (hset_pairs ev key kvs s))"
  unfolding hset_pairs_def
  by (rule safe_hash_bind)
    (auto simp: case_prod_unfold intro!: safe_hash_intros fields_ok_simps safe_hash_or_new safe_hash_or_new(2) [rule_format])

lemma safe_hash_reads:
  "safe s (fst (HGET ev key field s))" "safe s (fst (HEXISTS ev key field s))" "safe s (fst (HSTRLEN ev key field s))"
  "safe s (fst (HMGET ev key names s))" "safe s (fst (HLEN ev key s))" "safe s (fst (HKEYS ev key s))"
  "safe s (fst (HVALS ev key s))" "safe s (fst (HGETALL ev key s))" "safe s (fst (HSCAN ev key cursor options s))"
  "safe s (fst (HRANDFIELD ev key num options s))"
proof -
  show "safe s (fst (HMGET ev key names s))"
    by (auto simp: HMGET_def case_prod_unfold intro!: safe_hash_bind safe_hash_intros fields_ok_simps split: option.split)
  show "safe s (fst (HSCAN ev key cursor options s))"
    by (auto simp: HSCAN_def intro!: safe_bind safe_intros safe_read_pairs)
  show "safe s (fst (HRANDFIELD ev key num options s))"
    by (auto simp: HRANDFIELD_def Let_def intro!: safe_bind safe_read_pairs split: option.split)
qed (auto simp: HGET_def HEXISTS_def HSTRLEN_def HLEN_def HKEYS_def HVALS_def HGETALL_def
    intro!: safe_bind safe_read_field safe_read_pairs)

lemma safe_hash_writes:
  "safe s (fst (HSET ev key kvs s))" "safe s (fst (HMSET ev key kvs s))"
  "safe s (fst (HDEL ev key names s))"
proof -
  show "safe s (fst (HDEL ev key names s))"
    unfolding HDEL_def Let_def
    by (auto simp: case_prod_unfold intro!: safe_hash_bind safe_hash_intros fields_ok_simps split: option.split)
qed (auto simp: HSET_def HMSET_def intro!: safe_bind safe_hset_pairs)

lemma safe_HSETNX: "safe s (fst (HSETNX ev key field v s))"
  unfolding HSETNX_def
proof (rule safe_hash_bind)
  fix s' :: "'a server" and cur assume ok: "store_ok (data s') \<Longrightarrow> (\<forall>h. cur = Some h \<longrightarrow> fields_ok h)"
  show "safe s' (fst (let (cur, found) = (case cur of
             None \<Rightarrow> (None, None)
           | Some h \<Rightarrow> (case hash_field ev field h of (h, found) \<Rightarrow> (Some h, found)));
           s = (case cur of None \<Rightarrow> s' | Some h \<Rightarrow> set_hash key h s')
       in if found \<noteq> None then returns s (RInt 0)
          else
            case hash_or_new key cur s of
              (s, h) \<Rightarrow>
                returns (after_write key ''hset'' (set_hash key (hash_put field v None h) s)) (RInt 1)))"
    using ok by (cases cur)
      (auto simp: Let_def case_prod_unfold hash_or_new_def intro!: safe_hash_intros fields_ok_simps safe_new_hash)
qed

lemma safe_HINCRBY: "safe s (fst (HINCRBY ev key field i s))"
  unfolding HINCRBY_def Let_def case_prod_unfold
proof (rule safe_hash_bind, goal_cases)
  case (1 s' cur)
  note ok = this
  have n: "safe s' (fst (hash_or_new key cur s'))" by (intro safe_hash_or_new safe_refl)
  have o: "fields_ok (snd (hash_or_new key cur s'))" if "store_ok (data s')"
    by (rule safe_hash_or_new(2) [where s = s']) (use ok that in blast)+
  show ?case
    by (auto intro!: safe_after_write' safe_set_hash fields_ok_simps n o split: option.split)
qed

lemma safe_HINCRBYFLOAT: "safe s (fst (HINCRBYFLOAT ev key field i s))"
  unfolding HINCRBYFLOAT_def Let_def case_prod_unfold
proof (split option.split, intro conjI allI impI, goal_cases)
  case (2 increment)
  show ?case
  proof (cases "is_finite increment")
    case True
    show ?thesis
    proof (simp add: True, rule safe_hash_bind, goal_cases)
      case (1 s' cur)
      note ok = this
      have n: "safe s' (fst (hash_or_new key cur s'))" by (intro safe_hash_or_new safe_refl)
      have o: "fields_ok (snd (hash_or_new key cur s'))" if "store_ok (data s')"
        by (rule safe_hash_or_new(2) [where s = s']) (use ok that in blast)+
      show ?case
        by (auto intro!: safe_after_write' safe_set_hash fields_ok_simps n o split: option.split)
    qed
  qed simp
qed simp

lemma safe_hexpire: "safe s (fst (hexpire ev key args command s))"
  unfolding hexpire_def Let_def
  by (auto simp: case_prod_unfold
      intro!: safe_bind safe_intros safe_hash_bind safe_hash_intros fields_ok_simps split: option.split)

lemma safe_hexpire_read: "safe s (fst (hexpire_read ev key args command kind s))"
  unfolding hexpire_read_def Let_def
  by (auto simp: case_prod_unfold
      intro!: safe_bind safe_intros safe_hash_bind safe_hash_intros fields_ok_simps split: option.split)

lemmas safe_hash_cmds =
  safe_hash_reads safe_hash_writes safe_HSETNX safe_HINCRBY safe_HINCRBYFLOAT
  safe_hexpire [of _ _ _ _ "''hexpire''", folded HEXPIRE_def] safe_hexpire [of _ _ _ _ "''hpexpire''", folded HPEXPIRE_def]
  safe_hexpire [of _ _ _ _ "''hexpireat''", folded HEXPIREAT_def]
  safe_hexpire [of _ _ _ _ "''hpexpireat''", folded HPEXPIREAT_def]
  safe_hexpire_read [of _ _ _ _ "''httl''" Ttl, folded HTTL_def]
  safe_hexpire_read [of _ _ _ _ "''hpttl''" Pttl, folded HPTTL_def]
  safe_hexpire_read [of _ _ _ _ "''hpersist''" Persist, folded HPERSIST_def]
  safe_hexpire_read [of _ _ _ _ "''hexpiretime''" Expiretime, folded HEXPIRETIME_def]
  safe_hexpire_read [of _ _ _ _ "''hpexpiretime''" Pexpiretime, folded HPEXPIRETIME_def]

section \<open>A hash as a map\<close>

text \<open>The live fields of a hash, with their value and deadline, and those of a key.\<close>

definition field_view :: "env \<Rightarrow> hash \<Rightarrow> bytes \<Rightarrow> (bytes \<times> int option) option" where
  "field_view ev h field =
     (case map_of h field of None \<Rightarrow> None | Some raw \<Rightarrow> if field_live ev raw then Some (hash_entry raw) else None)"

definition hash_at :: "env \<Rightarrow> 'bm server \<Rightarrow> bytes \<Rightarrow> bytes \<Rightarrow> (bytes \<times> int option) option" where
  "hash_at ev s key = (case value_at ev s key of Some (VHash h) \<Rightarrow> field_view ev h | _ \<Rightarrow> Map.empty)"

definition hash_typed :: "env \<Rightarrow> 'bm server \<Rightarrow> bytes \<Rightarrow> bool" where
  "hash_typed ev s key \<longleftrightarrow> (case value_at ev s key of None \<Rightarrow> True | Some (VHash h) \<Rightarrow> True | _ \<Rightarrow> False)"

lemma field_view_Nil [simp]: "field_view ev [] = Map.empty"
  by (simp add: field_view_def fun_eq_iff)

lemma field_view_put:
  "field_view ev (hash_put field v deadline h) =
     (field_view ev h)(field := if (case deadline of None \<Rightarrow> True | Some w \<Rightarrow> wall_ns ev < w) then Some (v, deadline) else None)"
  by (auto simp: field_view_def hash_put_def map_of_update field_live_def fun_eq_iff split: option.split)

lemma field_view_delete: "field_view ev (AList.delete field h) = (field_view ev h)(field := None)"
  by (auto simp: field_view_def map_of_delete_if fun_eq_iff split: option.split)

lemma field_view_field: "field_view ev (fst (hash_field ev field h)) = field_view ev h"
  "snd (hash_field ev field h) = field_view ev h field"
  by (auto simp: hash_field_def field_view_delete fun_eq_iff split: option.split) (auto simp: field_view_def)

lemma field_view_purge: "fields_ok h \<Longrightarrow> field_view ev (hash_purge ev h) = field_view ev h"
  by (auto simp: field_view_def hash_purge_def fields_ok_def map_of_filter_distinct fun_eq_iff split: option.split)

lemmas field_view_simps = field_view_put field_view_delete field_view_field

text \<open>What \<^verbatim>\<open>HSET\<close> is given, as the flat list of its arguments.\<close>

definition flat_args :: "(bytes \<times> bytes) list \<Rightarrow> bytes list" where
  "flat_args kvs = concat (map (\<lambda>(field, v). [field, v]) kvs)"

lemma length_flat_args: "length (flat_args kvs) = 2 * length kvs"
  by (induction kvs) (auto simp: flat_args_def)

lemma hset_loop_view:
  "field_view ev (fst (hset_loop ev (flat_args kvs) h n)) =
      field_view ev h ++ map_of (rev (map (\<lambda>(field, v). (field, (v, None))) kvs))
    \<and> snd (hset_loop ev (flat_args kvs) h n) = n + int (card (fst ` set kvs - dom (field_view ev h)))"
proof (induction kvs arbitrary: h n)
  case (Cons kv kvs)
  obtain f v where kv: "kv = (f, v)" by (cases kv)
  let ?h = "hash_put f v None (fst (hash_field ev f h))"
  have view: "field_view ev ?h = (field_view ev h)(f \<mapsto> (v, None))" by (simp add: field_view_simps)
  have step: "hset_loop ev (flat_args (kv # kvs)) h n =
      hset_loop ev (flat_args kvs) ?h (if field_view ev h f = None then n + 1 else n)"
    by (simp add: flat_args_def kv case_prod_unfold field_view_simps)
  have "fst ` set kvs - dom (field_view ev ?h) = fst ` set (kv # kvs) - dom (field_view ev h) - {f}"
    by (auto simp: view kv)
  then have c: "card (fst ` set (kv # kvs) - dom (field_view ev h)) =
      card (fst ` set kvs - dom (field_view ev ?h)) + (if field_view ev h f = None then 1 else 0)"
    by (auto simp: kv card_Diff_singleton_if domIff Suc_diff_1 card_gt_0_iff dest: card_Suc_Diff1 intro: card_Suc_Diff1)
  have m: "field_view ev h ++ map_of (rev (map (\<lambda>(field, v). (field, (v, None))) (kv # kvs))) =
      field_view ev ?h ++ map_of (rev (map (\<lambda>(field, v). (field, (v, None))) kvs))"
    by (auto simp: kv view fun_eq_iff map_add_def split: option.split)
  show ?case
    using Cons.IH [of ?h "if field_view ev h f = None then n + 1 else n"]
    unfolding step m c by simp
qed (simp add: flat_args_def)

lemma hdel_loop_view:
  "field_view ev (fst (hdel_loop ev names h n)) = field_view ev h |` (- set names)
    \<and> snd (hdel_loop ev names h n) = n + int (card (set names \<inter> dom (field_view ev h)))"
proof (induction names arbitrary: h n)
  case (Cons f names)
  let ?g = "fst (hash_field ev f h)"
  show ?case
  proof (cases "field_view ev h f")
    case None
    then have "set (f # names) \<inter> dom (field_view ev h) = set names \<inter> dom (field_view ev h)" by auto
    moreover have "field_view ev h |` (- set (f # names)) = field_view ev h |` (- set names)"
      using None by (auto simp: restrict_map_def fun_eq_iff)
    ultimately show ?thesis using None Cons.IH [of ?g n] by (simp add: case_prod_unfold field_view_simps)
  next
    case (Some x)
    have "set (f # names) \<inter> dom (field_view ev h) = insert f (set names \<inter> (dom (field_view ev h) - {f}))"
      using Some by auto
    then have "card (set (f # names) \<inter> dom (field_view ev h)) = Suc (card (set names \<inter> (dom (field_view ev h) - {f})))"
      by simp
    moreover have "dom ((field_view ev h)(f := None)) = dom (field_view ev h) - {f}" by auto
    moreover have v: "field_view ev (AList.delete f ?g) = (field_view ev h)(f := None)" by (simp only: field_view_simps)
    moreover have r: "((field_view ev h)(f := None)) |` (- set names) = field_view ev h |` (- set (f # names))"
      by (auto simp: restrict_map_def fun_eq_iff)
    moreover have step: "hdel_loop ev (f # names) h n = hdel_loop ev names (AList.delete f ?g) (n + 1)"
      using Some by (simp add: case_prod_unfold field_view_simps del: AList.delete_eq)
    ultimately show ?thesis using Cons.IH [of "AList.delete f ?g" "n + 1"]
      unfolding step v r by (simp only:) simp
  qed
qed (simp add: restrict_map_def)

section \<open>What the commands do to the view\<close>

lemma hash_typed_cases:
  assumes "hash_typed ev s key"
  obtains "hash_of (value_at ev s key) = Inr None" "hash_at ev s key = Map.empty" "view ev s key = None"
      "deadline_of ev s key = None"
    | h where "hash_of (value_at ev s key) = Inr (Some h)" "hash_at ev s key = field_view ev h"
      "view ev s key = Some (VHash h, deadline_of ev s key)"
proof (cases "view ev s key")
  case None
  then show ?thesis using that(1) by (simp add: value_at_def hash_of_def hash_at_def deadline_of_def)
next
  case (Some x)
  then obtain h t where "x = (VHash h, t)"
    using assms by (cases x) (auto simp: hash_typed_def value_at_def split: val.splits)
  then show ?thesis using that(2) Some by (simp add: value_at_def hash_of_def hash_at_def deadline_of_def)
qed

lemma hash_at_view: "view ev s key = Some (VHash h, t) \<Longrightarrow> hash_at ev s key = field_view ev h"
  "view ev s key = None \<Longrightarrow> hash_at ev s key = Map.empty"
  by (simp_all add: hash_at_def value_at_def)

lemma hash_at_entry:
  "view ev s key = (if h = [] then None else Some (VHash h, t)) \<Longrightarrow> hash_at ev s key = field_view ev h"
  by (auto simp: hash_at_view split: if_splits)

lemma view_set_hash [view_simps]:
  "view ev (set_hash key h s) =
     (case view ev s key of None \<Rightarrow> view ev s | Some (_, t) \<Rightarrow> (view ev s)(key \<mapsto> (VHash h, t)))"
  by (simp add: set_hash_def view_simps)

lemma view_drop_if_empty [view_simps]:
  "view ev (drop_if_empty ev key h s) = (if h = [] then (view ev s)(key := None) else view ev s)"
  by (simp add: drop_if_empty_def view_simps)

lemma view_HSET:
  assumes "hash_typed ev s key" "2 \<le> length args" "even (length args)"
  defines "h \<equiv> (case hash_of (value_at ev s key) of Inr (Some h) \<Rightarrow> h | _ \<Rightarrow> [])"
  shows "view ev (fst (HSET ev key args s)) =
      (view ev s)(key \<mapsto> (VHash (fst (hset_loop ev args h 0)), deadline_of ev s key))"
    and "snd (HSET ev key args s) = Inr (RInt (snd (hset_loop ev args h 0)))"
    and "hash_at ev s key = field_view ev h"
  using assms(1)
  by (cases rule: hash_typed_cases;
      use assms(2,3) in \<open>simp add: h_def HSET_def hset_pairs_def get_hash_eq hash_or_new_def case_prod_unfold view_simps\<close>)+

lemma view_HDEL:
  assumes "hash_typed ev s key" "names \<noteq> []"
  defines "h \<equiv> (case hash_of (value_at ev s key) of Inr (Some h) \<Rightarrow> h | _ \<Rightarrow> [])"
  defines "h' \<equiv> fst (hdel_loop ev names h 0)"
  shows "view ev (fst (HDEL ev key names s)) = (view ev s)(key :=
      if h' = [] then None else Some (VHash h', deadline_of ev s key))"
    and "snd (HDEL ev key names s) = Inr (RInt (snd (hdel_loop ev names h 0)))"
    and "hash_at ev s key = field_view ev h"
proof -
  have n: "hdel_loop ev names [] 0 = ([], 0)"
    by (induction names) (auto simp: hash_field_def)
  show "view ev (fst (HDEL ev key names s)) = (view ev s)(key :=
      if h' = [] then None else Some (VHash h', deadline_of ev s key))"
    "snd (HDEL ev key names s) = Inr (RInt (snd (hdel_loop ev names h 0)))" "hash_at ev s key = field_view ev h"
    using assms(1)
    by (cases rule: hash_typed_cases;
      use assms(2) n in \<open>simp add: h_def h'_def HDEL_def Let_def get_hash_eq case_prod_unfold view_simps fun_eq_iff\<close>)+
qed

lemma hmget_loop_view:
  "snd (hmget_loop ev names h) = map (\<lambda>field. bulk_or_nil (map_option fst (field_view ev h field))) names
    \<and> field_view ev (fst (hmget_loop ev names h)) = field_view ev h"
proof (induction names arbitrary: h)
  case (Cons f names)
  show ?case using Cons [of "fst (hash_field ev f h)"] by (simp add: case_prod_unfold field_view_simps)
qed simp

lemma card_dom_map_of: "distinct (map fst m) \<Longrightarrow> card (dom (map_of m)) = length m"
  by (metis distinct_card dom_map_of_conv_image_fst length_map list.set_map)

lemma live_pairs_view:
  assumes "fields_ok h"
  shows "map_of (snd (live_pairs ev h)) = (\<lambda>field. map_option fst (field_view ev h field))"
    and "distinct (map fst (snd (live_pairs ev h)))"
    and "length (snd (live_pairs ev h)) = card (dom (field_view ev h))"
    and "fst (live_pairs ev h) = [] \<longleftrightarrow> field_view ev h = Map.empty"
    and "field_view ev (fst (live_pairs ev h)) = field_view ev h"
proof -
  let ?g = "hash_purge ev h"
  have g: "fields_ok ?g" "field_view ev ?g = field_view ev h" using assms by (simp_all add: fields_ok_simps field_view_purge)
  have all: "field_view ev ?g field = map_option hash_entry (map_of ?g field)" for field
    using assms by (auto simp: field_view_def hash_purge_def fields_ok_def map_of_filter_distinct split: option.split)
  show m: "map_of (snd (live_pairs ev h)) = (\<lambda>field. map_option fst (field_view ev h field))"
    by (simp add: live_pairs_def Let_def map_of_map_snd g(2) [symmetric] all fun_eq_iff option.map_comp comp_def)
  show d: "distinct (map fst (snd (live_pairs ev h)))"
    using g(1) by (simp add: live_pairs_def Let_def fields_ok_def comp_def case_prod_unfold)
  have "dom (map_of (snd (live_pairs ev h))) = dom (field_view ev h)" by (auto simp: m)
  then show "length (snd (live_pairs ev h)) = card (dom (field_view ev h))" using card_dom_map_of [OF d] by simp
  have "?g = [] \<longleftrightarrow> (\<forall>field. map_of ?g field = None)" 
    using map_of_eq_empty_iff [of ?g] by (simp only: fun_eq_iff)
  then show "fst (live_pairs ev h) = [] \<longleftrightarrow> field_view ev h = Map.empty"
    by (simp add: live_pairs_def Let_def g(2) [symmetric] all fun_eq_iff)
  show "field_view ev (fst (live_pairs ev h)) = field_view ev h" by (simp add: live_pairs_def Let_def g(2))
qed

lemma read_pairs_eq:
  assumes "store_ok (data s)" "hash_typed ev s key"
  obtains ps where "distinct (map fst ps)" "map_of ps = (\<lambda>field. map_option fst (hash_at ev s key field))"
    "length ps = card (dom (hash_at ev s key))"
    "snd (read_pairs ev key s) = Inr (if view ev s key = None then None else Some ps)"
    "view ev s key = None \<Longrightarrow> ps = []"
    "hash_at ev (fst (read_pairs ev key s)) key = hash_at ev s key"
    "view ev (fst (read_pairs ev key s)) key = None \<longleftrightarrow> hash_at ev s key = Map.empty"
    "\<And>k. k \<noteq> key \<Longrightarrow> view ev (fst (read_pairs ev key s)) k = view ev s k"
  using assms(2)
proof (cases rule: hash_typed_cases)
  case 1
  then have s': "fst (read_pairs ev key s) = fst (srv_get ev key s)" "snd (read_pairs ev key s) = Inr None"
    by (simp_all add: read_pairs_def get_hash_eq)
  have "hash_at ev (fst (srv_get ev key s)) key = Map.empty" using 1 by (simp add: hash_at_view view_simps)
  then show ?thesis
    by (intro that [of "[]"]) (use 1 in \<open>simp_all add: s' view_simps\<close>)
next
  case (2 h)
  have "fields_ok h" using value_at_ok [OF assms(1), of ev key] 2(3) by (simp add: value_at_def fields_ok_def)
  note lp = live_pairs_view [OF this, of ev]
  have s': "fst (read_pairs ev key s) = drop_if_empty ev key (fst (live_pairs ev h))
      (set_hash key (fst (live_pairs ev h)) (fst (srv_get ev key s)))"
    using 2 by (simp add: read_pairs_def get_hash_eq case_prod_unfold)
  then have v: "view ev (fst (read_pairs ev key s)) = (view ev s)(key :=
      if fst (live_pairs ev h) = [] then None else Some (VHash (fst (live_pairs ev h)), deadline_of ev s key))"
    using 2(3) by (simp add: view_simps fun_eq_iff)
  have "hash_at ev (fst (read_pairs ev key s)) key = field_view ev (fst (live_pairs ev h))"
    by (rule hash_at_entry) (simp add: v)
  then show ?thesis
    by (intro that [of "snd (live_pairs ev h)"])
      (use 2 lp v in \<open>simp_all add: read_pairs_def get_hash_eq case_prod_unfold\<close>)
qed

lemma view_read_field:
  assumes "hash_typed ev s key"
  shows "snd (read_field ev key field s) = Inr (hash_at ev s key field)"
    and "hash_at ev (fst (read_field ev key field s)) key = hash_at ev s key"
    and "k \<noteq> key \<Longrightarrow> view ev (fst (read_field ev key field s)) k = view ev s k"
  using assms
  by (cases rule: hash_typed_cases;
    simp add: read_field_def get_hash_eq case_prod_unfold view_simps field_view_simps hash_at_view)+

lemma HMGET_reply:
  assumes "hash_typed ev s key" "names \<noteq> []"
  shows "snd (HMGET ev key names s) =
    Inr (RList (map (\<lambda>field. bulk_or_nil (map_option fst (hash_at ev s key field))) names))"
  using assms(1)
  by (cases rule: hash_typed_cases;
    use assms(2) in \<open>simp add: HMGET_def get_hash_eq case_prod_unfold hmget_loop_view bulk_or_nil_def\<close>)

lemma hexpire_loop_view:
  assumes "distinct names"
  shows "snd (hexpire_loop ev flag w names h) =
      map (\<lambda>field. case field_view ev h field of
          None \<Rightarrow> - 2
        | Some (v, deadline) \<Rightarrow> if flag_blocks flag deadline w then 0 else if w \<le> wall_ns ev then 2 else 1) names
    \<and> field_view ev (fst (hexpire_loop ev flag w names h)) = (\<lambda>field.
        case field_view ev h field of
          None \<Rightarrow> None
        | Some (v, deadline) \<Rightarrow>
            if field \<notin> set names \<or> flag_blocks flag deadline w then Some (v, deadline)
            else if w \<le> wall_ns ev then None else Some (v, Some w))"
  using assms
proof (induction names arbitrary: h)
  case (Cons f names)
  let ?g = "fst (hash_field ev f h)"
  let ?h = "case field_view ev h f of None \<Rightarrow> ?g
    | Some (v, deadline) \<Rightarrow> if flag_blocks flag deadline w then ?g
        else if w \<le> wall_ns ev then AList.delete f ?g else hash_put f v (Some w) ?g"
  have h: "field_view ev ?h = (\<lambda>x. if x \<noteq> f then field_view ev h x else
      case field_view ev h f of None \<Rightarrow> None
      | Some (v, deadline) \<Rightarrow> if flag_blocks flag deadline w then Some (v, deadline)
          else if w \<le> wall_ns ev then None else Some (v, Some w))"
    by (auto simp: field_view_simps fun_eq_iff split: option.split simp del: AList.delete_eq)
  have step: "hexpire_loop ev flag w (f # names) h = map_prod id (\<lambda>out.
      (case field_view ev h f of None \<Rightarrow> - 2
        | Some (v, deadline) \<Rightarrow> if flag_blocks flag deadline w then 0 else if w \<le> wall_ns ev then 2 else 1) # out)
      (hexpire_loop ev flag w names ?h)"
    by (auto simp: case_prod_unfold field_view_simps Let_def split: option.split simp del: AList.delete_eq)
  have f: "f \<notin> set names" "distinct names" using Cons.prems by auto
  have "map (\<lambda>field. case field_view ev ?h field of
          None \<Rightarrow> - 2
        | Some (v, deadline) \<Rightarrow> if flag_blocks flag deadline w then 0 else if w \<le> wall_ns ev then 2 else (1 :: int)) names =
      map (\<lambda>field. case field_view ev h field of
          None \<Rightarrow> - 2
        | Some (v, deadline) \<Rightarrow> if flag_blocks flag deadline w then 0 else if w \<le> wall_ns ev then 2 else 1) names"
    using f(1) unfolding h by (intro map_cong) (auto simp: split: option.split)
  then show ?case using Cons.IH [OF f(2), of ?h] f(1) unfolding step
    by (auto simp: h fun_eq_iff split: option.split)
qed (auto simp: fun_eq_iff split: option.split)

section \<open>Properties\<close>

text \<open>
  C21: writing fields.  \<^verbatim>\<open>HSET\<close> stores every pair, the last one of a repeated field, without a deadline, and
  answers how many of the fields were new, where an expired field counts as new; \<^verbatim>\<open>HDEL\<close> takes the fields
  out and answers how many were there.  The other live fields and the other keys stay as they were.
\<close>

theorem hash_writes_correct:
  assumes "hash_typed ev s key" "kvs \<noteq> []" "names \<noteq> []"
  shows "hash_at ev (fst (HSET ev key (flat_args kvs) s)) key =
        hash_at ev s key ++ map_of (rev (map (\<lambda>(field, v). (field, (v, None))) kvs))
    \<and> snd (HSET ev key (flat_args kvs) s) = Inr (RInt (int (card (fst ` set kvs - dom (hash_at ev s key)))))
    \<and> hash_at ev (fst (HDEL ev key names s)) key = hash_at ev s key |` (- set names)
    \<and> snd (HDEL ev key names s) = Inr (RInt (int (card (set names \<inter> dom (hash_at ev s key)))))
    \<and> (\<forall>k. k \<noteq> key \<longrightarrow> view ev (fst (HSET ev key (flat_args kvs) s)) k = view ev s k
        \<and> view ev (fst (HDEL ev key names s)) k = view ev s k)"
proof -
  have args: "2 \<le> length (flat_args kvs)" "even (length (flat_args kvs))"
    using assms(2) by (cases kvs; simp add: length_flat_args)+
  note set = view_HSET [OF assms(1) args]
  note del = view_HDEL [OF assms(1,3)]
  have "hash_at ev (fst (HSET ev key (flat_args kvs) s)) key = field_view ev (fst (hset_loop ev (flat_args kvs)
      (case hash_of (value_at ev s key) of Inr (Some h) \<Rightarrow> h | _ \<Rightarrow> []) 0))"
    by (rule hash_at_view) (simp add: set(1))
  moreover have "hash_at ev (fst (HDEL ev key names s)) key = field_view ev (fst (hdel_loop ev names
      (case hash_of (value_at ev s key) of Inr (Some h) \<Rightarrow> h | _ \<Rightarrow> []) 0))"
    by (rule hash_at_entry) (simp add: del(1))
  ultimately show ?thesis
    using hset_loop_view [of ev kvs _ 0] hdel_loop_view [of ev names _ 0] unfolding set del by simp
qed

theorem hash_writes_correct_witness:
  "snd (HSET demo_env ''h'' [''a'', ''1'', ''b'', ''2'', ''a'', ''3'']
      (with_keys [(''h'', VHash [(''b'', Plain ''0''), (''c'', Expiring ''x'' 5)])] :: unit server)) = Inr (RInt 1)
   \<and> snd (HDEL demo_env ''h'' [''b'', ''c'']
      (with_keys [(''h'', VHash [(''b'', Plain ''0''), (''c'', Expiring ''x'' 5)])] :: unit server)) = Inr (RInt 1)"
proof -
  let ?s = "with_keys [(''h'', VHash [(''b'', Plain ''0''), (''c'', Expiring ''x'' 5)])] :: unit server"
  let ?kvs = "[(''a'', ''1''), (''b'', ''2''), (''a'', ''3'')]"
  have v: "value_at demo_env ?s ''h'' = Some (VHash [(''b'', Plain ''0''), (''c'', Expiring ''x'' 5)])"
    by (simp add: value_at_with_keys)
  have dom: "dom (hash_at demo_env ?s ''h'') = {''b''}"
    by (auto simp: hash_at_def v field_view_def field_live_def split: if_splits)
  have "hash_typed demo_env ?s ''h''" by (simp add: hash_typed_def v)
  moreover have "flat_args ?kvs = [''a'', ''1'', ''b'', ''2'', ''a'', ''3'']" by (simp add: flat_args_def)
  moreover have "fst ` set ?kvs - {''b''} = {''a''}" "set [''b'', ''c''] \<inter> {''b''} = {''b''}" by auto
  ultimately show ?thesis
    using hash_writes_correct [of demo_env ?s "''h''" ?kvs "[''b'', ''c'']"] unfolding dom by simp
qed

text \<open>
  reading fields.  Every read sees exactly the live fields: one field, several in the order asked for,
  their number, or all of them, each once; the reads of a whole hash also drop the expired fields, and the
  key with the last of them.  No read changes the live fields of any key.
\<close>

theorem hash_reads_correct:
  assumes "store_ok (data s)" "hash_typed ev s key" "names \<noteq> []"
  shows "snd (HGET ev key field s) = Inr (bulk_or_nil (map_option fst (hash_at ev s key field)))
    \<and> snd (HMGET ev key names s) =
        Inr (RList (map (\<lambda>field. bulk_or_nil (map_option fst (hash_at ev s key field))) names))
    \<and> snd (HLEN ev key s) = Inr (RInt (int (card (dom (hash_at ev s key)))))
    \<and> (\<exists>ps. snd (HGETALL ev key s) = Inr (RList (flat_pairs ps)) \<and> distinct (map fst ps)
          \<and> map_of ps = (\<lambda>field. map_option fst (hash_at ev s key field)))
    \<and> (view ev (fst (HGETALL ev key s)) key = None \<longleftrightarrow> hash_at ev s key = Map.empty)
    \<and> hash_at ev (fst (HGET ev key field s)) key = hash_at ev s key
    \<and> hash_at ev (fst (HGETALL ev key s)) key = hash_at ev s key
    \<and> (\<forall>k. k \<noteq> key \<longrightarrow> view ev (fst (HGET ev key field s)) k = view ev s k
        \<and> view ev (fst (HGETALL ev key s)) k = view ev s k)"
proof -
  note rf = view_read_field [OF assms(2)]
  obtain ps where ps: "distinct (map fst ps)" "map_of ps = (\<lambda>field. map_option fst (hash_at ev s key field))"
    "length ps = card (dom (hash_at ev s key))"
    "snd (read_pairs ev key s) = Inr (if view ev s key = None then None else Some ps)"
    "view ev s key = None \<Longrightarrow> ps = []"
    and rest: "hash_at ev (fst (read_pairs ev key s)) key = hash_at ev s key"
    "view ev (fst (read_pairs ev key s)) key = None \<longleftrightarrow> hash_at ev s key = Map.empty"
    "\<And>k. k \<noteq> key \<Longrightarrow> view ev (fst (read_pairs ev key s)) k = view ev s k"
    by (rule read_pairs_eq [OF assms(1,2)]) (rule that; (assumption | blast))
  have rf': "read_field ev key field s = returns (fst (read_field ev key field s)) (hash_at ev s key field)"
    using rf(1) [of field] by (simp add: returns_def prod_eq_iff)
  have g: "HGET ev key field s = returns (fst (read_field ev key field s)) (bulk_or_nil (map_option fst (hash_at ev s key field)))"
    unfolding HGET_def by (subst rf') simp
  have rp: "read_pairs ev key s = returns (fst (read_pairs ev key s)) (if view ev s key = None then None else Some ps)"
    using ps(4) by (simp add: returns_def prod_eq_iff)
  have a: "HGETALL ev key s = returns (fst (read_pairs ev key s)) (RList (flat_pairs ps))"
    "HLEN ev key s = returns (fst (read_pairs ev key s)) (RInt (int (length ps)))"
    unfolding HGETALL_def HLEN_def
    by (subst rp, cases "view ev s key = None"; use ps(5) in \<open>simp add: flat_pairs_def\<close>)+
  show ?thesis
  proof (intro conjI)
    show "\<exists>ps. snd (HGETALL ev key s) = Inr (RList (flat_pairs ps)) \<and> distinct (map fst ps)
          \<and> map_of ps = (\<lambda>field. map_option fst (hash_at ev s key field))"
      using ps(1,2) unfolding a(1) snd_returns by blast
    show "\<forall>k. k \<noteq> key \<longrightarrow> view ev (fst (HGET ev key field s)) k = view ev s k
        \<and> view ev (fst (HGETALL ev key s)) k = view ev s k"
      using rf(3) rest(3) unfolding g a fst_returns by blast
    show "snd (HLEN ev key s) = Inr (RInt (int (card (dom (hash_at ev s key)))))" unfolding a ps(3) by simp
    show "snd (HGET ev key field s) = Inr (bulk_or_nil (map_option fst (hash_at ev s key field)))"
      "hash_at ev (fst (HGET ev key field s)) key = hash_at ev s key"
      unfolding g snd_returns fst_returns using rf(2) by blast+
    show "view ev (fst (HGETALL ev key s)) key = None \<longleftrightarrow> hash_at ev s key = Map.empty"
      "hash_at ev (fst (HGETALL ev key s)) key = hash_at ev s key"
      unfolding a(1) fst_returns using rest(1,2) by blast+
  qed (rule HMGET_reply [OF assms(2,3)])
qed

theorem hash_reads_correct_witness:
  "snd (HGET demo_env ''h'' ''b'' (with_keys [(''h'', VHash [(''b'', Plain ''0''), (''c'', Expiring ''x'' 5)])] :: unit server))
      = Inr (RBytes ''0'')
   \<and> snd (HLEN demo_env ''h'' (with_keys [(''h'', VHash [(''b'', Plain ''0''), (''c'', Expiring ''x'' 5)])] :: unit server))
      = Inr (RInt 1)"
proof -
  let ?s = "with_keys [(''h'', VHash [(''b'', Plain ''0''), (''c'', Expiring ''x'' 5)])] :: unit server"
  have v: "value_at demo_env ?s ''h'' = Some (VHash [(''b'', Plain ''0''), (''c'', Expiring ''x'' 5)])"
    by (simp add: value_at_with_keys)
  have h: "hash_at demo_env ?s ''h'' = [''b'' \<mapsto> (''0'', None)]"
    by (auto simp: hash_at_def v field_view_def field_live_def fun_eq_iff)
  have "store_ok (data ?s)"
    by (simp add: with_keys_def Commands_def store_ok_setitem del: data_upd_data) (simp add: upd_data_def store_ok_setitem)
  moreover have "hash_typed demo_env ?s ''h''" by (simp add: hash_typed_def v)
  ultimately show ?thesis
    using hash_reads_correct [of ?s demo_env "''h''" "[''b'']" "''b''"] unfolding h by (simp add: bulk_or_nil_def)
qed

text \<open>
  expirations of fields.  For every named field the commands answer -2 when it is missing, 0 when the
  flag forbids the change, 2 when the time has passed, and then the field is gone, and 1 when the deadline
  was set, and then the field keeps its value; the fields not named are left alone.
\<close>

theorem hexpire_correct:
  assumes "hash_typed ev s key" "distinct names"
    and "parse_field_ttl_args ev args command = Inr (when_ms, flag, names)"
  defines "w \<equiv> if is_absolute command then when_ms * 10 ^ 6 else wall_ns ev + when_ms * 10 ^ 6"
  shows "snd (hexpire ev key args command s) = Inr (RList (map (\<lambda>field. RInt
        (case hash_at ev s key field of
           None \<Rightarrow> - 2
         | Some (v, deadline) \<Rightarrow> if flag_blocks flag deadline w then 0 else if w \<le> wall_ns ev then 2 else 1)) names))
    \<and> hash_at ev (fst (hexpire ev key args command s)) key = (\<lambda>field.
        case hash_at ev s key field of
          None \<Rightarrow> None
        | Some (v, deadline) \<Rightarrow>
            if field \<notin> set names \<or> flag_blocks flag deadline w then Some (v, deadline)
            else if w \<le> wall_ns ev then None else Some (v, Some w))"
  using assms(1)
proof (cases rule: hash_typed_cases)
  case 1
  then have "hexpire ev key args command s = returns (fst (srv_get ev key s)) (RList (map (\<lambda>_. RInt (- 2)) names))"
    by (simp add: hexpire_def assms(3) get_hash_eq)
  then show ?thesis using 1 by (simp add: hash_at_view view_simps)
next
  case (2 h)
  let ?l = "hexpire_loop ev flag w names h"
  note loop = hexpire_loop_view [OF assms(2), of ev flag w h]
  have r: "snd (hexpire ev key args command s) = Inr (RList (map RInt (snd ?l)))"
    using 2 unfolding w_def by (simp add: hexpire_def assms(3) get_hash_eq case_prod_unfold Let_def)
  have "view ev (fst (hexpire ev key args command s)) key =
      (if fst ?l = [] then None else Some (VHash (fst ?l), deadline_of ev s key))"
    using 2 unfolding w_def
    by (simp add: hexpire_def assms(3) get_hash_eq case_prod_unfold Let_def view_simps if_distrib [of "view ev"] cong: if_cong)
  then have "hash_at ev (fst (hexpire ev key args command s)) key = field_view ev (fst ?l)"
    by (rule hash_at_entry)
  then show ?thesis using loop unfolding r 2(2) by (simp add: comp_def)
qed

theorem hexpire_correct_witness:
  "snd (hexpire demo_env ''h'' [''1'', ''NX'', ''FIELDS'', ''2'', ''b'', ''d''] ''hexpire''
      (with_keys [(''h'', VHash [(''b'', Plain ''0'')])] :: unit server)) = Inr (RList [RInt 1, RInt (- 2)])"
proof -
  let ?s = "with_keys [(''h'', VHash [(''b'', Plain ''0'')])] :: unit server"
  have v: "value_at demo_env ?s ''h'' = Some (VHash [(''b'', Plain ''0'')])" by (simp add: value_at_with_keys)
  have h: "hash_at demo_env ?s ''h'' = [''b'' \<mapsto> (''0'', None)]"
    by (auto simp: hash_at_def v field_view_def field_live_def fun_eq_iff)
  have "string2ll ''1'' = Some 1" "string2ll ''2'' = Some 2" "upper ''NX'' = ''NX''" "upper ''FIELDS'' = ''FIELDS''"
    by code_simp+
  then have "parse_field_ttl_args demo_env [''1'', ''NX'', ''FIELDS'', ''2'', ''b'', ''d''] ''hexpire'' =
      Inr (1000, Some ''NX'', [''b'', ''d''])"
    by (simp add: parse_field_ttl_args_def counts_seconds_def is_absolute_def FIELD_TTL_MAX_MS_def field_names_def)
  from hexpire_correct [OF _ _ this, of ?s "''h''"] show ?thesis
    by (simp add: hash_typed_def v h is_absolute_def flag_blocks_def)
qed

text \<open>
  What a single read leaves behind.  When the last field of a hash has expired, \<^verbatim>\<open>HGET\<close> drops the field
  but not the key: the key stays in the keyspace with an empty hash, which \<^verbatim>\<open>EXISTS\<close> counts, until a read
  of the whole hash removes it.
\<close>

theorem HGET_keeps_empty_hash:
  assumes "view ev s key = Some (VHash [(field, Expiring v w)], t)" "w \<le> wall_ns ev"
  shows "snd (HGET ev key field s) = Inr (RResponse NIL)
    \<and> view ev (fst (HGET ev key field s)) = (view ev s)(key \<mapsto> (VHash [], t))
    \<and> snd (EXISTS ev [key] (fst (HGET ev key field s))) = Inr (RInt 1)
    \<and> view ev (fst (HLEN ev key (fst (HGET ev key field s)))) key = None"
proof -
  have h: "hash_of (value_at ev s key) = Inr (Some [(field, Expiring v w)])"
    using assms(1) by (simp add: value_at_def hash_of_def)
  have g: "HGET ev key field s = returns (set_hash key [] (fst (srv_get ev key s))) (RResponse NIL)"
    using assms(2) by (simp add: HGET_def read_field_def get_hash_eq h hash_field_def field_live_def bulk_or_nil_def)
  have v': "view ev (fst (HGET ev key field s)) = (view ev s)(key \<mapsto> (VHash [], t))"
    using assms(1) by (simp add: g view_simps)
  moreover have "snd (EXISTS ev [key] (fst (HGET ev key field s))) = Inr (RInt 1)"
    using v' by (simp add: EXISTS_def count_live_def contains_view)
  moreover have "hash_of (value_at ev (fst (HGET ev key field s)) key) = Inr (Some [])"
    using v' by (simp add: value_at_def hash_of_def)
  then have "view ev (fst (HLEN ev key (fst (HGET ev key field s)))) key = None"
    by (simp add: HLEN_def read_pairs_def get_hash_eq live_pairs_def hash_purge_def view_simps)
  ultimately show ?thesis by (simp add: g)
qed

theorem HGET_keeps_empty_hash_witness:
  "snd (EXISTS demo_env [''h''] (fst (HGET demo_env ''h'' ''c''
      (with_keys [(''h'', VHash [(''c'', Expiring ''x'' 5)])] :: unit server)))) = Inr (RInt 1)"
  using HGET_keeps_empty_hash [of demo_env "with_keys [(''h'', VHash [(''c'', Expiring ''x'' 5)])] :: unit server" "''h''" "''c''"]
  by (simp add: view_with_keys)

end
