(* ===== verification/ZSetCmds.thy ===== *)
theory ZSetCmds
  imports SetCmds FloatText
begin

text \<open>
  The sorted-set commands of \<open>commands/zset.py\<close> over the container of \<open>zset.py\<close> with double
  scores.  A score on the wire is the text of \<open>format_float\<close>.
\<close>

section \<open>Helpers\<close>

definition get_zset :: "env \<Rightarrow> bytes \<Rightarrow> 'bm server \<Rightarrow> ('bm server, exn, double zset option) result" where
  "get_zset ev key s =
     bindR (expect_kind ev key KIND_ZSET s)
       (\<lambda>s v. returns s (case v of Some (VZSet z) \<Rightarrow> Some z | _ \<Rightarrow> None))"

definition set_zset :: "bytes \<Rightarrow> double zset \<Rightarrow> 'bm server \<Rightarrow> 'bm server" where
  "set_zset key z s = upd_data (data_mutate key (VZSet z)) s"

definition create_zset :: "bytes \<Rightarrow> 'bm server \<Rightarrow> 'bm server" where
  "create_zset key s = upd_data (data_setitem key (VZSet zset_empty)) s"

definition zset_drop_empty :: "env \<Rightarrow> bytes \<Rightarrow> double zset \<Rightarrow> 'bm server \<Rightarrow> 'bm server" where
  "zset_drop_empty ev key z s = (if zset_len z = 0 then fst (srv_remove ev key s) else s)"

definition score_reply :: "double \<Rightarrow> reply" where
  "score_reply score = RBytes (format_float score)"

definition score_bound :: "bytes \<Rightarrow> error + (double \<times> bool)" where
  "score_bound raw =
     (let exclusive = (raw \<noteq> [] \<and> hd raw = CHR ''('');
          raw = (if exclusive then tl raw else raw)
      in case parse_float raw of None \<Rightarrow> Inl MIN_MAX_FLOAT | Some v \<Rightarrow> Inr (v, exclusive))"

text \<open>The member (\<open>None\<close> for an unbounded end), whether it is excluded, and whether the window is empty.\<close>

definition lex_bound :: "bytes \<Rightarrow> bool \<Rightarrow> error + (bytes option \<times> bool \<times> bool)" where
  "lex_bound raw is_min =
     (if raw = ''-'' then Inr (None, False, \<not> is_min)
      else if raw = ''+'' then Inr (None, False, is_min)
      else if raw \<noteq> [] \<and> (hd raw = CHR ''['' \<or> hd raw = CHR ''('')
      then Inr (Some (tl raw), hd raw = CHR ''('', False)
      else Inl LEX_RANGE)"

definition interleave_pairs :: "(double \<times> bytes) list \<Rightarrow> bool \<Rightarrow> reply" where
  "interleave_pairs pairs withscores =
     RList (if withscores then concat (map (\<lambda>(score, member). [RBytes member, score_reply score]) pairs)
            else map (\<lambda>(score, member). RBytes member) pairs)"

definition slice_ranks :: "'a list \<Rightarrow> int \<Rightarrow> int \<Rightarrow> 'a list" where
  "slice_ranks pairs start stop =
     (let n = int (length pairs);
          start = (if start < 0 then start + n else start);
          stop = (if stop < 0 then stop + n else stop);
          start = (if start < 0 then 0 else start)
      in if start > stop \<or> start \<ge> n then []
         else
           let stop = (if stop \<ge> n then n - 1 else stop)
           in slice (nat start) (nat (stop + 1)) pairs)"

section \<open>ZADD\<close>

record zadd_flags =
  zf_nx :: bool
  zf_xx :: bool
  zf_gt :: bool
  zf_lt :: bool
  zf_ch :: bool
  zf_incr :: bool

fun zadd_flags_loop :: "bytes list \<Rightarrow> zadd_flags \<Rightarrow> zadd_flags \<times> bytes list" where
  "zadd_flags_loop [] f = (f, [])"
| "zadd_flags_loop (raw # rest) f =
     (let opt = upper raw in
      if opt = ''NX'' then zadd_flags_loop rest (f\<lparr>zf_nx := True\<rparr>)
      else if opt = ''XX'' then zadd_flags_loop rest (f\<lparr>zf_xx := True\<rparr>)
      else if opt = ''GT'' then zadd_flags_loop rest (f\<lparr>zf_gt := True\<rparr>)
      else if opt = ''LT'' then zadd_flags_loop rest (f\<lparr>zf_lt := True\<rparr>)
      else if opt = ''CH'' then zadd_flags_loop rest (f\<lparr>zf_ch := True\<rparr>)
      else if opt = ''INCR'' then zadd_flags_loop rest (f\<lparr>zf_incr := True\<rparr>)
      else (f, raw # rest))"

definition parse_zadd_flags :: "bytes list \<Rightarrow> error + (zadd_flags \<times> bytes list)" where
  "parse_zadd_flags args =
     (case zadd_flags_loop args \<lparr>zf_nx = False, zf_xx = False, zf_gt = False, zf_lt = False, zf_ch = False,
             zf_incr = False\<rparr> of
        (f, rest) \<Rightarrow>
          if zf_nx f \<and> zf_xx f then Inl ZADD_XX_NX
          else if zf_gt f \<and> zf_lt f \<or> zf_nx f \<and> (zf_gt f \<or> zf_lt f) then Inl ZADD_CONFLICT
          else Inr (f, rest))"

fun parse_score_pairs :: "bytes list \<Rightarrow> error + (double \<times> bytes) list" where
  "parse_score_pairs (raw # member # rest) =
     (case parse_float raw of
        None \<Rightarrow> Inl NOT_FLOAT
      | Some score \<Rightarrow> map_sum id (\<lambda>pairs. (score, member) # pairs) (parse_score_pairs rest))"
| "parse_score_pairs _ = Inr []"

text \<open>One pair without \<^verbatim>\<open>INCR\<close>: the new container, and the members added and changed so far.\<close>

definition gate_blocks :: "zadd_flags \<Rightarrow> double \<Rightarrow> double \<Rightarrow> bool" where
  "gate_blocks f score current \<longleftrightarrow> zf_gt f \<and> score \<le> current \<or> zf_lt f \<and> score \<ge> current"

definition zadd_pair ::
  "zadd_flags \<Rightarrow> double \<times> bytes \<Rightarrow> double zset option \<times> int \<times> int \<Rightarrow> double zset option \<times> int \<times> int" where
  "zadd_pair f pair acc =
     (case pair of (score, member) \<Rightarrow>
      case acc of (z, added, changed) \<Rightarrow>
        (case (case z of None \<Rightarrow> None | Some z \<Rightarrow> zset_score z member) of
           None \<Rightarrow>
             if zf_xx f then acc
             else (Some (fst (zset_add member score (case z of None \<Rightarrow> zset_empty | Some z \<Rightarrow> z))), added + 1, changed)
         | Some current \<Rightarrow>
             if zf_nx f \<or> gate_blocks f score current then acc
             else
               (case zset_add member score (case z of None \<Rightarrow> zset_empty | Some z \<Rightarrow> z) of
                  (z, moved) \<Rightarrow> (Some z, added, if moved then changed + 1 else changed))))"

text \<open>The container is written back; a key that was missing is created first.\<close>

definition store_zset :: "bytes \<Rightarrow> bool \<Rightarrow> double zset option \<Rightarrow> 'bm server \<Rightarrow> 'bm server" where
  "store_zset key present z s =
     (case z of
        None \<Rightarrow> s
      | Some z \<Rightarrow> set_zset key z (if present then s else create_zset key s))"

definition zadd_incr ::
  "zadd_flags \<Rightarrow> bytes \<Rightarrow> double \<times> bytes \<Rightarrow> double zset option \<Rightarrow> 'bm server \<Rightarrow> 'bm cmd_result" where
  "zadd_incr f key pair z s =
     (case pair of (increment, member) \<Rightarrow>
      let current = (case z of None \<Rightarrow> None | Some z \<Rightarrow> zset_score z member) in
      if current = None \<and> zf_xx f \<or> current \<noteq> None \<and> zf_nx f then returns s (RResponse NIL)
      else
        case double_add (case current of None \<Rightarrow> Fin 0 | Some c \<Rightarrow> c) increment of
          None \<Rightarrow> raise_error s NAN_RESULT
        | Some score \<Rightarrow>
            if current \<noteq> None \<and> gate_blocks f score (the current) then returns s (RResponse NIL)
            else
              let z' = fst (zset_add member score (case z of None \<Rightarrow> zset_empty | Some z \<Rightarrow> z));
                  s = store_zset key (z \<noteq> None) (Some z') s
              in returns (after_write key ''zadd'' s) (score_reply score))"

definition zadd_store ::
  "zadd_flags \<Rightarrow> bytes \<Rightarrow> (double \<times> bytes) list \<Rightarrow> double zset option \<Rightarrow> 'bm server \<Rightarrow> 'bm cmd_result" where
  "zadd_store f key pairs z s =
     (case fold (zadd_pair f) pairs (z, 0, 0) of
        (z', added, changed) \<Rightarrow>
          let s = store_zset key (z \<noteq> None) z' s;
              s = (if added \<noteq> 0 \<or> changed \<noteq> 0 then after_write key ''zadd'' s else s)
          in returns s (RInt (if zf_ch f then added + changed else added)))"

definition ZADD :: "env \<Rightarrow> bytes \<Rightarrow> bytes list \<Rightarrow> 'bm server \<Rightarrow> 'bm cmd_result" where
  "ZADD ev key args s =
     bindR (liftE s (parse_zadd_flags args)) (\<lambda>s (f, rest).
     if length args < 2 then raise_error s (arity ''zadd'')
     else if odd (length rest) then raise_error s SYNTAX
     else if zf_incr f \<and> length rest \<noteq> 2 then raise_error s ZADD_INCR_PAIR
     else
       bindR (liftE s (parse_score_pairs rest)) (\<lambda>s pairs.
       bindR (get_zset ev key s) (\<lambda>s z.
         if z = None \<and> zf_xx f then returns s (if zf_incr f then RResponse NIL else RInt 0)
         else if zf_incr f then zadd_incr f key (hd pairs) z s
         else zadd_store f key pairs z s)))"

definition ZINCRBY :: "env \<Rightarrow> bytes \<Rightarrow> bytes \<Rightarrow> bytes \<Rightarrow> 'bm server \<Rightarrow> 'bm cmd_result" where
  "ZINCRBY ev key raw member s =
     (case parse_float raw of
        None \<Rightarrow> raise_error s NOT_FLOAT
      | Some increment \<Rightarrow>
          bindR (get_zset ev key s) (\<lambda>s z.
            let current = (case z of None \<Rightarrow> None | Some z \<Rightarrow> zset_score z member) in
            case double_add (case current of None \<Rightarrow> Fin 0 | Some c \<Rightarrow> c) increment of
              None \<Rightarrow> raise_error s NAN_RESULT
            | Some score \<Rightarrow>
                let z' = fst (zset_add member score (case z of None \<Rightarrow> zset_empty | Some z \<Rightarrow> z));
                    s = store_zset key (z \<noteq> None) (Some z') s
                in returns (after_write key ''zincr'' s) (score_reply score)))"

section \<open>Basics\<close>

definition ZCARD :: "env \<Rightarrow> bytes \<Rightarrow> 'bm server \<Rightarrow> 'bm cmd_result" where
  "ZCARD ev key s =
     bindR (get_zset ev key s) (\<lambda>s z. returns s (RInt (case z of None \<Rightarrow> 0 | Some z \<Rightarrow> int (zset_len z))))"

definition score_or_nil :: "double zset option \<Rightarrow> bytes \<Rightarrow> reply" where
  "score_or_nil z member =
     (case (case z of None \<Rightarrow> None | Some z \<Rightarrow> zset_score z member) of
        None \<Rightarrow> RResponse NIL
      | Some score \<Rightarrow> score_reply score)"

definition ZSCORE :: "env \<Rightarrow> bytes \<Rightarrow> bytes \<Rightarrow> 'bm server \<Rightarrow> 'bm cmd_result" where
  "ZSCORE ev key member s = bindR (get_zset ev key s) (\<lambda>s z. returns s (score_or_nil z member))"

definition ZMSCORE :: "env \<Rightarrow> bytes \<Rightarrow> bytes list \<Rightarrow> 'bm server \<Rightarrow> 'bm cmd_result" where
  "ZMSCORE ev key members s =
     (if members = [] then raise_error s (arity ''zmscore'')
      else bindR (get_zset ev key s) (\<lambda>s z. returns s (RList (map (score_or_nil z) members))))"

definition zrank :: "env \<Rightarrow> bytes \<Rightarrow> bytes \<Rightarrow> bytes list \<Rightarrow> bool \<Rightarrow> 'bm server \<Rightarrow> 'bm cmd_result" where
  "zrank ev key member options reverse s =
     (if list_ex (\<lambda>opt. upper opt \<noteq> ''WITHSCORE'') options then raise_error s SYNTAX
      else
        bindR (get_zset ev key s) (\<lambda>s z.
          case (case z of None \<Rightarrow> None | Some z \<Rightarrow> map_option (\<lambda>r. (z, r)) (zset_rank z member)) of
            None \<Rightarrow> returns s (RResponse (if options \<noteq> [] then NIL_ARRAY else NIL))
          | Some (z, r) \<Rightarrow>
              let rank = (if reverse then int (zset_len z) - 1 - int r else int r)
              in returns s (if options = [] then RInt rank else RList [RInt rank, score_or_nil (Some z) member])))"

definition ZRANK :: "env \<Rightarrow> bytes \<Rightarrow> bytes \<Rightarrow> bytes list \<Rightarrow> 'bm server \<Rightarrow> 'bm cmd_result" where
  "ZRANK ev key member options s = zrank ev key member options False s"

definition ZREVRANK :: "env \<Rightarrow> bytes \<Rightarrow> bytes \<Rightarrow> bytes list \<Rightarrow> 'bm server \<Rightarrow> 'bm cmd_result" where
  "ZREVRANK ev key member options s = zrank ev key member options True s"

section \<open>Ranges\<close>

datatype range_mode = ByRank | ByScore | ByLex

record range_options =
  ro_mode :: range_mode
  ro_rev :: bool
  ro_withscores :: bool
  ro_limit :: "(int \<times> int) option"

definition no_options :: range_options where
  "no_options = \<lparr>ro_mode = ByRank, ro_rev = False, ro_withscores = False, ro_limit = None\<rparr>"

text \<open>\<^verbatim>\<open>LIMIT offset count\<close>, with what is left of the options.\<close>

definition limit_option :: "bytes list \<Rightarrow> error + ((int \<times> int) \<times> bytes list)" where
  "limit_option rest =
     (case rest of
        a # b # rest \<Rightarrow>
          (case (string2ll a, string2ll b) of
             (Some offset, Some num) \<Rightarrow> Inr ((offset, num), rest)
           | _ \<Rightarrow> Inl NOT_INT)
      | _ \<Rightarrow> Inl SYNTAX)"

text \<open>
  The three option scans differ in the words they accept: \<open>words\<close> holds the accepted ones.
\<close>

function range_options_loop :: "bytes list \<Rightarrow> bytes list \<Rightarrow> range_options \<Rightarrow> error + range_options" where
  "range_options_loop words [] ro = Inr ro"
| "range_options_loop words (raw # rest) ro =
     (let opt = upper raw in
      if opt \<notin> set words then Inl SYNTAX
      else if opt = ''BYSCORE'' \<or> opt = ''BYLEX'' then
        (if ro_mode ro \<noteq> ByRank then Inl SYNTAX
         else range_options_loop words rest (ro\<lparr>ro_mode := if opt = ''BYSCORE'' then ByScore else ByLex\<rparr>))
      else if opt = ''REV'' then
        (if ro_rev ro then Inl SYNTAX else range_options_loop words rest (ro\<lparr>ro_rev := True\<rparr>))
      else if opt = ''WITHSCORES'' then range_options_loop words rest (ro\<lparr>ro_withscores := True\<rparr>)
      else if opt = ''LIMIT'' then
        (if length rest < 2 \<or> ro_limit ro \<noteq> None then Inl SYNTAX
         else case limit_option rest of
           Inl e \<Rightarrow> Inl e
         | Inr (limit, rest') \<Rightarrow> range_options_loop words (drop 2 rest) (ro\<lparr>ro_limit := Some limit\<rparr>))
      else Inl SYNTAX)"
  by pat_completeness auto
termination range_options_loop
  by (relation "measure (\<lambda>(words, options, ro). length options)") auto

definition parse_range_options :: "bytes list \<Rightarrow> error + range_options" where
  "parse_range_options options =
     (case range_options_loop [''BYSCORE'', ''BYLEX'', ''REV'', ''WITHSCORES'', ''LIMIT''] options no_options of
        Inl e \<Rightarrow> Inl e
      | Inr ro \<Rightarrow>
          if ro_withscores ro \<and> ro_mode ro = ByLex then Inl WITHSCORES_BYLEX
          else if ro_limit ro \<noteq> None \<and> ro_mode ro = ByRank then Inl LIMIT_NEEDS_BY
          else Inr ro)"

datatype bounds =
    RankBounds int int
  | ScoreBounds double bool double bool
  | LexBounds "bytes option" bool "bytes option" bool

definition parse_bounds :: "bytes \<Rightarrow> bytes \<Rightarrow> range_mode \<Rightarrow> bool \<Rightarrow> error + (bounds \<times> bool)" where
  "parse_bounds start_raw stop_raw mode backwards =
     (let lo_raw = (if backwards then stop_raw else start_raw);
          hi_raw = (if backwards then start_raw else stop_raw)
      in case mode of
           ByRank \<Rightarrow>
             (case (string2ll start_raw, string2ll stop_raw) of
                (Some start, Some stop) \<Rightarrow> Inr (RankBounds start stop, False)
              | _ \<Rightarrow> Inl NOT_INT)
         | ByScore \<Rightarrow>
             (case score_bound lo_raw of
                Inl e \<Rightarrow> Inl e
              | Inr (lo, lo_open) \<Rightarrow>
                  map_sum id (\<lambda>(hi, hi_open). (ScoreBounds lo lo_open hi hi_open, False)) (score_bound hi_raw))
         | ByLex \<Rightarrow>
             (case lex_bound lo_raw True of
                Inl e \<Rightarrow> Inl e
              | Inr (lo, lo_open, lo_dead) \<Rightarrow>
                  map_sum id (\<lambda>(hi, hi_open, hi_dead). (LexBounds lo lo_open hi hi_open, lo_dead \<or> hi_dead))
                    (lex_bound hi_raw False)))"

definition range_pairs :: "double zset \<Rightarrow> bounds \<Rightarrow> bool \<Rightarrow> (double \<times> bytes) list" where
  "range_pairs z b rev_order =
     (case b of
        RankBounds start stop \<Rightarrow> slice_ranks (if rev_order then rev (zset_pairs z) else zset_pairs z) start stop
      | ScoreBounds lo lo_open hi hi_open \<Rightarrow>
          (if rev_order then rev (score_pairs z lo lo_open hi hi_open) else score_pairs z lo lo_open hi hi_open)
      | LexBounds lo lo_open hi hi_open \<Rightarrow>
          (if rev_order then rev (member_pairs z lo lo_open hi hi_open) else member_pairs z lo lo_open hi hi_open))"

definition limit_pairs :: "'a list \<Rightarrow> (int \<times> int) option \<Rightarrow> 'a list" where
  "limit_pairs pairs limit =
     (case limit of
        None \<Rightarrow> pairs
      | Some (offset, num) \<Rightarrow>
          if offset < 0 then []
          else
            let num = (if num < 0 then int (length pairs) else num)
            in slice (nat offset) (nat (offset + num)) pairs)"

text \<open>What the range commands do once their options and bounds are parsed.\<close>

definition range_reply ::
  "env \<Rightarrow> bytes \<Rightarrow> bounds \<times> bool \<Rightarrow> bool \<Rightarrow> (int \<times> int) option \<Rightarrow> bool \<Rightarrow> 'bm server \<Rightarrow> 'bm cmd_result" where
  "range_reply ev key parsed rev_order limit withscores s =
     bindR (get_zset ev key s) (\<lambda>s z.
       returns s
         (case z of
            None \<Rightarrow> RList []
          | Some z \<Rightarrow>
              if snd parsed then RList []
              else interleave_pairs (limit_pairs (range_pairs z (fst parsed) rev_order) limit) withscores))"

definition ZRANGE :: "env \<Rightarrow> bytes \<Rightarrow> bytes \<Rightarrow> bytes \<Rightarrow> bytes list \<Rightarrow> 'bm server \<Rightarrow> 'bm cmd_result" where
  "ZRANGE ev key start stop options s =
     bindR (liftE s (parse_range_options options)) (\<lambda>s ro.
     bindR (liftE s (parse_bounds start stop (ro_mode ro) (ro_rev ro))) (\<lambda>s parsed.
       range_reply ev key parsed (ro_rev ro) (ro_limit ro) (ro_withscores ro) s))"

definition ZREVRANGE :: "env \<Rightarrow> bytes \<Rightarrow> bytes \<Rightarrow> bytes \<Rightarrow> bytes list \<Rightarrow> 'bm server \<Rightarrow> 'bm cmd_result" where
  "ZREVRANGE ev key start stop options s =
     (if list_ex (\<lambda>opt. upper opt \<noteq> ''WITHSCORES'') options then raise_error s SYNTAX
      else
        bindR (liftE s (parse_bounds start stop ByRank True)) (\<lambda>s parsed.
          range_reply ev key parsed True None (options \<noteq> []) s))"

definition legacy_score_range ::
  "env \<Rightarrow> bytes \<Rightarrow> bytes \<Rightarrow> bytes \<Rightarrow> bytes list \<Rightarrow> bool \<Rightarrow> 'bm server \<Rightarrow> 'bm cmd_result" where
  "legacy_score_range ev key first second options reverse s =
     bindR (liftE s (range_options_loop [''WITHSCORES'', ''LIMIT''] options no_options)) (\<lambda>s ro.
     bindR (liftE s (parse_bounds first second ByScore False)) (\<lambda>s parsed.
       range_reply ev key parsed reverse (ro_limit ro) (ro_withscores ro) s))"

definition ZRANGEBYSCORE :: "env \<Rightarrow> bytes \<Rightarrow> bytes \<Rightarrow> bytes \<Rightarrow> bytes list \<Rightarrow> 'bm server \<Rightarrow> 'bm cmd_result" where
  "ZRANGEBYSCORE ev key lowest highest options s = legacy_score_range ev key lowest highest options False s"

definition ZREVRANGEBYSCORE :: "env \<Rightarrow> bytes \<Rightarrow> bytes \<Rightarrow> bytes \<Rightarrow> bytes list \<Rightarrow> 'bm server \<Rightarrow> 'bm cmd_result" where
  "ZREVRANGEBYSCORE ev key highest lowest options s = legacy_score_range ev key lowest highest options True s"

definition legacy_lex_range ::
  "env \<Rightarrow> bytes \<Rightarrow> bytes \<Rightarrow> bytes \<Rightarrow> bytes list \<Rightarrow> bool \<Rightarrow> 'bm server \<Rightarrow> 'bm cmd_result" where
  "legacy_lex_range ev key first second options reverse s =
     bindR (liftE s (range_options_loop [''LIMIT''] options no_options)) (\<lambda>s ro.
     bindR (liftE s (parse_bounds first second ByLex False)) (\<lambda>s parsed.
       range_reply ev key parsed reverse (ro_limit ro) False s))"

definition ZRANGEBYLEX :: "env \<Rightarrow> bytes \<Rightarrow> bytes \<Rightarrow> bytes \<Rightarrow> bytes list \<Rightarrow> 'bm server \<Rightarrow> 'bm cmd_result" where
  "ZRANGEBYLEX ev key lowest highest options s = legacy_lex_range ev key lowest highest options False s"

definition ZREVRANGEBYLEX :: "env \<Rightarrow> bytes \<Rightarrow> bytes \<Rightarrow> bytes \<Rightarrow> bytes list \<Rightarrow> 'bm server \<Rightarrow> 'bm cmd_result" where
  "ZREVRANGEBYLEX ev key highest lowest options s = legacy_lex_range ev key lowest highest options True s"

definition ZCOUNT :: "env \<Rightarrow> bytes \<Rightarrow> bytes \<Rightarrow> bytes \<Rightarrow> 'bm server \<Rightarrow> 'bm cmd_result" where
  "ZCOUNT ev key lowest highest s =
     bindR (liftE s (score_bound lowest)) (\<lambda>s (lo, lo_open).
     bindR (liftE s (score_bound highest)) (\<lambda>s (hi, hi_open).
     bindR (get_zset ev key s) (\<lambda>s z.
       returns s (RInt (case z of None \<Rightarrow> 0 | Some z \<Rightarrow> int (length (score_pairs z lo lo_open hi hi_open)))))))"

definition ZLEXCOUNT :: "env \<Rightarrow> bytes \<Rightarrow> bytes \<Rightarrow> bytes \<Rightarrow> 'bm server \<Rightarrow> 'bm cmd_result" where
  "ZLEXCOUNT ev key lowest highest s =
     bindR (liftE s (parse_bounds lowest highest ByLex False)) (\<lambda>s (b, empty).
     bindR (get_zset ev key s) (\<lambda>s z.
       returns s (RInt (case z of
           None \<Rightarrow> 0
         | Some z \<Rightarrow> if empty then 0 else int (length (range_pairs z b False))))))"

section \<open>Removals\<close>

text \<open>What a removal does with what the container returned: the hook, then the key without members.\<close>

definition removed_reply ::
  "env \<Rightarrow> bytes \<Rightarrow> bytes \<Rightarrow> double zset \<times> int \<Rightarrow> 'bm server \<Rightarrow> 'bm cmd_result" where
  "removed_reply ev key event result s =
     (case result of (z, removed) \<Rightarrow>
        let s = set_zset key z s;
            s = (if removed \<noteq> 0 then after_write key event s else s)
        in returns (zset_drop_empty ev key z s) (RInt removed))"

definition zrem_member :: "bytes \<Rightarrow> double zset \<times> int \<Rightarrow> double zset \<times> int" where
  "zrem_member member acc =
     (case acc of (z, removed) \<Rightarrow>
        (case zset_remove member z of (z, found) \<Rightarrow> (z, if found then removed + 1 else removed)))"

definition ZREM :: "env \<Rightarrow> bytes \<Rightarrow> bytes list \<Rightarrow> 'bm server \<Rightarrow> 'bm cmd_result" where
  "ZREM ev key members s =
     (if members = [] then raise_error s (arity ''zrem'')
      else
        bindR (get_zset ev key s) (\<lambda>s z.
          case z of
            None \<Rightarrow> returns s (RInt 0)
          | Some z \<Rightarrow> removed_reply ev key ''zrem'' (fold zrem_member members (z, 0)) s))"

definition ZREMRANGEBYRANK :: "env \<Rightarrow> bytes \<Rightarrow> int \<Rightarrow> int \<Rightarrow> 'bm server \<Rightarrow> 'bm cmd_result" where
  "ZREMRANGEBYRANK ev key start stop s =
     bindR (get_zset ev key s) (\<lambda>s z.
       case z of
         None \<Rightarrow> returns s (RInt 0)
       | Some z \<Rightarrow> removed_reply ev key ''zremrangebyrank'' (remove_rank start stop z) s)"

definition ZREMRANGEBYSCORE :: "env \<Rightarrow> bytes \<Rightarrow> bytes \<Rightarrow> bytes \<Rightarrow> 'bm server \<Rightarrow> 'bm cmd_result" where
  "ZREMRANGEBYSCORE ev key lowest highest s =
     bindR (liftE s (score_bound lowest)) (\<lambda>s (lo, lo_open).
     bindR (liftE s (score_bound highest)) (\<lambda>s (hi, hi_open).
     bindR (get_zset ev key s) (\<lambda>s z.
       case z of
         None \<Rightarrow> returns s (RInt 0)
       | Some z \<Rightarrow> removed_reply ev key ''zremrangebyscore'' (remove_score lo lo_open hi hi_open z) s)))"

definition remove_lex :: "bounds \<Rightarrow> double zset \<Rightarrow> double zset \<times> int" where
  "remove_lex b z =
     (case b of LexBounds lo lo_open hi hi_open \<Rightarrow> remove_member lo lo_open hi hi_open z | _ \<Rightarrow> (z, 0))"

definition ZREMRANGEBYLEX :: "env \<Rightarrow> bytes \<Rightarrow> bytes \<Rightarrow> bytes \<Rightarrow> 'bm server \<Rightarrow> 'bm cmd_result" where
  "ZREMRANGEBYLEX ev key lowest highest s =
     bindR (liftE s (parse_bounds lowest highest ByLex False)) (\<lambda>s (b, empty).
     bindR (get_zset ev key s) (\<lambda>s z.
       case z of
         None \<Rightarrow> returns s (RInt 0)
       | Some z \<Rightarrow>
           if empty then returns s (RInt 0) else removed_reply ev key ''zremrangebylex'' (remove_lex b z) s))"

section \<open>Popping, scanning, drawing\<close>

definition zpop :: "env \<Rightarrow> bytes \<Rightarrow> int option \<Rightarrow> bool \<Rightarrow> 'bm server \<Rightarrow> 'bm cmd_result" where
  "zpop ev key num left s =
     (if num \<noteq> None \<and> the num < 0 then raise_error s NOT_POSITIVE
      else
        bindR (get_zset ev key s) (\<lambda>s z.
          case z of
            None \<Rightarrow> returns s (RList [])
          | Some z \<Rightarrow>
              if num = Some 0 then returns s (RList [])
              else
                let (start, stop) = (case num of
                      None \<Rightarrow> if left then (0, 0) else (- 1, - 1)
                    | Some c \<Rightarrow> if left then (0, c - 1) else (- c, - 1));
                    taken = slice_ranks (zset_pairs z) start stop;
                    z = (if taken \<noteq> [] then fst (remove_rank start stop z) else z);
                    taken = (if left then taken else rev taken);
                    s = after_write key (if left then ''zpopmin'' else ''zpopmax'') (set_zset key z s);
                    s = zset_drop_empty ev key z s;
                    s = (if \<not> data_is_live ev (data s) key then notify key ''del'' s else s)
                in returns s (interleave_pairs taken True)))"

definition ZPOPMIN :: "env \<Rightarrow> bytes \<Rightarrow> int option \<Rightarrow> 'bm server \<Rightarrow> 'bm cmd_result" where
  "ZPOPMIN ev key num s = zpop ev key num True s"

definition ZPOPMAX :: "env \<Rightarrow> bytes \<Rightarrow> int option \<Rightarrow> 'bm server \<Rightarrow> 'bm cmd_result" where
  "ZPOPMAX ev key num s = zpop ev key num False s"

definition ZSCAN :: "env \<Rightarrow> bytes \<Rightarrow> bytes \<Rightarrow> bytes list \<Rightarrow> 'bm server \<Rightarrow> 'bm cmd_result" where
  "ZSCAN ev key cursor options s =
     bindR (liftE s (parse_scan_cursor cursor)) (\<lambda>s _.
     bindR (liftE s (parse_scan_options options)) (\<lambda>s pattern.
     bindR (get_zset ev key s) (\<lambda>s z.
       returns s (RList [RBytes ''0'',
         case z of
           None \<Rightarrow> RList []
         | Some z \<Rightarrow> interleave_pairs (filter (\<lambda>(score, member). glob_filter pattern member) (zset_pairs z)) True]))))"

text \<open>The members \<^verbatim>\<open>choice\<close> and \<^verbatim>\<open>sample\<close> pick.\<close>

definition pick_members :: "env \<Rightarrow> bytes list \<Rightarrow> int \<Rightarrow> bytes list" where
  "pick_members ev members num =
     (let n = length members in
      if num < 0 then map (\<lambda>i. members ! rng_choice ev i n) [0..<nat (- num)]
      else if num = 0 then []
      else if num \<ge> int n then members
      else map (\<lambda>i. members ! i) (rng_sample ev n (nat num)))"

definition ZRANDMEMBER :: "env \<Rightarrow> bytes \<Rightarrow> int option \<Rightarrow> bytes list \<Rightarrow> 'bm server \<Rightarrow> 'bm cmd_result" where
  "ZRANDMEMBER ev key num options s =
     (case num of
        None \<Rightarrow>
          if options \<noteq> [] then raise_error s SYNTAX
          else
            bindR (get_zset ev key s) (\<lambda>s z. returns s
              (case z of
                 None \<Rightarrow> RResponse NIL
               | Some z \<Rightarrow>
                   if zset_len z = 0 then RResponse NIL
                   else RBytes (zset_members z ! rng_choice ev 0 (zset_len z))))
      | Some c \<Rightarrow>
          if list_ex (\<lambda>opt. upper opt \<noteq> ''WITHSCORES'') options then raise_error s SYNTAX
          else
            bindR (get_zset ev key s) (\<lambda>s z. returns s
              (case z of
                 None \<Rightarrow> RList []
               | Some z \<Rightarrow>
                   if zset_len z = 0 then RList []
                   else
                     let picked = pick_members ev (zset_members z) c
                     in if options = [] then RList (map RBytes picked)
                        else RList (concat (map (\<lambda>m. [RBytes m, score_or_nil (Some z) m]) picked)))))"

section \<open>Union, intersection, difference\<close>

datatype aggregate = AggSum | AggMin | AggMax

record zset_op_options =
  zo_weights :: "double list option"
  zo_aggregate :: "aggregate option"
  zo_withscores :: bool

fun parse_weights :: "bytes list \<Rightarrow> error + double list" where
  "parse_weights [] = Inr []"
| "parse_weights (raw # rest) =
     (case parse_float raw of None \<Rightarrow> Inl WEIGHT_FLOAT | Some w \<Rightarrow> map_sum id (\<lambda>ws. w # ws) (parse_weights rest))"

definition parse_aggregate :: "bytes \<Rightarrow> aggregate option" where
  "parse_aggregate raw =
     (if upper raw = ''SUM'' then Some AggSum else if upper raw = ''MIN'' then Some AggMin
      else if upper raw = ''MAX'' then Some AggMax else None)"

function zset_op_loop ::
  "nat \<Rightarrow> bool \<Rightarrow> bool \<Rightarrow> bytes list \<Rightarrow> zset_op_options \<Rightarrow> error + zset_op_options" where
  "zset_op_loop numkeys allow_weights allow_withscores [] zo = Inr zo"
| "zset_op_loop numkeys allow_weights allow_withscores (raw # rest) zo =
     (let opt = upper raw in
      if opt = ''WEIGHTS'' \<and> allow_weights then
        (if zo_weights zo \<noteq> None \<or> length rest < numkeys then Inl SYNTAX
         else
           case parse_weights (take numkeys rest) of
             Inl e \<Rightarrow> Inl e
           | Inr ws \<Rightarrow>
               zset_op_loop numkeys allow_weights allow_withscores (drop numkeys rest) (zo\<lparr>zo_weights := Some ws\<rparr>))
      else if opt = ''AGGREGATE'' \<and> allow_weights \<and> rest \<noteq> [] then
        (if zo_aggregate zo \<noteq> None then Inl SYNTAX
         else
           case parse_aggregate (hd rest) of
             None \<Rightarrow> Inl SYNTAX
           | Some a \<Rightarrow>
               zset_op_loop numkeys allow_weights allow_withscores (drop 1 rest) (zo\<lparr>zo_aggregate := Some a\<rparr>))
      else if opt = ''WITHSCORES'' \<and> allow_withscores then
        zset_op_loop numkeys allow_weights allow_withscores rest (zo\<lparr>zo_withscores := True\<rparr>)
      else Inl SYNTAX)"
  by pat_completeness auto
termination zset_op_loop
  by (relation "measure (\<lambda>(numkeys, aw, as, options, zo). length options)") auto

definition parse_zset_op ::
  "int \<Rightarrow> bytes list \<Rightarrow> bytes \<Rightarrow> bool \<Rightarrow> bool
    \<Rightarrow> error + (bytes list \<times> double list \<times> aggregate option \<times> bool)" where
  "parse_zset_op numkeys rest command allow_weights allow_withscores =
     (if numkeys < 1 then Inl (no_keys command)
      else if numkeys > int (length rest) then Inl SYNTAX
      else
        let n = nat numkeys in
        map_sum id
          (\<lambda>zo. (take n rest, case zo_weights zo of None \<Rightarrow> replicate n (Fin 1) | Some ws \<Rightarrow> ws,
                 zo_aggregate zo, zo_withscores zo))
          (zset_op_loop n allow_weights allow_withscores (drop n rest)
             \<lparr>zo_weights = None, zo_aggregate = None, zo_withscores = False\<rparr>))"

fun get_zsets ::
  "env \<Rightarrow> bytes list \<Rightarrow> double zset option list \<Rightarrow> 'bm server
    \<Rightarrow> ('bm server, exn, double zset option list) result" where
  "get_zsets ev [] sources s = returns s sources"
| "get_zsets ev (key # keys) sources s =
     bindR (get_zset ev key s) (\<lambda>s z. get_zsets ev keys (sources @ [z]) s)"

text \<open>A computed score is a double or, as \<open>None\<close>, NaN; comparisons with NaN are false.\<close>

definition combine :: "aggregate \<Rightarrow> double option \<Rightarrow> double option \<Rightarrow> double option" where
  "combine aggregate a b =
     (case aggregate of
        AggMin \<Rightarrow> (case (a, b) of (Some x, Some y) \<Rightarrow> if y < x then b else a | _ \<Rightarrow> a)
      | AggMax \<Rightarrow> (case (a, b) of (Some x, Some y) \<Rightarrow> if y > x then b else a | _ \<Rightarrow> a)
      | AggSum \<Rightarrow> (case (a, b) of (Some x, Some y) \<Rightarrow> double_add x y | _ \<Rightarrow> None))"

type_synonym agg = "(bytes \<times> double option) list"

definition union_member :: "aggregate \<Rightarrow> double \<Rightarrow> double \<times> bytes \<Rightarrow> agg \<Rightarrow> agg" where
  "union_member aggregate weight pair agg =
     (case pair of (score, member) \<Rightarrow>
        let v = double_mul score weight
        in AList.update member (case map_of agg member of None \<Rightarrow> v | Some old \<Rightarrow> combine aggregate old v) agg)"

definition union_source :: "aggregate \<Rightarrow> double zset option \<times> double \<Rightarrow> agg \<Rightarrow> agg" where
  "union_source aggregate source agg =
     (case source of
        (None, weight) \<Rightarrow> agg
      | (Some z, weight) \<Rightarrow> fold (union_member aggregate weight) (zset_pairs z) agg)"

text \<open>The score of a member in an intersection, \<open>None\<close> when it is missing from a source.\<close>

fun inter_value ::
  "aggregate \<Rightarrow> bytes \<Rightarrow> (double zset option \<times> double) list \<Rightarrow> double option \<Rightarrow> double option option" where
  "inter_value aggregate member [] v = Some v"
| "inter_value aggregate member ((z, weight) # rest) v =
     (case (case z of None \<Rightarrow> None | Some z \<Rightarrow> zset_score z member) of
        None \<Rightarrow> None
      | Some score \<Rightarrow> inter_value aggregate member rest (combine aggregate v (double_mul score weight)))"

datatype zset_op = ZUnion | ZInter | ZDiff

definition aggregate_scores ::
  "double zset option list \<Rightarrow> double list \<Rightarrow> aggregate \<Rightarrow> zset_op \<Rightarrow> agg" where
  "aggregate_scores sources weights aggregate op =
     (let first = (case hd sources of None \<Rightarrow> [] | Some z \<Rightarrow> zset_pairs z);
          others = zip (drop 1 sources) (drop 1 weights)
      in case op of
           ZUnion \<Rightarrow> fold (union_source aggregate) (zip sources weights) []
         | ZInter \<Rightarrow>
             concat (map (\<lambda>(score, member).
               case inter_value aggregate member others (double_mul score (hd weights)) of
                 None \<Rightarrow> []
               | Some v \<Rightarrow> [(member, v)]) first)
         | ZDiff \<Rightarrow>
             map (\<lambda>(score, member). (member, Some score))
               (filter (\<lambda>(score, member). \<not> list_ex (\<lambda>z. case z of
                    None \<Rightarrow> False
                  | Some z \<Rightarrow> member \<in> snd ` set (zset_pairs z)) (drop 1 sources)) first))"

definition aggregate_zset :: "double zset option list \<Rightarrow> double list \<Rightarrow> aggregate option \<Rightarrow> zset_op \<Rightarrow> double zset"
  where
  "aggregate_zset sources weights aggregate op =
     fold (\<lambda>(member, score) z. fst (zset_add member (case score of None \<Rightarrow> Fin 0 | Some v \<Rightarrow> v) z))
       (aggregate_scores sources weights (case aggregate of None \<Rightarrow> AggSum | Some a \<Rightarrow> a) op) zset_empty"

definition aggregated ::
  "env \<Rightarrow> bytes list \<Rightarrow> double list \<Rightarrow> aggregate option \<Rightarrow> zset_op \<Rightarrow> 'bm server
    \<Rightarrow> ('bm server, exn, double zset) result" where
  "aggregated ev keys weights aggregate op s =
     bindR (get_zsets ev keys [] s) (\<lambda>s sources. returns s (aggregate_zset sources weights aggregate op))"

fun store_event :: "zset_op \<Rightarrow> bytes" where
  "store_event ZUnion = ''zunionstore''"
| "store_event ZInter = ''zinterstore''"
| "store_event ZDiff = ''zdiffstore''"

definition store_aggregate ::
  "env \<Rightarrow> bytes \<Rightarrow> bytes list \<Rightarrow> double list \<Rightarrow> aggregate option \<Rightarrow> zset_op \<Rightarrow> 'bm server \<Rightarrow> 'bm cmd_result" where
  "store_aggregate ev target keys weights aggregate op s =
     bindR (aggregated ev keys weights aggregate op s) (\<lambda>s z.
       if zset_len z = 0 then returns (fst (srv_remove ev target s)) (RInt 0)
       else
         returns (after_write target (store_event op) (upd_data (data_setitem target (VZSet z)) s))
           (RInt (int (zset_len z))))"

definition zstore :: "zset_op \<Rightarrow> bytes \<Rightarrow> bool \<Rightarrow> env \<Rightarrow> bytes \<Rightarrow> int \<Rightarrow> bytes list \<Rightarrow> 'bm server \<Rightarrow> 'bm cmd_result"
  where
  "zstore op command allow_weights ev target numkeys rest s =
     bindR (liftE s (parse_zset_op numkeys rest command allow_weights False)) (\<lambda>s (keys, weights, aggregate, _).
       store_aggregate ev target keys weights aggregate op s)"

definition zcombine :: "zset_op \<Rightarrow> bytes \<Rightarrow> bool \<Rightarrow> env \<Rightarrow> int \<Rightarrow> bytes list \<Rightarrow> 'bm server \<Rightarrow> 'bm cmd_result" where
  "zcombine op command allow_weights ev numkeys rest s =
     bindR (liftE s (parse_zset_op numkeys rest command allow_weights True))
       (\<lambda>s (keys, weights, aggregate, withscores).
         bindR (aggregated ev keys weights aggregate op s)
           (\<lambda>s z. returns s (interleave_pairs (zset_pairs z) withscores)))"

definition ZUNIONSTORE :: "env \<Rightarrow> bytes \<Rightarrow> int \<Rightarrow> bytes list \<Rightarrow> 'bm server \<Rightarrow> 'bm cmd_result" where
  "ZUNIONSTORE = zstore ZUnion ''zunionstore'' True"

definition ZINTERSTORE :: "env \<Rightarrow> bytes \<Rightarrow> int \<Rightarrow> bytes list \<Rightarrow> 'bm server \<Rightarrow> 'bm cmd_result" where
  "ZINTERSTORE = zstore ZInter ''zinterstore'' True"

definition ZDIFFSTORE :: "env \<Rightarrow> bytes \<Rightarrow> int \<Rightarrow> bytes list \<Rightarrow> 'bm server \<Rightarrow> 'bm cmd_result" where
  "ZDIFFSTORE = zstore ZDiff ''zdiffstore'' False"

definition ZUNION :: "env \<Rightarrow> int \<Rightarrow> bytes list \<Rightarrow> 'bm server \<Rightarrow> 'bm cmd_result" where
  "ZUNION = zcombine ZUnion ''zunion'' True"

definition ZINTER :: "env \<Rightarrow> int \<Rightarrow> bytes list \<Rightarrow> 'bm server \<Rightarrow> 'bm cmd_result" where
  "ZINTER = zcombine ZInter ''zinter'' True"

definition ZDIFF :: "env \<Rightarrow> int \<Rightarrow> bytes list \<Rightarrow> 'bm server \<Rightarrow> 'bm cmd_result" where
  "ZDIFF = zcombine ZDiff ''zdiff'' False"

section \<open>Safety\<close>

definition zset_of :: "'bm val option \<Rightarrow> error + double zset option" where
  "zset_of v = (case v of None \<Rightarrow> Inr None | Some (VZSet z) \<Rightarrow> Inr (Some z) | Some _ \<Rightarrow> Inl WRONGTYPE)"

lemma get_zset_eq: "get_zset ev key s = liftE (fst (srv_get ev key s)) (zset_of (value_at ev s key))"
  by (simp add: get_zset_def expect_kind_cases zset_of_def split: option.splits val.splits)

lemma safe_get_zset [safe_intros]: "safe s (fst (get_zset ev key s))"
  by (simp add: get_zset_eq safe_get)

definition wf_opt :: "double zset option \<Rightarrow> bool" where
  "wf_opt z = (case z of None \<Rightarrow> True | Some z \<Rightarrow> wf_zset z)"

lemma wf_opt_simps [simp]: "wf_opt None" "wf_opt (Some z) = wf_zset z"
  by (simp_all add: wf_opt_def)

lemma safe_lift_bind: "(\<And>a. r = Inr a \<Longrightarrow> safe s (fst (f s a))) \<Longrightarrow> safe s (fst (bindR (liftE s r) f))"
  by (cases r) auto

lemma safe_zset_bind:
  assumes "\<And>s' z. (store_ok (data s') \<Longrightarrow> wf_opt z) \<Longrightarrow> safe s' (fst (f s' z))"
  shows "safe s (fst (bindR (get_zset ev key s) f))"
proof -
  let ?s = "fst (srv_get ev key s)"
  have "wf_zset z" if "store_ok (data ?s)" "zset_of (value_at ev s key) = Inr (Some z)" for z
    using value_at_ok [OF that(1), of ev key] that(2) value_at_cong [OF view_get]
    by (auto simp: zset_of_def split: option.splits val.splits)
  then have "store_ok (data ?s) \<Longrightarrow> zset_of (value_at ev s key) = Inr z \<Longrightarrow> wf_opt z" for z
    by (cases z) auto
  then show ?thesis
    using safe_trans [OF safe_get assms]
    by (cases "zset_of (value_at ev s key)") (auto simp: get_zset_eq safe_get)
qed

lemma safe_set_zset: "safe s s' \<Longrightarrow> (store_ok (data s) \<Longrightarrow> wf_zset z) \<Longrightarrow> safe s (set_zset key z s')"
  unfolding set_zset_def
  using quiet_trans [OF _ quiet_upd_data] by (auto simp: safe_def intro!: store_ok_mutate)

lemma safe_create_zset: "safe s s' \<Longrightarrow> safe s (create_zset key s')"
  unfolding create_zset_def by (rule safe_setitem') simp_all

lemma safe_zset_drop_empty: "safe s s' \<Longrightarrow> safe s (zset_drop_empty ev key z s')"
  by (simp add: zset_drop_empty_def safe_remove')

lemma safe_store_zset:
  "safe s s' \<Longrightarrow> (store_ok (data s) \<Longrightarrow> wf_opt z) \<Longrightarrow> safe s (store_zset key present z s')"
  by (auto simp: store_zset_def intro!: safe_set_zset safe_create_zset split: option.splits)

lemmas safe_zset_intros =
  safe_set_zset safe_create_zset safe_zset_drop_empty safe_store_zset safe_after_write' safe_notify' safe_remove'

lemma safe_get_zsets [safe_intros]: "safe s (fst (get_zsets ev keys sources s))"
proof (induction keys arbitrary: s sources)
  case (Cons key keys)
  show ?case by (simp, rule safe_bind) (auto intro: safe_intros Cons)
qed simp

lemma safe_aggregated [safe_intros]: "safe s (fst (aggregated ev keys weights aggregate op s))"
  by (auto simp: aggregated_def intro!: safe_bind safe_intros)

lemma wf_fold_zset_add:
  "wf_zset z \<Longrightarrow> wf_zset (fold (\<lambda>(member, score) z. fst (zset_add member (f score) z)) xs z)"
  by (induction xs arbitrary: z) (auto intro: wf_zset_add)

lemma wf_aggregate_zset: "wf_zset (aggregate_zset sources weights aggregate op)"
  unfolding aggregate_zset_def by (rule wf_fold_zset_add) simp

lemma wf_zadd_pair: "wf_opt (fst acc) \<Longrightarrow> wf_opt (fst (zadd_pair f pair acc))"
  by (cases "fst acc"; cases "case fst acc of None \<Rightarrow> None | Some z \<Rightarrow> zset_score z (snd pair)";
      simp add: zadd_pair_def case_prod_unfold wf_zset_add)

lemma wf_zadd_pairs: "wf_opt (fst acc) \<Longrightarrow> wf_opt (fst (fold (zadd_pair f) pairs acc))"
  by (induction pairs arbitrary: acc) (simp_all add: wf_zadd_pair)

lemma wf_zrem_members: "wf_zset (fst acc) \<Longrightarrow> wf_zset (fst (fold zrem_member members acc))"
proof (induction members arbitrary: acc)
  case (Cons m members)
  have "wf_zset (fst (zrem_member m acc))"
    using Cons.prems by (auto simp: zrem_member_def case_prod_unfold wf_zset_remove)
  then show ?case using Cons by simp
qed simp

lemma safe_removed_reply:
  "(store_ok (data s) \<Longrightarrow> wf_zset (fst r)) \<Longrightarrow> safe s (fst (removed_reply ev key event r s))"
  by (auto simp: removed_reply_def case_prod_unfold Let_def intro!: safe_zset_intros)

lemma wf_remove_rank: "wf_zset z \<Longrightarrow> wf_zset (fst (remove_rank start stop z))"
  using remove_rank_window by blast

lemma wf_remove_score: "wf_zset z \<Longrightarrow> wf_zset (fst (remove_score lo lo_open hi hi_open z))"
  using remove_score_window by blast

lemma wf_remove_lex: "wf_zset z \<Longrightarrow> wf_zset (fst (remove_lex b z))"
  using remove_member_window by (auto simp: remove_lex_def split: bounds.split)

lemma safe_zset_removals:
  "safe s (fst (ZREM ev key members s))" "safe s (fst (ZREMRANGEBYRANK ev key start stop s))"
  "safe s (fst (ZREMRANGEBYSCORE ev key lowest highest s))" "safe s (fst (ZREMRANGEBYLEX ev key lowest highest s))"
  by (auto simp: ZREM_def ZREMRANGEBYRANK_def ZREMRANGEBYSCORE_def ZREMRANGEBYLEX_def case_prod_unfold
      intro!: safe_zset_bind safe_lift_bind safe_removed_reply wf_zrem_members wf_remove_rank
        wf_remove_score wf_remove_lex split: option.split)

lemma safe_zpop: "safe s (fst (zpop ev key num left s))"
  by (auto simp: zpop_def Let_def case_prod_unfold
      intro!: safe_zset_bind safe_zset_intros wf_remove_rank split: option.split)

lemma safe_zadd_incr:
  "(store_ok (data s) \<Longrightarrow> wf_opt z) \<Longrightarrow> safe s (fst (zadd_incr f key pair z s))"
  by (auto simp: zadd_incr_def Let_def case_prod_unfold
      intro!: safe_zset_intros wf_zset_add split: option.split)

lemma safe_zadd_store: "(store_ok (data s) \<Longrightarrow> wf_opt z) \<Longrightarrow> safe s (fst (zadd_store f key pairs z s))"
  using wf_zadd_pairs [of "(z, 0, 0)" f pairs]
  by (auto simp: zadd_store_def Let_def case_prod_unfold intro!: safe_zset_intros)

lemma safe_ZADD: "safe s (fst (ZADD ev key args s))"
  by (auto simp: ZADD_def case_prod_unfold
      intro!: safe_lift_bind safe_zset_bind safe_zadd_incr safe_zadd_store)

lemma safe_ZINCRBY: "safe s (fst (ZINCRBY ev key raw member s))"
  unfolding ZINCRBY_def
proof (split option.split, intro conjI allI impI, simp, rule safe_zset_bind, goal_cases)
  case (1 increment s' z)
  then show ?case
    by (cases z) (auto simp: Let_def intro!: safe_zset_intros wf_zset_add split: option.split)
qed

lemma safe_range_reply: "safe s (fst (range_reply ev key parsed rev_order limit withscores s))"
  by (auto simp: range_reply_def intro!: safe_bind safe_intros)

lemma safe_zset_reads:
  "safe s (fst (ZCARD ev key s))" "safe s (fst (ZSCORE ev key member s))" "safe s (fst (ZMSCORE ev key members s))"
  "safe s (fst (ZRANK ev key member options s))" "safe s (fst (ZREVRANK ev key member options s))"
  "safe s (fst (ZRANGE ev key start stop options s))" "safe s (fst (ZREVRANGE ev key start stop options s))"
  "safe s (fst (ZRANGEBYSCORE ev key start stop options s))" "safe s (fst (ZREVRANGEBYSCORE ev key start stop options s))"
  "safe s (fst (ZRANGEBYLEX ev key start stop options s))" "safe s (fst (ZREVRANGEBYLEX ev key start stop options s))"
  "safe s (fst (ZCOUNT ev key start stop s))" "safe s (fst (ZLEXCOUNT ev key start stop s))"
  "safe s (fst (ZSCAN ev key cursor options s))" "safe s (fst (ZRANDMEMBER ev key num options s))"
  by (auto simp: ZCARD_def ZSCORE_def ZMSCORE_def ZRANK_def ZREVRANK_def zrank_def ZRANGE_def ZREVRANGE_def
      ZRANGEBYSCORE_def ZREVRANGEBYSCORE_def legacy_score_range_def ZRANGEBYLEX_def ZREVRANGEBYLEX_def
      legacy_lex_range_def ZCOUNT_def ZLEXCOUNT_def ZSCAN_def ZRANDMEMBER_def case_prod_unfold
      intro!: safe_lift_bind safe_bind [OF safe_get_zset] safe_range_reply split: option.split)

lemma wf_aggregated: "aggregated ev keys weights aggregate op s = (s', Inr z) \<Longrightarrow> wf_zset z"
  by (auto simp: aggregated_def bindR_eq_returns returns_def wf_aggregate_zset)

lemma safe_store_aggregate: "safe s (fst (store_aggregate ev target keys weights aggregate op s))"
  unfolding store_aggregate_def
proof (rule safe_bind [OF safe_aggregated], goal_cases)
  case (1 s' z)
  then show ?case using wf_aggregated [OF 1(1)] by (auto intro!: safe_intros safe_remove)
qed

lemma safe_zstore: "safe s (fst (zstore op command aw ev target numkeys rest s))"
  by (auto simp: zstore_def case_prod_unfold intro!: safe_lift_bind safe_store_aggregate)

lemma safe_zcombine: "safe s (fst (zcombine op command aw ev numkeys rest s))"
  by (auto simp: zcombine_def case_prod_unfold intro!: safe_lift_bind safe_bind safe_intros)

lemmas safe_zset_cmds =
  safe_zset_reads safe_zset_removals safe_ZADD safe_ZINCRBY
  safe_zpop [of _ _ _ _ True, folded ZPOPMIN_def] safe_zpop [of _ _ _ _ False, folded ZPOPMAX_def]
  safe_zstore [of _ ZUnion "''zunionstore''" True, folded ZUNIONSTORE_def]
  safe_zstore [of _ ZInter "''zinterstore''" True, folded ZINTERSTORE_def]
  safe_zstore [of _ ZDiff "''zdiffstore''" False, folded ZDIFFSTORE_def]
  safe_zcombine [of _ ZUnion "''zunion''" True, folded ZUNION_def]
  safe_zcombine [of _ ZInter "''zinter''" True, folded ZINTER_def]
  safe_zcombine [of _ ZDiff "''zdiff''" False, folded ZDIFF_def]

end
