(* ===== verification/BitCmds.thy ===== *)
theory BitCmds
  imports SetCmds KeyspaceCmds
begin

text \<open>
  The bit commands of \<open>commands/bit.py\<close>.  A bitmap is an object of pyroaring, whose operations are the
  record \<open>bitmaps\<close>, an argument of every definition; \<open>bitmaps_ok\<close> states what is documented of them: a
  bitmap is a finite set of numbers below \<open>2 ^ 32\<close>.
\<close>

unbundle bit_operations_syntax

section \<open>The bitmaps of pyroaring\<close>

text \<open>
  \<open>bm_limit\<close> is the first number a bitmap cannot hold: asking for one of these raises
  \<^verbatim>\<open>OverflowError\<close>.  \<open>bm_flip i j\<close> complements within the numbers from \<open>i\<close> up to, not including, \<open>j\<close>.
\<close>

record 'bm bitmaps =
  bm_limit :: nat
  bm_new :: 'bm
  bm_has :: "nat \<Rightarrow> 'bm \<Rightarrow> bool"
  bm_add :: "nat \<Rightarrow> 'bm \<Rightarrow> 'bm"
  bm_discard :: "nat \<Rightarrow> 'bm \<Rightarrow> 'bm"
  bm_len :: "'bm \<Rightarrow> nat"
  bm_min :: "'bm \<Rightarrow> nat"
  bm_max :: "'bm \<Rightarrow> nat"
  bm_and :: "'bm \<Rightarrow> 'bm \<Rightarrow> 'bm"
  bm_or :: "'bm \<Rightarrow> 'bm \<Rightarrow> 'bm"
  bm_xor :: "'bm \<Rightarrow> 'bm \<Rightarrow> 'bm"
  bm_flip :: "nat \<Rightarrow> nat \<Rightarrow> 'bm \<Rightarrow> 'bm"

text \<open>The documented bound, kept folded in proofs.\<close>

definition BIT_LIMIT :: nat where "BIT_LIMIT = 2 ^ 32"

definition bitmaps_ok :: "'bm bitmaps \<Rightarrow> ('bm \<Rightarrow> nat set) \<Rightarrow> bool" where
  "bitmaps_ok B bits \<longleftrightarrow>
     bm_limit B = BIT_LIMIT \<and> bits (bm_new B) = {} \<and>
     (\<forall>b. bits b \<subseteq> {..<BIT_LIMIT}) \<and>
     (\<forall>n b. n < BIT_LIMIT \<longrightarrow> bm_has B n b = (n \<in> bits b) \<and> bits (bm_add B n b) = insert n (bits b)
        \<and> bits (bm_discard B n b) = bits b - {n}) \<and>
     (\<forall>b. bm_len B b = card (bits b)) \<and>
     (\<forall>b. bits b \<noteq> {} \<longrightarrow> bm_min B b = Min (bits b) \<and> bm_max B b = Max (bits b)) \<and>
     (\<forall>a b. bits (bm_and B a b) = bits a \<inter> bits b \<and> bits (bm_or B a b) = bits a \<union> bits b
        \<and> bits (bm_xor B a b) = bits a - bits b \<union> (bits b - bits a)) \<and>
     (\<forall>i j b. i \<le> j \<longrightarrow> j \<le> BIT_LIMIT \<longrightarrow> bits (bm_flip B i j b) = (bits b - {i..<j}) \<union> ({i..<j} - bits b))"

section \<open>Helpers\<close>

definition byte_length :: "nat \<Rightarrow> nat" where
  "byte_length max_bit = max_bit div 8 + 1"

definition universe :: "'bm bitmaps \<Rightarrow> 'bm \<Rightarrow> nat" where
  "universe B b = byte_length (bm_max B b) * 8"

definition get_bitmap :: "env \<Rightarrow> bytes \<Rightarrow> 'bm server \<Rightarrow> ('bm server, exn, 'bm option) result" where
  "get_bitmap ev key s =
     bindR (expect_kind ev key KIND_BITMAP s)
       (\<lambda>s v. returns s (case v of Some (VBitmap b) \<Rightarrow> Some b | _ \<Rightarrow> None))"

definition set_bitmap :: "bytes \<Rightarrow> 'bm \<Rightarrow> 'bm server \<Rightarrow> 'bm server" where
  "set_bitmap key b s = upd_data (data_mutate key (VBitmap b)) s"

definition new_bitmap_at :: "bytes \<Rightarrow> 'bm \<Rightarrow> 'bm server \<Rightarrow> 'bm server" where
  "new_bitmap_at key b s = upd_data (data_setitem key (VBitmap b)) s"

section \<open>Single bits\<close>

definition SETBIT :: "'bm bitmaps \<Rightarrow> env \<Rightarrow> bytes \<Rightarrow> int \<Rightarrow> int \<Rightarrow> 'bm server \<Rightarrow> 'bm cmd_result" where
  "SETBIT B ev key pos v s =
     (if pos < 0 \<or> pos > 2 ^ 32 - 1 then raise_error s BIT_OFFSET
      else if v \<noteq> 0 \<and> v \<noteq> 1 then raise_error s BIT_VALUE
      else
        bindR (get_bitmap ev key s) (\<lambda>s cur.
          let (s, b, previous) = (case cur of
                None \<Rightarrow> (new_bitmap_at key (bm_new B) s, bm_new B, 0)
              | Some b \<Rightarrow> (s, b, if bm_has B (nat pos) b then 1 else 0));
              b = (if v \<noteq> 0 then bm_add B (nat pos) b
                   else if previous \<noteq> 0 then bm_discard B (nat pos) b else b);
              s = set_bitmap key b s;
              s = (if previous \<noteq> v then after_write key ''setbit'' s else s)
          in returns s (RInt previous)))"

definition GETBIT :: "'bm bitmaps \<Rightarrow> env \<Rightarrow> bytes \<Rightarrow> int \<Rightarrow> 'bm server \<Rightarrow> 'bm cmd_result" where
  "GETBIT B ev key pos s =
     (if pos < 0 then raise_error s BIT_OFFSET
      else
        bindR (get_bitmap ev key s) (\<lambda>s cur.
          case cur of
            None \<Rightarrow> returns s (RInt 0)
          | Some b \<Rightarrow>
              if bm_limit B \<le> nat pos then raises s Crashed
              else returns s (RInt (if bm_has B (nat pos) b then 1 else 0))))"

definition BITCOUNT :: "'bm bitmaps \<Rightarrow> env \<Rightarrow> bytes \<Rightarrow> 'bm server \<Rightarrow> 'bm cmd_result" where
  "BITCOUNT B ev key s =
     bindR (get_bitmap ev key s) (\<lambda>s cur.
       returns s (RInt (case cur of None \<Rightarrow> 0 | Some b \<Rightarrow> int (bm_len B b))))"

definition BITPOS :: "'bm bitmaps \<Rightarrow> env \<Rightarrow> bytes \<Rightarrow> bytes \<Rightarrow> 'bm server \<Rightarrow> 'bm cmd_result" where
  "BITPOS B ev key digit s =
     (if digit \<noteq> ''0'' \<and> digit \<noteq> ''1'' then raise_error s BIT_ARG
      else
        bindR (get_bitmap ev key s) (\<lambda>s cur.
          returns s (RInt (case cur of
              None \<Rightarrow> - 1
            | Some b \<Rightarrow>
                if bm_len B b = 0 then (if digit = ''0'' then 0 else - 1)
                else if digit = ''1'' then int (bm_min B b)
                else
                  let complement = bm_flip B 0 (universe B b) b
                  in if bm_len B complement \<noteq> 0 then int (bm_min B complement) else - 1))))"

section \<open>BITOP\<close>

fun bitop_loop ::
  "'bm bitmaps \<Rightarrow> env \<Rightarrow> bytes list \<Rightarrow> 'bm list \<Rightarrow> nat \<Rightarrow> 'bm server \<Rightarrow> ('bm server, exn, 'bm list \<times> nat) result"
  where
  "bitop_loop B ev [] maps longest s = returns s (maps, longest)"
| "bitop_loop B ev (key # keys) maps longest s =
     bindR (get_bitmap ev key s) (\<lambda>s cur.
       case cur of
         None \<Rightarrow> bitop_loop B ev keys (maps @ [bm_new B]) longest s
       | Some b \<Rightarrow>
           bitop_loop B ev keys (maps @ [b])
             (if bm_len B b \<noteq> 0 then max longest (bm_max B b) else longest) s)"

definition BITOP_NOT_ERROR :: error where
  "BITOP_NOT_ERROR = err ''BITOP NOT must be called with a single source key''"

definition bitop_result :: "'bm bitmaps \<Rightarrow> bytes \<Rightarrow> 'bm list \<Rightarrow> error + 'bm" where
  "bitop_result B opname maps =
     (if opname = ''NOT'' then
        (if length maps \<noteq> 1 then Inl BITOP_NOT_ERROR
         else
           let source = hd maps
           in Inr (if bm_len B source \<noteq> 0 then bm_flip B 0 (universe B source) source else bm_new B))
      else
        case (if opname = ''AND'' then Some (bm_and B) else if opname = ''OR'' then Some (bm_or B)
              else if opname = ''XOR'' then Some (bm_xor B) else None) of
          None \<Rightarrow> Inl SYNTAX
        | Some f \<Rightarrow>
            Inr (if length maps = 1 then bm_or B (hd maps) (bm_new B) else foldl f (hd maps) (tl maps)))"

definition BITOP :: "'bm bitmaps \<Rightarrow> env \<Rightarrow> bytes \<Rightarrow> bytes \<Rightarrow> bytes list \<Rightarrow> 'bm server \<Rightarrow> 'bm cmd_result" where
  "BITOP B ev opname target keys s =
     (if keys = [] then raise_error s (arity ''bitop'')
      else
        bindR (bitop_loop B ev keys [] 0 s) (\<lambda>s (maps, longest).
        bindR (liftE s (bitop_result B (upper opname) maps)) (\<lambda>s result.
          let s = (if bm_len B result \<noteq> 0 then after_write target ''set'' (new_bitmap_at target result s)
                   else fst (srv_remove ev target s))
          in returns s (RInt (if longest \<noteq> 0 then int (byte_length longest) else 0)))))"

section \<open>Fields of bits\<close>

datatype overflow = WRAP | SAT | FAIL

text \<open>
  A parsed subcommand: whether the type is signed, its width, the offset and, for the writing ones, the
  amount and the overflow mode.
\<close>

datatype bitfield_op =
    BfGet bool nat nat
  | BfSet bool nat nat int overflow
  | BfIncrby bool nat nat int overflow

definition BITFIELD_MAX_OFFSET :: int where "BITFIELD_MAX_OFFSET = 2 ^ 32 - 1"

definition bitfield_type :: "bytes \<Rightarrow> (bool \<times> nat) option" where
  "bitfield_type raw =
     (if raw = [] \<or> hd raw \<noteq> CHR ''i'' \<and> hd raw \<noteq> CHR ''u'' \<or> tl raw = [] \<or> \<not> list_all is_digit (tl raw) then None
      else
        let signed = (hd raw = CHR ''i''); width = dec_val (tl raw)
        in if width < 1 \<or> width > 64 \<or> \<not> signed \<and> width = 64 then None else Some (signed, width))"

fun extract_bits :: "'bm bitmaps \<Rightarrow> 'bm \<Rightarrow> nat \<Rightarrow> nat \<Rightarrow> int \<Rightarrow> int" where
  "extract_bits B b offset 0 v = v"
| "extract_bits B b offset (Suc width) v =
     extract_bits B b (offset + 1) width (v * 2 + (if bm_has B offset b then 1 else 0))"

fun clear_bits :: "'bm bitmaps \<Rightarrow> nat \<Rightarrow> nat \<Rightarrow> 'bm \<Rightarrow> 'bm" where
  "clear_bits B offset 0 b = b"
| "clear_bits B offset (Suc width) b = clear_bits B (offset + 1) width (bm_discard B offset b)"

text \<open>The loop from the last bit of the field backwards: \<open>left\<close> positions remain.\<close>

fun write_bits :: "'bm bitmaps \<Rightarrow> nat \<Rightarrow> nat \<Rightarrow> int \<Rightarrow> 'bm \<Rightarrow> 'bm" where
  "write_bits B offset 0 v b = b"
| "write_bits B offset (Suc left) v b =
     (if v = 0 then b
      else write_bits B offset left (v div 2) (if v AND 1 \<noteq> 0 then bm_add B (offset + left) b else b))"

definition store_bits :: "'bm bitmaps \<Rightarrow> nat \<Rightarrow> nat \<Rightarrow> int \<Rightarrow> 'bm \<Rightarrow> 'bm" where
  "store_bits B offset width v b = write_bits B offset width v (clear_bits B offset width b)"

definition interpret_bits :: "int \<Rightarrow> bool \<Rightarrow> nat \<Rightarrow> int" where
  "interpret_bits v signed width = (if signed \<and> v \<ge> 2 ^ (width - 1) then v - 2 ^ width else v)"

text \<open>\<open>None\<close> is the outcome of \<^verbatim>\<open>OVERFLOW FAIL\<close>.\<close>

definition bitfield_overflow :: "int \<Rightarrow> bool \<Rightarrow> nat \<Rightarrow> overflow \<Rightarrow> int option" where
  "bitfield_overflow v signed width mode =
     (let span = 2 ^ width;
          lo = (if signed then - (2 ^ (width - 1)) else 0);
          hi = (if signed then 2 ^ (width - 1) - 1 else span - 1)
      in if lo \<le> v \<and> v \<le> hi then Some v
         else case mode of
             SAT \<Rightarrow> Some (if v < lo then lo else hi)
           | WRAP \<Rightarrow> (let v = v mod span in Some (if signed \<and> v \<ge> 2 ^ (width - 1) then v - span else v))
           | FAIL \<Rightarrow> None)"

definition bitfield_offset :: "bytes \<Rightarrow> nat \<Rightarrow> error + nat" where
  "bitfield_offset raw width =
     (let multiplier = (raw \<noteq> [] \<and> hd raw = CHR ''#'');
          raw = (if multiplier then tl raw else raw)
      in case string2ll raw of
           None \<Rightarrow> Inl BIT_OFFSET
         | Some offset \<Rightarrow>
             if offset < 0 \<or> offset > BITFIELD_MAX_OFFSET then Inl BIT_OFFSET
             else Inr (if multiplier then nat offset * width else nat offset))"

definition parse_overflow :: "bytes \<Rightarrow> overflow option" where
  "parse_overflow raw =
     (if upper raw = ''WRAP'' then Some WRAP else if upper raw = ''SAT'' then Some SAT
      else if upper raw = ''FAIL'' then Some FAIL else None)"

text \<open>One subcommand whose word is \<open>opt\<close>, from the words behind it.\<close>

definition parse_bitfield_op :: "bool \<Rightarrow> bytes \<Rightarrow> bytes list \<Rightarrow> overflow \<Rightarrow> error + bitfield_op" where
  "parse_bitfield_op ro opt rest mode =
     (case bitfield_type (rest ! 0) of
        None \<Rightarrow> Inl BITFIELD_TYPE
      | Some (signed, width) \<Rightarrow>
          (case bitfield_offset (rest ! 1) width of
             Inl e \<Rightarrow> Inl e
           | Inr offset \<Rightarrow>
               if opt = ''GET'' then Inr (BfGet signed width offset)
               else if ro then Inl BITFIELD_RO_ERROR
               else
                 case string2ll (rest ! 2) of
                   None \<Rightarrow> Inl NOT_INT
                 | Some amount \<Rightarrow>
                     Inr (if opt = ''SET'' then BfSet signed width offset amount mode
                          else BfIncrby signed width offset amount mode)))"

function parse_bitfield :: "bool \<Rightarrow> bytes list \<Rightarrow> overflow \<Rightarrow> error + bitfield_op list" where
  "parse_bitfield ro [] mode = Inr []"
| "parse_bitfield ro (raw # rest) mode =
     (let opt = upper raw; need = (if opt = ''GET'' then 2 else 3) in
      if opt = ''OVERFLOW'' then
        (if rest = [] then Inl SYNTAX
         else
           case parse_overflow (hd rest) of
             None \<Rightarrow> Inl BITFIELD_OVERFLOW
           | Some mode \<Rightarrow> parse_bitfield ro (drop 1 rest) mode)
      else if opt \<noteq> ''GET'' \<and> opt \<noteq> ''SET'' \<and> opt \<noteq> ''INCRBY'' then Inl SYNTAX
      else if length rest < need then Inl SYNTAX
      else
        case parse_bitfield_op ro opt rest mode of
          Inl e \<Rightarrow> Inl e
        | Inr p \<Rightarrow> map_sum id (\<lambda>ps. p # ps) (parse_bitfield ro (drop need rest) mode))"
  by pat_completeness auto
termination parse_bitfield
  by (relation "measure (\<lambda>(ro, args, mode). length args)") auto

text \<open>
  One subcommand on the bitmap: the new bitmap, whether it was written, and the answer; \<open>None\<close> when the
  field reaches beyond the numbers a bitmap can hold.
\<close>

definition write_field ::
  "'bm bitmaps \<Rightarrow> nat \<Rightarrow> nat \<Rightarrow> int option \<Rightarrow> reply \<Rightarrow> 'bm \<Rightarrow> 'bm \<times> bool \<times> reply" where
  "write_field B offset width v answer b =
     (case v of
        None \<Rightarrow> (b, False, RResponse NIL)
      | Some v \<Rightarrow> (store_bits B offset width (v mod 2 ^ width) b, True, answer))"

fun bitfield_step :: "'bm bitmaps \<Rightarrow> bitfield_op \<Rightarrow> 'bm \<Rightarrow> ('bm \<times> bool \<times> reply) option" where
  "bitfield_step B (BfGet signed width offset) b =
     (if bm_limit B < offset + width then None
      else Some (b, False, RInt (interpret_bits (extract_bits B b offset width 0) signed width)))"
| "bitfield_step B (BfSet signed width offset amount mode) b =
     (if bm_limit B < offset + width then None
      else
        let old = extract_bits B b offset width 0
        in Some (write_field B offset width (bitfield_overflow amount signed width mode)
             (RInt (interpret_bits old signed width)) b))"
| "bitfield_step B (BfIncrby signed width offset amount mode) b =
     (if bm_limit B < offset + width then None
      else
        let current = interpret_bits (extract_bits B b offset width 0) signed width;
            v = bitfield_overflow (current + amount) signed width mode
        in Some (write_field B offset width v (RInt (case v of None \<Rightarrow> 0 | Some v \<Rightarrow> v)) b))"

fun bitfield_loop :: "'bm bitmaps \<Rightarrow> bitfield_op list \<Rightarrow> 'bm \<Rightarrow> bool \<Rightarrow> reply list \<Rightarrow> 'bm \<times> bool \<times> reply list option" where
  "bitfield_loop B [] b wrote out = (b, wrote, Some out)"
| "bitfield_loop B (p # ps) b wrote out =
     (case bitfield_step B p b of
        None \<Rightarrow> (b, wrote, None)
      | Some (b, w, answer) \<Rightarrow> bitfield_loop B ps b (wrote \<or> w) (out @ [answer]))"

definition bitfield :: "'bm bitmaps \<Rightarrow> env \<Rightarrow> bytes \<Rightarrow> bytes list \<Rightarrow> bool \<Rightarrow> 'bm server \<Rightarrow> 'bm cmd_result" where
  "bitfield B ev key args ro s =
     bindR (liftE s (parse_bitfield ro args WRAP)) (\<lambda>s subs.
     bindR (get_bitmap ev key s) (\<lambda>s cur.
       case bitfield_loop B subs (case cur of None \<Rightarrow> bm_new B | Some b \<Rightarrow> b) False [] of
         (b, wrote, out) \<Rightarrow>
           let s = (if cur \<noteq> None then set_bitmap key b s else s)
           in case out of
                None \<Rightarrow> raises s Crashed
              | Some out \<Rightarrow>
                  let s = (if cur = None \<and> wrote then new_bitmap_at key b s else s);
                      s = (if wrote then after_write key ''setbit'' s else s)
                  in returns s (RList out)))"

definition BITFIELD :: "'bm bitmaps \<Rightarrow> env \<Rightarrow> bytes \<Rightarrow> bytes list \<Rightarrow> 'bm server \<Rightarrow> 'bm cmd_result" where
  "BITFIELD B ev key args s = bitfield B ev key args False s"

definition BITFIELD_RO :: "'bm bitmaps \<Rightarrow> env \<Rightarrow> bytes \<Rightarrow> bytes list \<Rightarrow> 'bm server \<Rightarrow> 'bm cmd_result" where
  "BITFIELD_RO B ev key args s = bitfield B ev key args True s"

section \<open>Safety\<close>

definition bitmap_of :: "'bm val option \<Rightarrow> error + 'bm option" where
  "bitmap_of v = (case v of None \<Rightarrow> Inr None | Some (VBitmap b) \<Rightarrow> Inr (Some b) | Some _ \<Rightarrow> Inl WRONGTYPE)"

lemma get_bitmap_eq: "get_bitmap ev key s = liftE (fst (srv_get ev key s)) (bitmap_of (value_at ev s key))"
  by (simp add: get_bitmap_def expect_kind_cases bitmap_of_def split: option.splits val.splits)

lemma safe_get_bitmap [safe_intros]: "safe s (fst (get_bitmap ev key s))"
  by (simp add: get_bitmap_eq safe_get)

lemma safe_set_bitmap: "safe s s' \<Longrightarrow> safe s (set_bitmap key b s')"
  unfolding set_bitmap_def by (rule safe_mutate') simp_all

lemma safe_new_bitmap_at: "safe s s' \<Longrightarrow> safe s (new_bitmap_at key b s')"
  unfolding new_bitmap_at_def by (rule safe_setitem') simp_all

lemmas safe_bitmap_intros = safe_set_bitmap safe_new_bitmap_at safe_after_write' safe_remove'

lemma safe_bitop_loop: "safe s (fst (bitop_loop B ev keys maps longest s))"
proof (induction keys arbitrary: maps longest s)
  case (Cons key keys)
  show ?case by (simp, rule safe_bind) (auto intro: safe_intros Cons split: option.split)
qed simp

lemma safe_bitfield: "safe s (fst (bitfield B ev key args ro s))"
  by (cases "parse_bitfield ro args WRAP")
    (auto simp: bitfield_def Let_def case_prod_unfold intro!: safe_bind [OF safe_get_bitmap] safe_bitmap_intros
      split: option.split)

lemma safe_SETBIT: "safe s (fst (SETBIT B ev key pos v s))"
proof -
  have "safe s (fst (let (s, b, previous) = (case cur of
                None \<Rightarrow> (new_bitmap_at key (bm_new B) s, bm_new B, 0)
              | Some b \<Rightarrow> (s, b, if bm_has B (nat pos) b then 1 else 0));
              b = (if v \<noteq> 0 then bm_add B (nat pos) b
                   else if previous \<noteq> 0 then bm_discard B (nat pos) b else b);
              s = set_bitmap key b s;
              s = (if previous \<noteq> v then after_write key ''setbit'' s else s)
          in returns s (RInt previous)))" for s :: "'a server" and cur
    by (cases cur) (simp_all add: Let_def safe_bitmap_intros)
  then show ?thesis
    unfolding SETBIT_def
    by (split if_split, intro conjI impI, simp, split if_split, intro conjI impI, simp)
      (rule safe_bind [OF safe_get_bitmap])
qed

lemma safe_GETBIT: "safe s (fst (GETBIT B ev key pos s))"
  by (auto simp: GETBIT_def intro!: safe_bind [OF safe_get_bitmap] split: option.split)

lemma safe_BITCOUNT: "safe s (fst (BITCOUNT B ev key s))"
  by (auto simp: BITCOUNT_def intro!: safe_bind [OF safe_get_bitmap])

lemma safe_BITPOS: "safe s (fst (BITPOS B ev key digit s))"
  by (auto simp: BITPOS_def intro!: safe_bind [OF safe_get_bitmap])

lemma safe_BITOP: "safe s (fst (BITOP B ev opname target keys s))"
proof -
  have "safe s' (fst (bindR (liftE s' (bitop_result B (upper opname) maps)) (\<lambda>s result.
          let s = (if bm_len B result \<noteq> 0 then after_write target ''set'' (new_bitmap_at target result s)
                   else fst (srv_remove ev target s))
          in returns s (RInt (if longest \<noteq> 0 then int (byte_length longest) else 0)))))"
    for s' :: "'a server" and maps longest
    by (cases "bitop_result B (upper opname) maps") (simp_all add: Let_def safe_bitmap_intros)
  then show ?thesis
    by (auto simp: BITOP_def case_prod_unfold intro!: safe_bind [OF safe_bitop_loop])
qed

lemmas safe_bit_cmds =
  safe_SETBIT safe_GETBIT safe_BITCOUNT safe_BITPOS safe_BITOP
  safe_bitfield [of _ _ _ _ _ False, folded BITFIELD_def] safe_bitfield [of _ _ _ _ _ True, folded BITFIELD_RO_def]

section \<open>The contract of the bitmaps\<close>

lemma bitmaps_okD:
  assumes "bitmaps_ok B bits"
  shows "bm_limit B = BIT_LIMIT" "bits (bm_new B) = {}" "finite (bits b)" "n \<in> bits b \<Longrightarrow> n < BIT_LIMIT"
    "n < BIT_LIMIT \<Longrightarrow> bm_has B n b = (n \<in> bits b)" "n < BIT_LIMIT \<Longrightarrow> bits (bm_add B n b) = insert n (bits b)"
    "n < BIT_LIMIT \<Longrightarrow> bits (bm_discard B n b) = bits b - {n}" "bm_len B b = card (bits b)"
    "bits b \<noteq> {} \<Longrightarrow> bm_min B b = Min (bits b)" "bits b \<noteq> {} \<Longrightarrow> bm_max B b = Max (bits b)"
    "bits (bm_and B a b) = bits a \<inter> bits b" "bits (bm_or B a b) = bits a \<union> bits b"
    "bits (bm_xor B a b) = bits a - bits b \<union> (bits b - bits a)"
    "i \<le> j \<Longrightarrow> j \<le> BIT_LIMIT \<Longrightarrow> bits (bm_flip B i j b) = (bits b - {i..<j}) \<union> ({i..<j} - bits b)"
proof -
  have "bits b \<subseteq> {..<BIT_LIMIT}" using assms by (simp add: bitmaps_ok_def)
  then show "finite (bits b)" "n \<in> bits b \<Longrightarrow> n < BIT_LIMIT" by (auto intro: finite_subset [OF _ finite_lessThan])
qed (use assms in \<open>simp_all add: bitmaps_ok_def\<close>)

section \<open>Fields as numbers\<close>

text \<open>The number a field of a set of bits holds, most significant bit first, and the set after writing one.\<close>

fun field_value :: "nat set \<Rightarrow> nat \<Rightarrow> nat \<Rightarrow> int" where
  "field_value S offset 0 = 0"
| "field_value S offset (Suc width) = (if offset \<in> S then 2 ^ width else 0) + field_value S (offset + 1) width"

definition put_field :: "nat set \<Rightarrow> nat \<Rightarrow> nat \<Rightarrow> int \<Rightarrow> nat set" where
  "put_field S offset width v =
     (S - {offset..<offset + width}) \<union> {n \<in> {offset..<offset + width}. bit v (offset + width - 1 - n)}"

lemma field_value_bounds: "0 \<le> field_value S offset width \<and> field_value S offset width < 2 ^ width"
proof (induction width arbitrary: offset)
  case (Suc width)
  from Suc [of "offset + 1"] show ?case by auto
qed simp

lemma field_value_bits:
  "(\<And>n. offset \<le> n \<Longrightarrow> n < offset + width \<Longrightarrow> n \<in> S \<longleftrightarrow> bit v (offset + width - 1 - n)) \<Longrightarrow>
    field_value S offset width = take_bit width v"
proof (induction width arbitrary: offset)
  case (Suc width)
  have "field_value S (offset + 1) width = take_bit width v" by (rule Suc.IH) (use Suc.prems in auto)
  moreover have "offset \<in> S \<longleftrightarrow> bit v width" using Suc.prems [of offset] by simp
  ultimately show ?case by (simp add: take_bit_Suc_from_most)
qed simp

lemma field_value_put: "field_value (put_field S offset width v) offset width = v mod 2 ^ width"
  using field_value_bits [of offset width "put_field S offset width v" v]
  by (simp add: put_field_def take_bit_eq_mod)

lemma put_field_other: "n \<notin> {offset..<offset + width} \<Longrightarrow> n \<in> put_field S offset width v \<longleftrightarrow> n \<in> S"
  by (auto simp: put_field_def)

lemma extract_bits_value:
  assumes ok: "bitmaps_ok B bits" and "offset + width \<le> BIT_LIMIT"
  shows "extract_bits B b offset width v = v * 2 ^ width + field_value (bits b) offset width"
  using assms(2)
proof (induction width arbitrary: offset v)
  case (Suc width)
  have "bm_has B offset b = (offset \<in> bits b)" using Suc.prems by (intro bitmaps_okD(5) [OF ok]) simp
  then show ?case using Suc.IH [of "offset + 1"] Suc.prems by (simp add: algebra_simps)
qed simp

lemma clear_bits_set:
  assumes ok: "bitmaps_ok B bits" and "offset + width \<le> BIT_LIMIT"
  shows "bits (clear_bits B offset width b) = bits b - {offset..<offset + width}"
  using assms(2)
proof (induction width arbitrary: offset b)
  case (Suc width)
  have "bits (bm_discard B offset b) = bits b - {offset}" using Suc.prems by (intro bitmaps_okD(7) [OF ok]) simp
  then show ?case using Suc.IH [of "offset + 1"] Suc.prems by auto
qed simp

lemma write_bits_set:
  assumes ok: "bitmaps_ok B bits" and "offset + width \<le> BIT_LIMIT" "0 \<le> v"
  shows "bits (write_bits B offset width v b) =
    bits b \<union> {n \<in> {offset..<offset + width}. bit v (offset + width - 1 - n)}"
  using assms(2,3)
proof (induction width arbitrary: v b)
  case (Suc width)
  show ?case
  proof (cases "v = 0")
    case False
    let ?b = "if v AND 1 \<noteq> 0 then bm_add B (offset + width) b else b"
    have "offset + width < BIT_LIMIT" using Suc.prems by simp
    then have b: "bits ?b = bits b \<union> (if bit v 0 then {offset + width} else {})"
      by (simp add: bitmaps_okD(6) [OF ok] and_one_eq odd_iff_mod_2_eq_one [symmetric] bit_0)
    have "n < offset + width \<Longrightarrow> offset \<le> n \<Longrightarrow> bit (v div 2) (offset + width - 1 - n) = bit v (offset + width - n)" for n
      by (simp add: bit_Suc [symmetric] Suc_diff_Suc)
    then have "{n \<in> {offset..<offset + Suc width}. bit v (offset + Suc width - 1 - n)} =
        (if bit v 0 then {offset + width} else {})
          \<union> {n \<in> {offset..<offset + width}. bit (v div 2) (offset + width - 1 - n)}"
      by (auto simp: less_Suc_eq split: if_splits)
    moreover have "bits (write_bits B offset (Suc width) v b) =
        bits ?b \<union> {n \<in> {offset..<offset + width}. bit (v div 2) (offset + width - 1 - n)}"
      using Suc.IH [of "v div 2" ?b] Suc.prems False by simp
    ultimately show ?thesis unfolding b by auto
  qed simp
qed simp

lemma store_bits_set:
  assumes "bitmaps_ok B bits" "offset + width \<le> BIT_LIMIT"
  shows "bits (store_bits B offset width (v mod 2 ^ width) b) = put_field (bits b) offset width v"
proof -
  have "bit (v mod 2 ^ width) (offset + width - 1 - n) = bit v (offset + width - 1 - n)"
    if "n \<in> {offset..<offset + width}" for n
    using that by (auto simp: bit_take_bit_iff simp flip: take_bit_eq_mod)
  then show ?thesis
    by (auto simp: store_bits_def put_field_def write_bits_set [OF assms] clear_bits_set [OF assms])
qed

section \<open>Overflow\<close>

definition lowest :: "bool \<Rightarrow> nat \<Rightarrow> int" where
  "lowest signed width = (if signed then - (2 ^ (width - 1)) else 0)"

definition highest :: "bool \<Rightarrow> nat \<Rightarrow> int" where
  "highest signed width = (if signed then 2 ^ (width - 1) - 1 else 2 ^ width - 1)"

lemma signed_wrap:
  fixes v :: int
  assumes "0 < width"
  shows "signed_take_bit (width - 1) v =
    (if v mod 2 ^ width \<ge> 2 ^ (width - 1) then v mod 2 ^ width - 2 ^ width else v mod 2 ^ width)"
proof -
  obtain n where n: "width = Suc n" using assms by (cases width) auto
  have s: "signed_take_bit n v = take_bit (Suc n) v - (if bit v n then 2 ^ Suc n else 0)"
    by (simp add: signed_take_bit_eq_take_bit_minus)
  have split: "take_bit (Suc n) v = (if bit v n then 2 ^ n else 0) + take_bit n v"
    by (simp add: take_bit_Suc_from_most)
  have bounds: "take_bit n v < 2 ^ n" "0 \<le> take_bit n v" by (simp_all only: take_bit_int_less_exp take_bit_nonnegative)
  have "2 ^ n \<le> take_bit (Suc n) v \<longleftrightarrow> bit v n"
  proof (cases "bit v n")
    case True
    then have "take_bit (Suc n) v = 2 ^ n + take_bit n v" by (simp only: split if_True)
    then show ?thesis using bounds(2) True by linarith
  next
    case False
    then have "take_bit (Suc n) v = take_bit n v" by (simp only: split if_False add_0)
    then show ?thesis using bounds(1) False by linarith
  qed
  then show ?thesis using s by (simp add: n take_bit_eq_mod)
qed

lemma bitfield_overflow_spec:
  assumes "0 < width"
  shows "bitfield_overflow v signed width WRAP =
      Some (if signed then signed_take_bit (width - 1) v else take_bit width v)"
    and "bitfield_overflow v signed width SAT = Some (max (lowest signed width) (min (highest signed width) v))"
    and "bitfield_overflow v signed width FAIL =
      (if lowest signed width \<le> v \<and> v \<le> highest signed width then Some v else None)"
proof -
  have range: "signed_take_bit (width - 1) v = v" if "- (2 ^ (width - 1)) \<le> v" "v < 2 ^ (width - 1)"
    using that by (simp add: signed_take_bit_int_eq_self)
  have "take_bit width v = v" if "0 \<le> v" "v < 2 ^ width" using that by (simp add: take_bit_int_eq_self)
  then show "bitfield_overflow v signed width WRAP =
      Some (if signed then signed_take_bit (width - 1) v else take_bit width v)"
    using range by (auto simp: bitfield_overflow_def Let_def signed_wrap [OF assms, unfolded One_nat_def] take_bit_eq_mod)
  have "(0 :: int) < 2 ^ (width - 1)" "(0 :: int) < 2 ^ width" by simp_all
  then show "bitfield_overflow v signed width SAT = Some (max (lowest signed width) (min (highest signed width) v))"
    by (auto simp: bitfield_overflow_def Let_def lowest_def highest_def min_def max_def)
  show "bitfield_overflow v signed width FAIL =
      (if lowest signed width \<le> v \<and> v \<le> highest signed width then Some v else None)"
    by (simp add: bitfield_overflow_def Let_def lowest_def highest_def)
qed

lemma bitfield_overflow_range:
  assumes "0 < width" "bitfield_overflow v signed width mode = Some r"
  shows "lowest signed width \<le> r \<and> r \<le> highest signed width"
proof (cases mode)
  case WRAP
  define h :: int where "h = 2 ^ (width - 1)"
  have two: "2 ^ width = 2 * h" using assms(1) by (cases width) (simp_all add: h_def)
  define m where "m = v mod (2 * h)"
  have m: "0 \<le> m" "m < 2 * h" by (simp_all add: m_def h_def)
  have "r = (if signed then (if h \<le> m then m - 2 * h else m) else m)"
    using assms(2) unfolding WRAP bitfield_overflow_spec(1) [OF assms(1)] signed_wrap [OF assms(1)]
      take_bit_eq_mod h_def [symmetric] two m_def [symmetric] by simp
  then show ?thesis using m unfolding lowest_def highest_def h_def [symmetric] two by (auto split: if_splits)
next
  case SAT
  have "lowest signed width \<le> highest signed width"
    using zero_less_power [of "2 :: int" width] zero_less_power [of "2 :: int" "width - 1"]
    by (auto simp: lowest_def highest_def)
  then show ?thesis using assms(2) by (auto simp: SAT bitfield_overflow_spec(2) [OF assms(1)])
next
  case FAIL
  then show ?thesis using assms(2) by (auto simp: bitfield_overflow_spec(3) [OF assms(1)] split: if_splits)
qed

text \<open>A value in the domain of a type survives being written and read.\<close>

lemma interpret_mod:
  assumes "0 < width" "lowest signed width \<le> v" "v \<le> highest signed width"
  shows "interpret_bits (v mod 2 ^ width) signed width = v"
proof (cases signed)
  case True
  have two: "(2 :: int) ^ width = 2 * 2 ^ (width - 1)" using assms(1) by (cases width) simp_all
  show ?thesis
  proof (cases "0 \<le> v")
    case pos: True
    then have "v mod 2 ^ width = v" using assms True two by (intro mod_pos_pos_trivial) (auto simp: highest_def)
    then show ?thesis using assms True by (auto simp: interpret_bits_def highest_def)
  next
    case False
    have "v mod 2 ^ width = (v + 2 ^ width) mod 2 ^ width" by simp
    also have "\<dots> = v + 2 ^ width"
      using False assms True two by (intro mod_pos_pos_trivial) (auto simp: lowest_def)
    finally show ?thesis using assms True two by (auto simp: interpret_bits_def lowest_def)
  qed
next
  case False
  then show ?thesis using assms by (auto simp: interpret_bits_def lowest_def highest_def intro: mod_pos_pos_trivial)
qed

section \<open>What the commands do to the view\<close>

definition bitmap_typed :: "env \<Rightarrow> 'bm server \<Rightarrow> bytes \<Rightarrow> bool" where
  "bitmap_typed ev s key \<longleftrightarrow> (case value_at ev s key of None \<Rightarrow> True | Some v \<Rightarrow> kind_of v = KIND_BITMAP)"

definition bits_at :: "('bm \<Rightarrow> nat set) \<Rightarrow> env \<Rightarrow> 'bm server \<Rightarrow> bytes \<Rightarrow> nat set" where
  "bits_at bits ev s key = (case value_at ev s key of Some (VBitmap b) \<Rightarrow> bits b | _ \<Rightarrow> {})"

lemma bitmap_typed_cases:
  assumes "bitmap_typed ev s key"
  obtains "bitmap_of (value_at ev s key) = Inr None" "bits_at bits ev s key = {}" "view ev s key = None"
    | b where "bitmap_of (value_at ev s key) = Inr (Some b)" "bits_at bits ev s key = bits b"
      "view ev s key = Some (VBitmap b, deadline_of ev s key)"
proof (cases "view ev s key")
  case None
  then show ?thesis using that(1) by (simp add: value_at_def bitmap_of_def bits_at_def)
next
  case (Some x)
  then obtain b t where "x = (VBitmap b, t)"
    using assms by (cases x) (auto simp: bitmap_typed_def value_at_def split: val.splits elim: kind_of.elims)
  then show ?thesis using that(2) Some by (simp add: value_at_def bitmap_of_def bits_at_def deadline_of_def)
qed

lemma view_set_bitmap [view_simps]:
  "view ev (set_bitmap key b s) =
     (case view ev s key of None \<Rightarrow> view ev s | Some (_, t) \<Rightarrow> (view ev s)(key \<mapsto> (VBitmap b, t)))"
  by (simp add: set_bitmap_def view_simps)

lemma view_new_bitmap_at [view_simps]: "view ev (new_bitmap_at key b s) = (view ev s)(key \<mapsto> (VBitmap b, None))"
  by (simp add: new_bitmap_at_def view_simps)

lemma bits_at_view:
  "view ev s key = Some (VBitmap b, t) \<Longrightarrow> bits_at bits ev s key = bits b"
  "view ev s key = None \<Longrightarrow> bits_at bits ev s key = {}"
  by (simp_all add: bits_at_def value_at_def)

lemma SETBIT_effect:
  assumes ok: "bitmaps_ok B bits" and typed: "bitmap_typed ev s key" and pos: "0 \<le> pos" "pos < 2 ^ 32" and v: "v = 0 \<or> v = 1"
  shows "bits_at bits ev (fst (SETBIT B ev key pos v s)) key =
      (if v = 1 then insert (nat pos) (bits_at bits ev s key) else bits_at bits ev s key - {nat pos})"
    and "snd (SETBIT B ev key pos v s) = Inr (RInt (if nat pos \<in> bits_at bits ev s key then 1 else 0))"
    and "deadline_of ev (fst (SETBIT B ev key pos v s)) key = deadline_of ev s key"
    and "k \<noteq> key \<Longrightarrow> view ev (fst (SETBIT B ev key pos v s)) k = view ev s k"
proof -
  have n: "nat pos < BIT_LIMIT" using pos by (simp add: BIT_LIMIT_def nat_less_iff)
  have ok_pos: "\<not> (pos < 0 \<or> pos > 2 ^ 32 - 1)" "\<not> (v \<noteq> 0 \<and> v \<noteq> 1)" using pos v by auto
  note laws = bitmaps_okD(5) [OF ok n] bitmaps_okD(6) [OF ok n] bitmaps_okD(7) [OF ok n]
  let ?r = "SETBIT B ev key pos v s"
  have "\<exists>b. view ev (fst ?r) = (view ev s)(key \<mapsto> (VBitmap b, deadline_of ev s key))
    \<and> bits b = (if v = 1 then insert (nat pos) (bits_at bits ev s key) else bits_at bits ev s key - {nat pos})
    \<and> snd ?r = Inr (RInt (if nat pos \<in> bits_at bits ev s key then 1 else 0))"
  proof (cases rule: bitmap_typed_cases [OF typed, of bits])
    case 1
    have "deadline_of ev s key = None" using 1 by (simp add: deadline_of_def)
    moreover have "?r = (let s = set_bitmap key (if v \<noteq> 0 then bm_add B (nat pos) (bm_new B) else bm_new B)
          (new_bitmap_at key (bm_new B) (fst (srv_get ev key s)))
        in returns (if 0 \<noteq> v then after_write key ''setbit'' s else s) (RInt 0))"
      using ok_pos by (simp add: SETBIT_def get_bitmap_eq 1)
    ultimately show ?thesis
      using v by (auto simp: Let_def view_simps laws 1 bitmaps_okD(2) [OF ok])
  next
    case (2 b)
    have "?r = (let previous = (if bm_has B (nat pos) b then 1 else 0);
          s = set_bitmap key (if v \<noteq> 0 then bm_add B (nat pos) b
            else if previous \<noteq> 0 then bm_discard B (nat pos) b else b) (fst (srv_get ev key s))
        in returns (if previous \<noteq> v then after_write key ''setbit'' s else s) (RInt previous))"
      using ok_pos by (simp add: SETBIT_def get_bitmap_eq 2)
    then show ?thesis
      using v by (auto simp: Let_def view_simps laws 2)
  qed
  then obtain b where b: "view ev (fst ?r) = (view ev s)(key \<mapsto> (VBitmap b, deadline_of ev s key))"
    "bits b = (if v = 1 then insert (nat pos) (bits_at bits ev s key) else bits_at bits ev s key - {nat pos})"
    "snd ?r = Inr (RInt (if nat pos \<in> bits_at bits ev s key then 1 else 0))" by blast
  show "bits_at bits ev (fst ?r) key =
      (if v = 1 then insert (nat pos) (bits_at bits ev s key) else bits_at bits ev s key - {nat pos})"
    using bits_at_view(1) [of ev "fst ?r" key b "deadline_of ev s key" bits] by (simp add: b)
  show "snd ?r = Inr (RInt (if nat pos \<in> bits_at bits ev s key then 1 else 0))" by (rule b)
  show "deadline_of ev (fst ?r) key = deadline_of ev s key" by (simp add: deadline_of_def b(1))
  show "k \<noteq> key \<Longrightarrow> view ev (fst ?r) k = view ev s k" by (simp add: b(1))
qed

lemma get_bitmap_typed:
  assumes "bitmap_typed ev s key"
  shows "bindR (get_bitmap ev key s) f = f (fst (srv_get ev key s))
     (case value_at ev s key of Some (VBitmap b) \<Rightarrow> Some b | _ \<Rightarrow> None)"
  by (rule bitmap_typed_cases [OF assms]) (auto simp: get_bitmap_eq value_at_def bitmap_of_def)

lemma GETBIT_reply:
  assumes ok: "bitmaps_ok B bits" and typed: "bitmap_typed ev s key" and pos: "0 \<le> pos" "pos < 2 ^ 32"
  shows "snd (GETBIT B ev key pos s) = Inr (RInt (if nat pos \<in> bits_at bits ev s key then 1 else 0))"
proof -
  have n: "nat pos < BIT_LIMIT" using pos by (simp add: BIT_LIMIT_def nat_less_iff)
  then have "\<not> bm_limit B \<le> nat pos" by (simp add: bitmaps_okD(1) [OF ok])
  then show ?thesis
    using pos bitmaps_okD(5) [OF ok n]
    by (cases rule: bitmap_typed_cases [OF typed, of bits]) (simp_all add: GETBIT_def get_bitmap_eq)
qed

lemma BITCOUNT_reply:
  assumes ok: "bitmaps_ok B bits" and typed: "bitmap_typed ev s key"
  shows "snd (BITCOUNT B ev key s) = Inr (RInt (int (card (bits_at bits ev s key))))"
  by (cases rule: bitmap_typed_cases [OF typed, of bits])
    (simp_all add: BITCOUNT_def get_bitmap_eq bitmaps_okD(8) [OF ok])

text \<open>The byte-rounded universe of a bitmap covers it and stays in the bound.\<close>

lemma universe_bounds:
  assumes ok: "bitmaps_ok B bits" and "bits b \<noteq> {}"
  shows "universe B b = (Max (bits b) div 8 + 1) * 8" "universe B b \<le> BIT_LIMIT" "n \<in> bits b \<Longrightarrow> n < universe B b"
proof -
  show u: "universe B b = (Max (bits b) div 8 + 1) * 8"
    by (simp add: universe_def byte_length_def bitmaps_okD(10) [OF ok assms(2)])
  have "Max (bits b) \<in> bits b" using bitmaps_okD(3) [OF ok] assms(2) by (rule Max_in)
  then have "Max (bits b) < 2 ^ 29 * 8" using bitmaps_okD(4) [OF ok] by (simp add: BIT_LIMIT_def)
  then have "Max (bits b) div 8 + 1 \<le> 2 ^ 29" by linarith
  then have "(Max (bits b) div 8 + 1) * 8 \<le> 2 ^ 29 * 8" by (rule mult_le_mono1)
  then show "universe B b \<le> BIT_LIMIT" by (simp add: u BIT_LIMIT_def)
  assume "n \<in> bits b"
  then have "n \<le> Max (bits b)" using bitmaps_okD(3) [OF ok] by (simp add: Max_ge)
  then show "n < universe B b" unfolding u by presburger
qed

definition first_zero :: "nat set \<Rightarrow> int" where
  "first_zero S =
     (let zeros = {0..<(Max S div 8 + 1) * 8} - S in if zeros = {} then - 1 else int (Min zeros))"

lemma BITPOS_reply:
  assumes ok: "bitmaps_ok B bits" and typed: "bitmap_typed ev s key"
  defines "S \<equiv> bits_at bits ev s key"
  shows "snd (BITPOS B ev key ''1'' s) = Inr (RInt (if S = {} then - 1 else int (Min S)))"
    and "snd (BITPOS B ev key ''0'' s) =
      Inr (RInt (if view ev s key = None then - 1 else if S = {} then 0 else first_zero S))"
proof -
  have "snd (BITPOS B ev key ''1'' s) = Inr (RInt (if S = {} then - 1 else int (Min S)))
    \<and> snd (BITPOS B ev key ''0'' s) =
      Inr (RInt (if view ev s key = None then - 1 else if S = {} then 0 else first_zero S))"
  proof (cases rule: bitmap_typed_cases [OF typed, of bits])
    case 1
    then show ?thesis by (simp add: BITPOS_def get_bitmap_eq S_def)
  next
    case (2 b)
    note laws = bitmaps_okD(3) [OF ok, of b] bitmaps_okD(8) [OF ok]
    show ?thesis
    proof (cases "bits b = {}")
      case True
      then show ?thesis by (simp add: BITPOS_def get_bitmap_eq 2 laws S_def)
    next
      case False
      let ?c = "bm_flip B 0 (universe B b) b"
      have c: "bits ?c = {0..<(Max (bits b) div 8 + 1) * 8} - bits b"
        using bitmaps_okD(14) [OF ok _ universe_bounds(2) [OF ok False], of 0 b] universe_bounds(3) [OF ok False]
        unfolding universe_bounds(1) [OF ok False] by auto
      have "snd (BITPOS B ev key ''0'' s) = Inr (RInt (if bm_len B ?c \<noteq> 0 then int (bm_min B ?c) else - 1))"
        using False laws by (simp add: BITPOS_def get_bitmap_eq 2 Let_def)
      moreover have "bm_len B ?c \<noteq> 0 \<longleftrightarrow> bits ?c \<noteq> {}"
        by (simp add: bitmaps_okD(8) [OF ok] bitmaps_okD(3) [OF ok])
      moreover have "bits ?c \<noteq> {} \<Longrightarrow> bm_min B ?c = Min (bits ?c)" by (rule bitmaps_okD(9) [OF ok])
      ultimately have "snd (BITPOS B ev key ''0'' s) = Inr (RInt (first_zero (bits b)))"
        by (simp add: first_zero_def Let_def c)
      moreover have "snd (BITPOS B ev key ''1'' s) = Inr (RInt (int (Min (bits b))))"
        using False laws bitmaps_okD(9) [OF ok False] by (simp add: BITPOS_def get_bitmap_eq 2)
      ultimately show ?thesis using False by (simp add: S_def 2)
    qed
  qed
  then show "snd (BITPOS B ev key ''1'' s) = Inr (RInt (if S = {} then - 1 else int (Min S)))"
    "snd (BITPOS B ev key ''0'' s) =
      Inr (RInt (if view ev s key = None then - 1 else if S = {} then 0 else first_zero S))" by auto
qed

end
