(* ===== verification/BitSpec.thy ===== *)
theory BitSpec
  imports BitCmds
begin

text \<open>
  What the bit commands promise, stated on the sets of bits the keys hold (\<open>bits_at\<close>), and the proofs that
  \<open>commands/bit.py\<close> keeps it for every implementation of bitmaps that meets \<open>bitmaps_ok\<close>.
\<close>

unbundle bit_operations_syntax

section \<open>BITOP on sets\<close>

definition bitop_spec :: "bytes \<Rightarrow> nat set list \<Rightarrow> nat set" where
  "bitop_spec opname Ss =
     (if opname = ''AND'' then \<Inter>(set Ss)
      else if opname = ''OR'' then \<Union>(set Ss)
      else if opname = ''XOR'' then {n. odd (length (filter (\<lambda>S. n \<in> S) Ss))}
      else if hd Ss = {} then {} else {0..<(Max (hd Ss) div 8 + 1) * 8} - hd Ss)"


definition last_bit :: "nat set list \<Rightarrow> nat" where
  "last_bit Ss = Max (insert 0 (\<Union>(set Ss)))"

lemma bits_foldl:
  assumes ok: "bitmaps_ok B bits"
  shows "bits (foldl (bm_and B) m ms) = bits m \<inter> \<Inter>(set (map bits ms))"
    and "bits (foldl (bm_or B) m ms) = bits m \<union> \<Union>(set (map bits ms))"
    and "(n :: nat) \<in> bits (foldl (bm_xor B) m ms) \<longleftrightarrow> odd (length (filter (\<lambda>S. n \<in> S) (map bits (m # ms))))"
proof -
  show "bits (foldl (bm_and B) m ms) = bits m \<inter> \<Inter>(set (map bits ms))"
    by (induction ms arbitrary: m) (auto simp: bitmaps_okD(11) [OF ok])
  show "bits (foldl (bm_or B) m ms) = bits m \<union> \<Union>(set (map bits ms))"
    by (induction ms arbitrary: m) (auto simp: bitmaps_okD(12) [OF ok])
  show "n \<in> bits (foldl (bm_xor B) m ms) \<longleftrightarrow> odd (length (filter (\<lambda>S. n \<in> S) (map bits (m # ms))))"
    by (induction ms arbitrary: m) (auto simp: bitmaps_okD(13) [OF ok])
qed

lemma bits_flip_universe:
  assumes ok: "bitmaps_ok B bits" and "bits b \<noteq> {}"
  shows "bits (bm_flip B 0 (universe B b) b) = {0..<(Max (bits b) div 8 + 1) * 8} - bits b"
  using bitmaps_okD(14) [OF ok _ universe_bounds(2) [OF assms], of 0 b] universe_bounds(3) [OF assms]
  unfolding universe_bounds(1) [OF assms] by auto

lemma bitop_result_spec:
  assumes ok: "bitmaps_ok B bits" and "maps \<noteq> []"
    and "opname \<in> {''AND'', ''OR'', ''XOR'', ''NOT''}" "opname = ''NOT'' \<longrightarrow> length maps = 1"
  obtains b where "bitop_result B opname maps = Inr b" "bits b = bitop_spec opname (map bits maps)"
proof -
  obtain m ms where maps: "maps = m # ms" using assms(2) by (cases maps) auto
  have one: "bits (bm_or B m (bm_new B)) = bits m" by (simp add: bitmaps_okD(2,12) [OF ok])
  note fold = bits_foldl [OF ok, where m = m and ms = ms]
  consider "opname = ''NOT''" "ms = []" | "opname = ''AND''" | "opname = ''OR''" | "opname = ''XOR''"
    using assms(3,4) maps by auto
  then show thesis
  proof cases
    case 1
    have "bm_len B m \<noteq> 0 \<longleftrightarrow> bits m \<noteq> {}" by (simp add: bitmaps_okD(3,8) [OF ok])
    then show thesis
      using that 1 bits_flip_universe [OF ok, of m] bitmaps_okD(2) [OF ok]
      by (cases "bits m = {}") (simp_all add: maps bitop_result_def bitop_spec_def)
  next
    case 2
    then show thesis using that one fold(1) by (cases "ms = []") (simp_all add: maps bitop_result_def bitop_spec_def)
  next
    case 3
    then show thesis using that one fold(2) by (cases "ms = []") (simp_all add: maps bitop_result_def bitop_spec_def)
  next
    case 4
    have x: "bits (foldl (bm_xor B) m ms) = bitop_spec ''XOR'' (map bits (m # ms))"
      unfolding bitop_spec_def by (rule set_eqI) (simp only: fold(3), simp)
    show thesis
    proof (cases "ms = []")
      case True
      have "bitop_spec ''XOR'' [bits m] = bits m" by (auto simp: bitop_spec_def)
      then show thesis using that 4 one True by (simp add: maps bitop_result_def)
    next
      case False
      then show thesis using that 4 x by (simp add: maps bitop_result_def)
    qed
  qed
qed

lemma bitop_loop_typed:
  assumes ok: "bitmaps_ok B bits" and "list_all (bitmap_typed ev s) keys"
  obtains s' ms where
    "bitop_loop B ev keys maps longest s =
      returns s' (maps @ ms, max longest (last_bit (map (bits_at bits ev s) keys)))"
    "view ev s' = view ev s" "map bits ms = map (bits_at bits ev s) keys"
  using assms(2)
proof (induction keys arbitrary: s maps longest thesis)
  case Nil
  show ?case by (rule Nil(1) [of s "[]"]) (simp_all add: last_bit_def)
next
  case (Cons key keys)
  let ?s = "fst (srv_get ev key s)"
  have v: "view ev ?s = view ev s" by (simp add: view_simps)
  then have at: "value_at ev ?s = value_at ev s" by (simp add: value_at_def fun_eq_iff)
  then have same: "bits_at bits ev ?s = bits_at bits ev s" "bitmap_typed ev ?s = bitmap_typed ev s"
    by (simp_all add: bits_at_def bitmap_typed_def fun_eq_iff)
  have typed: "bitmap_typed ev s key" "list_all (bitmap_typed ev ?s) keys" using Cons.prems(2) same by simp_all
  have fin: "finite (\<Union>(set (map (bits_at bits ev s) ks)))" for ks
    by (auto simp: bits_at_def bitmaps_okD(3) [OF ok] split: option.splits val.splits)
  show ?case
  proof (cases rule: bitmap_typed_cases [OF typed(1), of bits])
    case 1
    obtain s' ms where
      ih: "bitop_loop B ev keys (maps @ [bm_new B]) longest ?s =
        returns s' ((maps @ [bm_new B]) @ ms, max longest (last_bit (map (bits_at bits ev ?s) keys)))"
      "view ev s' = view ev ?s" "map bits ms = map (bits_at bits ev ?s) keys"
      by (rule Cons.IH [OF _ typed(2)])
    show ?thesis
      by (rule Cons.prems(1) [of s' "bm_new B # ms"])
        (simp_all add: get_bitmap_eq 1 ih v same bitmaps_okD(2) [OF ok] last_bit_def)
  next
    case (2 b)
    define l where "l = (if bm_len B b \<noteq> 0 then max longest (bm_max B b) else longest)"
    obtain s' ms where
      ih: "bitop_loop B ev keys (maps @ [b]) l ?s =
        returns s' ((maps @ [b]) @ ms, max l (last_bit (map (bits_at bits ev ?s) keys)))"
      "view ev s' = view ev ?s" "map bits ms = map (bits_at bits ev ?s) keys"
      by (rule Cons.IH [OF _ typed(2)])
    have "bm_len B b \<noteq> 0 \<longleftrightarrow> bits b \<noteq> {}" by (simp add: bitmaps_okD(3,8) [OF ok])
    then have l: "l = max longest (Max (insert 0 (bits b)))"
      using bitmaps_okD(10) [OF ok, of b] bitmaps_okD(3) [OF ok, of b] by (simp add: l_def)
    have "Max (insert 0 (bits b \<union> \<Union>(set (map (bits_at bits ev s) keys)))) =
        max (Max (insert 0 (bits b))) (last_bit (map (bits_at bits ev s) keys))"
      unfolding last_bit_def using fin [of keys] bitmaps_okD(3) [OF ok, of b]
      by (subst Max_Un [symmetric]) (auto intro: arg_cong [where f = Max])
    then have "max l (last_bit (map (bits_at bits ev s) keys)) =
        max longest (last_bit (map (bits_at bits ev s) (key # keys)))"
      by (simp add: last_bit_def l 2(2) max.assoc)
    then show ?thesis
      using ih(2,3) ih(1) [unfolded l_def]
      by (intro Cons.prems(1) [of s' "b # ms"]) (simp_all add: get_bitmap_eq 2(1,2) v same l_def)
  qed
qed

section \<open>BITFIELD on sets\<close>

lemma field_value_cong:
  "(\<And>n. offset \<le> n \<Longrightarrow> n < offset + width \<Longrightarrow> n \<in> S \<longleftrightarrow> n \<in> T) \<Longrightarrow>
    field_value S offset width = field_value T offset width"
proof (induction width arbitrary: offset)
  case (Suc width)
  have "field_value S (offset + 1) width = field_value T (offset + 1) width" by (rule Suc.IH) (use Suc.prems in auto)
  then show ?case using Suc.prems [of offset] by simp
qed simp

definition wrap_value :: "bool \<Rightarrow> nat \<Rightarrow> int \<Rightarrow> int" where
  "wrap_value signed width v = (if signed then signed_take_bit (width - 1) v else take_bit width v)"

definition fit_value :: "bool \<Rightarrow> nat \<Rightarrow> overflow \<Rightarrow> int \<Rightarrow> int option" where
  "fit_value signed width mode v =
     (case mode of
        WRAP \<Rightarrow> Some (wrap_value signed width v)
      | SAT \<Rightarrow> Some (max (lowest signed width) (min (highest signed width) v))
      | FAIL \<Rightarrow> if lowest signed width \<le> v \<and> v \<le> highest signed width then Some v else None)"

text \<open>The number a field of a type reads as.\<close>

definition field_at :: "nat set \<Rightarrow> bool \<Rightarrow> nat \<Rightarrow> nat \<Rightarrow> int" where
  "field_at S signed width offset = wrap_value signed width (field_value S offset width)"

definition assign_field :: "nat set \<Rightarrow> nat \<Rightarrow> nat \<Rightarrow> int option \<Rightarrow> reply \<Rightarrow> nat set \<times> bool \<times> reply" where
  "assign_field S width offset v answer =
     (case v of None \<Rightarrow> (S, False, RResponse NIL) | Some v \<Rightarrow> (put_field S offset width v, True, answer))"

fun field_spec :: "bitfield_op \<Rightarrow> nat set \<Rightarrow> nat set \<times> bool \<times> reply" where
  "field_spec (BfGet signed width offset) S = (S, False, RInt (field_at S signed width offset))"
| "field_spec (BfSet signed width offset amount mode) S =
     assign_field S width offset (fit_value signed width mode amount) (RInt (field_at S signed width offset))"
| "field_spec (BfIncrby signed width offset amount mode) S =
     (let v = fit_value signed width mode (field_at S signed width offset + amount)
      in assign_field S width offset v (RInt (the v)))"

fun fields_spec :: "bitfield_op list \<Rightarrow> nat set \<Rightarrow> nat set \<times> bool \<times> reply list" where
  "fields_spec [] S = (S, False, [])"
| "fields_spec (p # ps) S =
     (case field_spec p S of
        (S, w, answer) \<Rightarrow> case fields_spec ps S of (S, w', answers) \<Rightarrow> (S, w \<or> w', answer # answers))"

fun field_width :: "bitfield_op \<Rightarrow> nat" where
  "field_width (BfGet _ width _) = width"
| "field_width (BfSet _ width _ _ _) = width"
| "field_width (BfIncrby _ width _ _ _) = width"

fun field_end :: "bitfield_op \<Rightarrow> nat" where
  "field_end (BfGet _ width offset) = offset + width"
| "field_end (BfSet _ width offset _ _) = offset + width"
| "field_end (BfIncrby _ width offset _ _) = offset + width"

fun field_reads :: "bitfield_op \<Rightarrow> bool" where
  "field_reads (BfGet _ _ _) = True"
| "field_reads _ = False"

definition field_fits :: "bitfield_op \<Rightarrow> bool" where
  "field_fits p \<longleftrightarrow> 0 < field_width p \<and> field_end p \<le> BIT_LIMIT"

text \<open>The parser lets through only widths from 1 to 64, and only reads for the read-only command.\<close>

lemma parse_bitfield_op_sound:
  assumes "parse_bitfield_op ro opt rest mode = Inr p"
  shows "0 < field_width p \<and> field_width p \<le> 64 \<and> (ro \<longrightarrow> field_reads p)"
  using assms
  by (auto simp: parse_bitfield_op_def bitfield_type_def Let_def split: option.splits prod.splits sum.splits if_splits)

lemma parse_bitfield_sound:
  "parse_bitfield ro args mode = Inr ps \<Longrightarrow>
    list_all (\<lambda>p. 0 < field_width p \<and> field_width p \<le> 64 \<and> (ro \<longrightarrow> field_reads p)) ps"
proof (induction ro args mode arbitrary: ps rule: parse_bitfield.induct)
  case (2 ro raw rest mode)
  define opt where "opt = upper raw"
  define need where "need = (if opt = ''GET'' then 2 else 3 :: nat)"
  show ?case
  proof (cases "opt = ''OVERFLOW''")
    case True
    then obtain m where "rest \<noteq> []" "parse_overflow (hd rest) = Some m" "parse_bitfield ro (drop 1 rest) m = Inr ps"
      using 2(3) by (auto simp: opt_def Let_def split: if_splits option.splits)
    then show ?thesis using 2(1) [of opt need] True by (simp add: opt_def need_def)
  next
    case False
    then obtain p qs where "parse_bitfield_op ro opt rest mode = Inr p" "parse_bitfield ro (drop need rest) mode = Inr qs"
      "ps = p # qs" and good: "\<not> (opt \<noteq> ''GET'' \<and> opt \<noteq> ''SET'' \<and> opt \<noteq> ''INCRBY'')" "\<not> length rest < need"
      using 2(3) unfolding parse_bitfield.simps Let_def opt_def [symmetric] need_def [symmetric]
      by (auto split: if_splits sum.splits simp: map_sum_eq_Inr)
    then show ?thesis
      using 2(2) [of opt need p qs] False parse_bitfield_op_sound [of ro opt rest mode p] by (simp add: opt_def need_def)
  qed
qed simp

lemma bitfield_overflow_fit: "0 < width \<Longrightarrow> bitfield_overflow v signed width mode = fit_value signed width mode v"
  by (cases mode) (simp_all add: fit_value_def wrap_value_def bitfield_overflow_spec)

lemma interpret_field:
  assumes "0 < width"
  shows "interpret_bits (field_value S offset width) signed width = field_at S signed width offset"
proof -
  have "field_value S offset width mod 2 ^ width = field_value S offset width"
    using field_value_bounds [of S offset width] by simp
  then show ?thesis
    using signed_wrap [OF assms, of "field_value S offset width"]
    by (simp add: interpret_bits_def field_at_def wrap_value_def take_bit_eq_mod)
qed

lemma write_field_spec:
  assumes "bitmaps_ok B bits" "offset + width \<le> BIT_LIMIT" "write_field B offset width v answer b = (b', w, a)"
  shows "assign_field (bits b) width offset v answer = (bits b', w, a)"
  using assms(3) by (auto simp: write_field_def assign_field_def store_bits_set [OF assms(1,2)] split: option.splits)

lemma bitfield_step_spec:
  assumes ok: "bitmaps_ok B bits" and "field_fits p"
  obtains b' w a where "bitfield_step B p b = Some (b', w, a)" "field_spec p (bits b) = (bits b', w, a)"
proof -
  note laws = bitmaps_okD(1) [OF ok] interpret_field bitfield_overflow_fit extract_bits_value [OF ok]
  show thesis
  proof (cases p)
    case (BfGet signed width offset)
    then show thesis using assms(2) unfolding field_fits_def by (intro that [of b False "RInt (field_at (bits b) signed width offset)"]) (simp_all add: laws)
  next
    case (BfSet signed width offset amount mode)
    let ?f = "\<lambda>b. write_field B offset width (fit_value signed width mode amount) (RInt (field_at (bits b) signed width offset)) b"
    obtain b' w a where f: "?f b = (b', w, a)" by (cases "?f b") auto
    show thesis
      using assms(2) f write_field_spec [OF ok _ f] BfSet unfolding field_fits_def by (intro that [of b' w a]) (simp_all add: laws Let_def)
  next
    case (BfIncrby signed width offset amount mode)
    define v where "v = fit_value signed width mode (field_at (bits b) signed width offset + amount)"
    have "write_field B offset width v (RInt (case v of None \<Rightarrow> 0 | Some v \<Rightarrow> v)) b = write_field B offset width v (RInt (the v)) b"
      by (cases v) (simp_all add: write_field_def)
    moreover obtain b' w a where f: "write_field B offset width v (RInt (the v)) b = (b', w, a)"
      by (cases "write_field B offset width v (RInt (the v)) b") auto
    ultimately show thesis
      using assms(2) write_field_spec [OF ok _ f] BfIncrby unfolding field_fits_def
      by (intro that [of b' w a]) (simp_all add: laws Let_def v_def)
  qed
qed

lemma bitfield_loop_spec:
  assumes ok: "bitmaps_ok B bits" and "list_all field_fits ps" "fields_spec ps (bits b) = (S, w, answers)"
  shows "\<exists>b'. bitfield_loop B ps b wrote out = (b', wrote \<or> w, Some (out @ answers)) \<and> bits b' = S"
  using assms(2,3)
proof (induction ps arbitrary: b wrote out w answers)
  case (Cons p ps)
  obtain b1 w1 a where one: "bitfield_step B p b = Some (b1, w1, a)" "field_spec p (bits b) = (bits b1, w1, a)"
    using bitfield_step_spec [OF ok, of p b] Cons.prems(1) by auto
  obtain w2 as where two: "fields_spec ps (bits b1) = (S, w2, as)" "w = (w1 \<or> w2)" "answers = a # as"
    using Cons.prems(2) one(2) by (auto split: prod.splits)
  show ?case using Cons.IH [OF _ two(1), of "wrote \<or> w1" "out @ [a]"] Cons.prems(1) by (simp add: one two)
qed simp

lemma fields_spec_unwritten: "fields_spec ps S = (S', False, answers) \<Longrightarrow> S' = S"
proof (induction ps arbitrary: S S' answers)
  case (Cons p ps)
  have "field_spec p S = (S1, False, a) \<Longrightarrow> S1 = S" for S1 a
    by (cases p) (auto simp: assign_field_def Let_def split: option.splits)
  then show ?case using Cons.prems Cons.IH by (auto split: prod.splits)
qed simp

section \<open>The commands against their specification\<close>

text \<open>Bitmaps as lists of their numbers, for the concrete runs below; numbers beyond the bound are ignored.\<close>

definition demo_bits :: "nat list \<Rightarrow> nat set" where
  "demo_bits b = {n \<in> set b. n < BIT_LIMIT}"

definition demo_bitmaps :: "nat list bitmaps" where
  "demo_bitmaps = \<lparr>bm_limit = BIT_LIMIT, bm_new = [], bm_has = (\<lambda>n b. n \<in> set b), bm_add = Cons, bm_discard = removeAll,
     bm_len = (\<lambda>b. card (demo_bits b)), bm_min = (\<lambda>b. Min (demo_bits b)), bm_max = (\<lambda>b. Max (demo_bits b)),
     bm_and = (\<lambda>a b. filter (\<lambda>n. n \<in> set b) a), bm_or = (@),
     bm_xor = (\<lambda>a b. filter (\<lambda>n. n \<notin> set b) a @ filter (\<lambda>n. n \<notin> set a) b),
     bm_flip = (\<lambda>i j b. filter (\<lambda>n. n \<notin> {i..<j}) b @ filter (\<lambda>n. n \<notin> set b) [i..<j])\<rparr>"

lemma demo_bitmaps_ok: "bitmaps_ok demo_bitmaps demo_bits"
  by (auto simp: bitmaps_ok_def demo_bitmaps_def demo_bits_def less_le_trans)

definition bits_state :: "(bytes \<times> nat list) list \<Rightarrow> nat list server" where
  "bits_state kvs = with_keys (map (\<lambda>(k, b). (k, VBitmap b)) kvs)"

lemma bits_state_facts:
  assumes "map_of (rev kvs) key = x"
  shows "value_at demo_env (bits_state kvs) key = map_option VBitmap x"
    and "bitmap_typed demo_env (bits_state kvs) key"
    and "bits_at demo_bits demo_env (bits_state kvs) key = (case x of None \<Rightarrow> {} | Some b \<Rightarrow> demo_bits b)"
proof -
  have "map_of (map (\<lambda>(k, b). (k, VBitmap b :: nat list val)) ps) key = map_option VBitmap (map_of ps key)" for ps
    by (induction ps) auto
  from this [of "List.rev kvs"] show v: "value_at demo_env (bits_state kvs) key = map_option VBitmap x"
    by (simp add: bits_state_def value_at_with_keys rev_map assms)
  show "bitmap_typed demo_env (bits_state kvs) key" by (cases x) (simp_all add: bitmap_typed_def v)
  show "bits_at demo_bits demo_env (bits_state kvs) key = (case x of None \<Rightarrow> {} | Some b \<Rightarrow> demo_bits b)"
    by (cases x) (simp_all add: bits_at_def v)
qed

text \<open>
  C25: SETBIT adds or removes exactly the one bit and answers what it was, keeping the deadline and every other
  key; GETBIT reads it; BITCOUNT counts the bits; BITPOS finds the first one, and the first zero inside the
  whole bytes of the bitmap (-1 when these are all ones, or the key is missing).
\<close>

theorem bit_commands_correct:
  assumes "bitmaps_ok B bits" "bitmap_typed ev s key" "0 \<le> pos" "pos < 2 ^ 32" "v = 0 \<or> v = 1"
  defines "S \<equiv> bits_at bits ev s key" and "r \<equiv> SETBIT B ev key pos v s"
  shows "bits_at bits ev (fst r) key = (if v = 1 then insert (nat pos) S else S - {nat pos})
    \<and> snd r = Inr (RInt (if nat pos \<in> S then 1 else 0))
    \<and> deadline_of ev (fst r) key = deadline_of ev s key
    \<and> (\<forall>k. k \<noteq> key \<longrightarrow> view ev (fst r) k = view ev s k)
    \<and> snd (GETBIT B ev key pos s) = Inr (RInt (if nat pos \<in> S then 1 else 0))
    \<and> snd (BITCOUNT B ev key s) = Inr (RInt (int (card S)))
    \<and> snd (BITPOS B ev key ''1'' s) = Inr (RInt (if S = {} then - 1 else int (Min S)))
    \<and> snd (BITPOS B ev key ''0'' s) =
        Inr (RInt (if view ev s key = None then - 1 else if S = {} then 0 else first_zero S))"
  unfolding S_def r_def
  using SETBIT_effect [OF assms(1-5)] GETBIT_reply [OF assms(1-4)] BITCOUNT_reply [OF assms(1,2)]
    BITPOS_reply [OF assms(1,2)]
  by (intro conjI allI impI)

theorem bit_commands_correct_witness:
  "snd (SETBIT demo_bitmaps demo_env ''b'' 3 0 (bits_state [(''b'', [3, 9])])) = Inr (RInt 1)
   \<and> snd (BITPOS demo_bitmaps demo_env ''b'' ''0'' (bits_state [(''b'', [3, 9])])) = Inr (RInt 0)"
proof -
  let ?s = "bits_state [(''b'', [3, 9])]"
  have t: "bitmap_typed demo_env ?s ''b''" "bits_at demo_bits demo_env ?s ''b'' = demo_bits [3, 9]"
    "view demo_env ?s ''b'' \<noteq> None"
    using bits_state_facts [of "[(''b'', [3, 9])]" "''b''" "Some [3, 9]"] by (auto simp: value_at_def)
  have b: "demo_bits [3, 9] = {3, 9}" by (auto simp: demo_bits_def BIT_LIMIT_def)
  have "first_zero {3, 9} = 0"
  proof -
    have "Min ({0..<16} - {3, 9 :: nat}) = 0" by (rule Min_eqI) auto
    moreover have "0 \<in> {0..<16} - {3, 9 :: nat}" by simp
    then have "{0..<16} - {3, 9 :: nat} \<noteq> {}" by blast
    ultimately show ?thesis by (simp add: first_zero_def Let_def)
  qed
  then show ?thesis
    using bit_commands_correct [OF demo_bitmaps_ok t(1), of 3 0] by (simp add: t b)
qed

text \<open>
  C26: BITOP stores at the target the intersection, union, symmetric difference or byte-wise complement of the
  source bitmaps (a missing source counts as empty), without a deadline, removes the target exactly when the
  result is empty, touches no other key, and answers the length in bytes of the longest source, which the code
  takes as 0 when the last bit of all sources is bit 0.
\<close>

theorem BITOP_correct:
  fixes target :: bytes
  assumes "bitmaps_ok B bits" "list_all (bitmap_typed ev s) keys" "keys \<noteq> []"
    and "upper opname \<in> {''AND'', ''OR'', ''XOR'', ''NOT''}" "upper opname = ''NOT'' \<longrightarrow> length keys = 1"
  defines "Ss \<equiv> map (bits_at bits ev s) keys" and "r \<equiv> BITOP B ev opname target keys s"
  shows "bits_at bits ev (fst r) target = bitop_spec (upper opname) Ss
    \<and> (view ev (fst r) target = None \<longleftrightarrow> bitop_spec (upper opname) Ss = {})
    \<and> deadline_of ev (fst r) target = None
    \<and> (\<forall>k. k \<noteq> target \<longrightarrow> view ev (fst r) k = view ev s k)
    \<and> snd r = Inr (RInt (if last_bit Ss = 0 then 0 else int (last_bit Ss div 8 + 1)))"
proof -
  note ok = assms(1)
  obtain s' ms where loop: "bitop_loop B ev keys [] 0 s = returns s' ms"
    "view ev s' = view ev s" "fst ms \<noteq> []" "length (fst ms) = length keys" "map bits (fst ms) = Ss" "snd ms = last_bit Ss"
  proof (rule bitop_loop_typed [OF ok assms(2), of "[]" 0])
    fix s' ms
    assume "bitop_loop B ev keys [] 0 s = returns s' ([] @ ms, max 0 (last_bit (map (bits_at bits ev s) keys)))"
      "view ev s' = view ev s" "map bits ms = map (bits_at bits ev s) keys"
    then show thesis
      using assms(3) map_eq_imp_length_eq [of bits ms] by (intro that [of s' "(ms, last_bit Ss)"]) (auto simp: Ss_def)
  qed
  have not1: "upper opname = ''NOT'' \<longrightarrow> length (fst ms) = 1" using assms(5) loop(4) by simp
  obtain b where b: "bitop_result B (upper opname) (fst ms) = Inr b" "bits b = bitop_spec (upper opname) Ss"
    using bitop_result_spec [OF ok loop(3) assms(4) not1] loop(5) by metis
  have "bm_len B b \<noteq> 0 \<longleftrightarrow> bits b \<noteq> {}" by (simp add: bitmaps_okD(3,8) [OF ok])
  then have r: "r = returns (if bits b \<noteq> {} then after_write target ''set'' (new_bitmap_at target b s')
      else fst (srv_remove ev target s')) (RInt (if last_bit Ss \<noteq> 0 then int (byte_length (last_bit Ss)) else 0))"
    using assms(3) by (simp add: r_def BITOP_def loop(1,6) b(1) case_prod_unfold Let_def)
  show ?thesis
  proof (cases "bits b = {}")
    case True
    then show ?thesis unfolding r b(2) [symmetric]
      by (simp add: loop(2) view_simps bits_at_view byte_length_def deadline_of_def)
  next
    case False
    then show ?thesis unfolding r b(2) [symmetric]
      by (simp add: loop(2) view_simps bits_at_def value_at_def byte_length_def deadline_of_def)
  qed
qed

theorem BITOP_correct_witness:
  "bits_at demo_bits demo_env (fst (BITOP demo_bitmaps demo_env ''xor'' ''t'' [''b'', ''c'']
      (bits_state [(''b'', [3, 9]), (''c'', [9, 20])]))) ''t'' = {3, 20}"
proof -
  let ?kvs = "[(''b'', [3, 9]), (''c'', [9, 20])] :: (bytes \<times> nat list) list"
  have bits: "demo_bits [3, 9] = {3, 9}" "demo_bits [9, 20] = {9, 20}" by (auto simp: demo_bits_def BIT_LIMIT_def)
  have b: "bitmap_typed demo_env (bits_state ?kvs) ''b''" "bits_at demo_bits demo_env (bits_state ?kvs) ''b'' = {3, 9}"
    using bits_state_facts(2,3) [of ?kvs "''b''" "Some [3, 9]"] by (simp_all add: bits)
  have c: "bitmap_typed demo_env (bits_state ?kvs) ''c''" "bits_at demo_bits demo_env (bits_state ?kvs) ''c'' = {9, 20}"
    using bits_state_facts(2,3) [of ?kvs "''c''" "Some [9, 20]"] by (simp_all add: bits)
  have up: "upper ''xor'' = ''XOR''" by code_simp
  have keys: "list_all (bitmap_typed demo_env (bits_state ?kvs)) [''b'', ''c'']" using b c by simp
  have "bitop_spec ''XOR'' [{3, 9}, {9, 20}] = {3, 20}" by (auto simp: bitop_spec_def)
  then show ?thesis
    using conjunct1 [OF BITOP_correct [OF demo_bitmaps_ok keys, of "''xor''" "''t''"]] by (simp add: up b c)
qed

lemma fields_spec_reads: "list_all field_reads ps \<Longrightarrow> fst (fields_spec ps S) = S \<and> \<not> fst (snd (fields_spec ps S))"
proof (induction ps arbitrary: S)
  case (Cons p ps)
  have "field_reads p \<Longrightarrow> \<exists>a. field_spec p S = (S, False, a)" by (cases p) auto
  then show ?case using Cons by (auto split: prod.splits) (metis fst_conv snd_conv)+
qed simp

text \<open>
  C27: a BITFIELD whose fields lie within the bitmap does, for its parsed subcommands in order, exactly what
  the specification on sets of bits says: each GET reads its field as a number of its type, each SET and INCRBY
  replaces the field by the value wrapped, saturated or refused (nil, nothing written) as the overflow mode in
  force says, each seeing the writes before it; a missing key is created only by a write, the deadline and
  every other key stay, and the read-only form writes nothing.
\<close>

theorem BITFIELD_correct:
  assumes "bitmaps_ok B bits" "bitmap_typed ev s key" "parse_bitfield ro args WRAP = Inr ps"
    and "list_all (\<lambda>p. field_end p \<le> BIT_LIMIT) ps"
    and "fields_spec ps (bits_at bits ev s key) = (S, w, answers)"
  defines "r \<equiv> bitfield B ev key args ro s"
  shows "bits_at bits ev (fst r) key = S \<and> snd r = Inr (RList answers)
    \<and> (view ev (fst r) key = None \<longleftrightarrow> view ev s key = None \<and> \<not> w)
    \<and> deadline_of ev (fst r) key = deadline_of ev s key
    \<and> (\<forall>k. k \<noteq> key \<longrightarrow> view ev (fst r) k = view ev s k)
    \<and> (ro \<longrightarrow> \<not> w \<and> S = bits_at bits ev s key)"
proof -
  note ok = assms(1)
  have ro: "ro \<longrightarrow> \<not> w \<and> S = bits_at bits ev s key"
    using parse_bitfield_sound [OF assms(3)] fields_spec_reads [of ps "bits_at bits ev s key"] assms(5)
    by (auto simp: list_all_iff)
  have fits: "list_all field_fits ps"
    using parse_bitfield_sound [OF assms(3)] assms(4) by (auto simp: list_all_iff field_fits_def)
  note loop = bitfield_loop_spec [OF ok fits, where wrote = False and out = "[]"]
  show ?thesis
  proof (cases rule: bitmap_typed_cases [OF assms(2), of bits])
    case 1
    have "fields_spec ps (bits (bm_new B)) = (S, w, answers)" using assms(5) 1(2) bitmaps_okD(2) [OF ok] by simp
    from loop [OF this] obtain b where b: "bitfield_loop B ps (bm_new B) False [] = (b, w, Some answers)" "bits b = S"
      by auto
    have r: "r = (let s = fst (srv_get ev key s); s = (if w then after_write key ''setbit'' (new_bitmap_at key b s) else s)
        in returns s (RList answers))"
      by (simp add: r_def bitfield_def assms(3) get_bitmap_eq 1(1) b(1) Let_def)
    have "\<not> w \<Longrightarrow> S = {}" using fields_spec_unwritten [of ps "{}" S answers] assms(5) 1(2) by (cases w) auto
    moreover have "view ev (fst r) = (if w then (view ev s)(key \<mapsto> (VBitmap b, None)) else view ev s)"
      by (simp add: r Let_def view_simps)
    moreover have "snd r = Inr (RList answers)" by (simp add: r Let_def)
    ultimately show ?thesis using 1(3) b(2) ro by (cases w) (simp_all add: bits_at_def value_at_def deadline_of_def)
  next
    case (2 c)
    have "fields_spec ps (bits c) = (S, w, answers)" using assms(5) 2(2) by simp
    from loop [OF this] obtain b where b: "bitfield_loop B ps c False [] = (b, w, Some answers)" "bits b = S" by auto
    have r: "r = (let s = set_bitmap key b (fst (srv_get ev key s)); s = (if w then after_write key ''setbit'' s else s)
        in returns s (RList answers))"
      by (simp add: r_def bitfield_def assms(3) get_bitmap_eq 2(1) b(1) Let_def)
    obtain t where t: "view ev s key = Some (VBitmap c, t)" using 2(3) by blast
    have "view ev (fst r) = (view ev s)(key \<mapsto> (VBitmap b, t))" by (simp add: r Let_def view_simps t)
    moreover have "snd r = Inr (RList answers)" by (simp add: r Let_def)
    ultimately show ?thesis using b(2) ro by (simp add: t bits_at_def value_at_def deadline_of_def)
  qed
qed

theorem BITFIELD_correct_witness:
  "snd (bitfield demo_bitmaps demo_env ''b'' [''overflow'', ''sat'', ''incrby'', ''u2'', ''0'', ''9'', ''get'', ''i2'', ''0''] False
      (bits_state [(''b'', [1, 9])])) = Inr (RList [RInt 3, RInt (- 1)])"
proof -
  let ?s = "bits_state [(''b'', [1, 9])]"
  have t: "bitmap_typed demo_env ?s ''b''" "bits_at demo_bits demo_env ?s ''b'' = demo_bits [1, 9]"
    using bits_state_facts(2,3) [of "[(''b'', [1, 9])]" "''b''" "Some [1, 9]"] by simp_all
  have p: "parse_bitfield False [''overflow'', ''sat'', ''incrby'', ''u2'', ''0'', ''9'', ''get'', ''i2'', ''0''] WRAP =
      Inr [BfIncrby False 2 0 9 SAT, BfGet True 2 0]" by code_simp
  have fits: "list_all (\<lambda>p. field_end p \<le> BIT_LIMIT) [BfIncrby False 2 0 9 SAT, BfGet True 2 0]"
    by (simp add: BIT_LIMIT_def)
  have b: "demo_bits [1, 9] = {1, 9}" by (auto simp: demo_bits_def BIT_LIMIT_def)
  have v: "field_value {1, 9} 0 2 = 1" by (simp add: numeral_2_eq_2)
  have "field_value (put_field {1, 9} 0 2 3) 0 2 = 3" by (simp add: field_value_put)
  moreover have "field_at {1, 9} False 2 0 = 1" by (simp only: field_at_def v) code_simp
  moreover have "wrap_value True 2 3 = - 1" "fit_value False 2 SAT (1 + 9) = Some 3" by code_simp+
  ultimately have "fields_spec [BfIncrby False 2 0 9 SAT, BfGet True 2 0] (bits_at demo_bits demo_env ?s ''b'') =
      (put_field {1, 9} 0 2 3, True, [RInt 3, RInt (- 1)])"
    by (simp add: t b assign_field_def Let_def field_at_def del: One_nat_def)
  from BITFIELD_correct [OF demo_bitmaps_ok t(1) p fits this] show ?thesis by blast
qed

text \<open>
  C28: what a SET wrote, a GET of the same field reads: the value the overflow mode made of the argument, which
  lies in the range of the type and is the argument itself when that did; a GET of any field that does not
  overlap it reads what it read before.
\<close>

theorem bitfield_set_get:
  assumes "bitmaps_ok B bits" "0 < width" "offset + width \<le> BIT_LIMIT"
    and "bitfield_overflow v signed width mode = Some x"
    and "0 < width'" "offset' + width' \<le> BIT_LIMIT" "offset' + width' \<le> offset \<or> offset + width \<le> offset'"
  shows "\<exists>b' old. bitfield_step B (BfSet signed width offset v mode) b = Some (b', True, old)
    \<and> bitfield_step B (BfGet signed width offset) b' = Some (b', False, RInt x)
    \<and> lowest signed width \<le> x \<and> x \<le> highest signed width
    \<and> (lowest signed width \<le> v \<and> v \<le> highest signed width \<longrightarrow> x = v)
    \<and> map_option snd (bitfield_step B (BfGet signed' width' offset') b') =
        map_option snd (bitfield_step B (BfGet signed' width' offset') b)"
proof -
  note ok = assms(1)
  let ?old = "RInt (interpret_bits (extract_bits B b offset width 0) signed width)"
  let ?b' = "store_bits B offset width (x mod 2 ^ width) b"
  have limit: "\<not> bm_limit B < offset + width" "\<not> bm_limit B < offset' + width'"
    using assms(3,6) by (simp_all add: bitmaps_okD(1) [OF ok])
  have set: "bits ?b' = put_field (bits b) offset width x" by (rule store_bits_set [OF ok assms(3)])
  have range: "lowest signed width \<le> x" "x \<le> highest signed width"
    using bitfield_overflow_range [OF assms(2,4)] by simp_all
  have get: "interpret_bits (extract_bits B ?b' offset width 0) signed width = x"
    using range by (simp add: extract_bits_value [OF ok assms(3)] set field_value_put interpret_mod [OF assms(2)])
  have "n \<in> bits ?b' \<longleftrightarrow> n \<in> bits b" if "offset' \<le> n" "n < offset' + width'" for n
    unfolding set by (rule put_field_other) (use that assms(7) in auto)
  then have "field_value (bits ?b') offset' width' = field_value (bits b) offset' width'"
    by (rule field_value_cong)
  then have "extract_bits B ?b' offset' width' 0 = extract_bits B b offset' width' 0"
    by (simp add: extract_bits_value [OF ok assms(6)])
  moreover have "lowest signed width \<le> v \<and> v \<le> highest signed width \<longrightarrow> x = v"
    using assms(4) by (auto simp: bitfield_overflow_def Let_def lowest_def highest_def split: if_splits)
  moreover have "bitfield_step B (BfSet signed width offset v mode) b = Some (?b', True, ?old)"
    using limit assms(4) by (simp add: write_field_def Let_def)
  ultimately show ?thesis using range get limit by (intro exI [of _ ?b'] exI [of _ ?old]) simp
qed

theorem bitfield_set_get_witness:
  "\<exists>b' old. bitfield_step demo_bitmaps (BfSet True 4 8 25 WRAP) [1, 9] = Some (b', True, old)
    \<and> bitfield_step demo_bitmaps (BfGet True 4 8) b' = Some (b', False, RInt (- 7))"
proof -
  have o: "bitfield_overflow 25 True 4 WRAP = Some (- 7)" by code_simp
  have "(8 :: nat) + 4 \<le> BIT_LIMIT" "(0 :: nat) + 8 \<le> BIT_LIMIT" by (simp_all add: BIT_LIMIT_def)
  from bitfield_set_get [OF demo_bitmaps_ok _ this(1) o _ this(2), where signed' = False and b = "[1, 9]"]
  show ?thesis by (fastforce simp del: bitfield_step.simps)
qed

end
