(* ===== verification/ServerCmds.thy ===== *)
theory ServerCmds
  imports KeyspaceCmds FloatText
begin

text \<open>
  The rest of \<open>commands/basic.py\<close>: the commands about the server itself (\<^verbatim>\<open>COMMAND\<close>, \<^verbatim>\<open>HELLO\<close>,
  \<^verbatim>\<open>CLIENT\<close>, \<^verbatim>\<open>CONFIG\<close>, \<^verbatim>\<open>INFO\<close>), and \<^verbatim>\<open>INCRBYFLOAT\<close>.

  \<open>COMMAND\<close> reads the table of the methods of the class: the names and arities it finds there are an
  argument, which \<open>CommandTable\<close> supplies.  A \<open>host\<close> is what \<^verbatim>\<open>INFO\<close> asks the machine for.
\<close>

section \<open>What is known about a command\<close>

definition WRITE_COMMANDS :: "bytes list" where
  "WRITE_COMMANDS =
    [''append'', ''decr'', ''decrby'', ''del'', ''expire'', ''expireat'', ''getdel'', ''getex'', ''getset'',
     ''incr'', ''incrby'', ''incrbyfloat'', ''mset'', ''msetnx'', ''persist'', ''pexpire'', ''pexpireat'',
     ''psetex'', ''set'', ''hmset'', ''hsetnx'', ''hincrbyfloat'', ''hexpire'', ''hpexpire'', ''hexpireat'',
     ''hpexpireat'', ''setex'', ''setnx'', ''setrange'', ''setbit'', ''bitop'', ''bitfield'', ''linsert'',
     ''lmove'', ''lmpop'', ''lpop'', ''lpush'', ''lpushx'', ''lrem'', ''lset'', ''ltrim'', ''rpop'',
     ''rpoplpush'', ''rpush'', ''rpushx'', ''sadd'', ''sdiffstore'', ''sinterstore'', ''smove'', ''spop'',
     ''srem'', ''sunionstore'', ''hdel'', ''hincrby'', ''hset'', ''hpersist'', ''zadd'', ''zdiffstore'',
     ''zincrby'', ''zinterstore'', ''zpopmax'', ''zpopmin'', ''zrem'', ''zremrangebylex'', ''zremrangebyrank'',
     ''zremrangebyscore'', ''zunionstore'', ''flushall'', ''flushdb'']"

definition READONLY_COMMANDS :: "bytes list" where
  "READONLY_COMMANDS =
    [''get'', ''mget'', ''strlen'', ''getrange'', ''substr'', ''lcs'', ''exists'', ''type'', ''ttl'', ''pttl'',
     ''keys'', ''scan'', ''dbsize'', ''touch'', ''expiretime'', ''pexpiretime'', ''subscribe'', ''unsubscribe'',
     ''psubscribe'', ''punsubscribe'', ''publish'', ''pubsub'', ''echo'', ''config'', ''info'', ''command'',
     ''getbit'', ''bitcount'', ''bitpos'', ''bitfield_ro'', ''hscan'', ''sscan'', ''zscan'', ''llen'',
     ''lindex'', ''lrange'', ''lpos'', ''scard'', ''sdiff'', ''sinter'', ''sintercard'', ''sismember'',
     ''smembers'', ''smismember'', ''srandmember'', ''sscan'', ''sunion'', ''hget'', ''hmget'', ''hexists'',
     ''hlen'', ''hkeys'', ''hvals'', ''hgetall'', ''hscan'', ''hstrlen'', ''hrandfield'', ''httl'', ''hpttl'',
     ''hexpiretime'', ''hpexpiretime'', ''zcard'', ''zcount'', ''zdiff'', ''zinter'', ''zlexcount'', ''zmscore'',
     ''zrandmember'', ''zrange'', ''zrangebylex'', ''zrangebyscore'', ''zrank'', ''zrevrange'',
     ''zrevrangebylex'', ''zrevrangebyscore'', ''zrevrank'', ''zscore'', ''zunion'', ''zscan'']"

definition ADMIN_COMMANDS :: "bytes list" where
  "ADMIN_COMMANDS =
    [''flushall'', ''flushdb'', ''config'']"

definition COMMAND_GROUPS :: "(bytes \<times> bytes) list" where
  "COMMAND_GROUPS =
     map (\<lambda>c. (c, ''string'')) [''get'', ''mget'', ''strlen'', ''getrange'', ''substr'', ''getset'', ''getdel'', ''getex'', ''set'',
        ''setnx'', ''setex'', ''psetex'', ''mset'', ''msetnx'', ''append'', ''incr'', ''decr'', ''incrby'',
        ''decrby'', ''incrbyfloat'', ''setrange''] @
     map (\<lambda>c. (c, ''connection'')) [''echo'', ''ping'', ''client''] @
     map (\<lambda>c. (c, ''bitmap'')) [''setbit'', ''getbit'', ''bitcount'', ''bitpos'', ''bitop''] @
     map (\<lambda>c. (c, ''list'')) [''lpush'', ''rpush'', ''lpushx'', ''rpushx'', ''llen'', ''lindex'', ''lset'', ''lrange'', ''ltrim'',
        ''lrem'', ''linsert'', ''lpop'', ''rpop'', ''lmove'', ''rpoplpush'', ''lpos'', ''lmpop''] @
     map (\<lambda>c. (c, ''set'')) [''sadd'', ''scard'', ''smembers'', ''sismember'', ''smismember'', ''srem'', ''spop'', ''srandmember'',
        ''smove'', ''sdiff'', ''sdiffstore'', ''sinter'', ''sinterstore'', ''sunion'', ''sunionstore''] @
     map (\<lambda>c. (c, ''hash'')) [''hset'', ''hmset'', ''hsetnx'', ''hget'', ''hmget'', ''hexists'', ''hdel'', ''hlen'', ''hkeys'', ''hvals'',
        ''hgetall'', ''hincrby'', ''hincrbyfloat'', ''hstrlen'', ''hexpire'', ''hpexpire'', ''hexpireat'',
        ''hpexpireat'', ''hpersist'', ''httl'', ''hpttl'', ''hexpiretime'', ''hpexpiretime''] @
     map (\<lambda>c. (c, ''sorted-set'')) [''zadd'', ''zcard'', ''zscore'', ''zmscore'', ''zincrby'', ''zrank'', ''zrevrank'', ''zrange'',
        ''zrevrange'', ''zrangebyscore'', ''zrevrangebyscore'', ''zrangebylex'', ''zrevrangebylex'', ''zcount'',
        ''zlexcount'', ''zrem'', ''zremrangebyrank'', ''zremrangebyscore'', ''zremrangebylex'', ''zpopmin'',
        ''zpopmax'', ''zrandmember'', ''zunionstore'', ''zinterstore'', ''zdiffstore'', ''zunion'', ''zinter'',
        ''zdiff''] @
     map (\<lambda>c. (c, ''generic'')) [''del'', ''expire'', ''pexpire'', ''expireat'', ''pexpireat'', ''persist'', ''ttl'', ''pttl'', ''type'',
        ''keys'', ''scan'', ''exists'', ''touch'', ''dbsize''] @
     map (\<lambda>c. (c, ''server'')) [''flushdb'', ''flushall'', ''command'', ''config'', ''info''] @
     map (\<lambda>c. (c, ''pubsub'')) [''subscribe'', ''unsubscribe'', ''psubscribe'', ''punsubscribe'', ''publish'', ''pubsub'']"

definition command_flags :: "bytes \<Rightarrow> bytes list" where
  "command_flags lower_name =
     (if lower_name \<in> set WRITE_COMMANDS then [''write'']
      else if lower_name \<in> set READONLY_COMMANDS then [''readonly''] else [])
     @ (if lower_name \<in> set ADMIN_COMMANDS then [''admin''] else [])"

definition command_group :: "bytes \<Rightarrow> bytes" where
  "command_group lower_name = (case map_of COMMAND_GROUPS lower_name of None \<Rightarrow> ''generic'' | Some g \<Rightarrow> g)"

section \<open>COMMAND, HELLO and CLIENT\<close>

definition command_row :: "bytes \<times> int \<Rightarrow> reply" where
  "command_row entry =
     (case entry of (name, ar) \<Rightarrow>
        RList [RBytes name, RInt ar, RList (map RBytes (command_flags (lower name))), RInt 0, RInt 0, RInt 0])"

definition command_doc :: "bytes \<times> int \<Rightarrow> reply" where
  "command_doc entry =
     (case entry of (name, ar) \<Rightarrow>
        RList [RBytes name,
          RList [RBytes ''summary'', RBytes [], RBytes ''since'', RBytes ''0.9.0'',
            RBytes ''group'', RBytes (command_group (lower name)), RBytes ''arity'', RInt ar,
            RBytes ''flags'', RList (map RBytes (command_flags (lower name)))]])"

definition unknown_subcommand :: "bytes \<Rightarrow> bytes \<Rightarrow> error" where
  "unknown_subcommand sub help =
     err (''Unknown subcommand or wrong number of arguments for '' @ quote_char @ ascii_replace sub @ quote_char
       @ ''. Try '' @ help @ '' HELP.'')"

definition COMMAND :: "(bytes \<times> int) list \<Rightarrow> env \<Rightarrow> bytes list \<Rightarrow> 'bm server \<Rightarrow> 'bm cmd_result" where
  "COMMAND info ev args s =
     (if args = [] then returns s (RList (map command_row info))
      else
        let sub = upper (hd args) in
        if sub = ''COUNT'' \<and> length args = 1 then returns s (RInt (int (length info)))
        else if sub = ''DOCS'' then
          let wanted = (if length args = 1 then sort (map fst info) else map upper (tl args))
          in returns s (RList (List.map_filter
               (\<lambda>name. map_option (\<lambda>ar. command_doc (name, ar)) (map_of info name)) wanted))
        else raise_error s (unknown_subcommand sub ''COMMAND''))"

definition AUTH_ERROR :: error where
  "AUTH_ERROR = err (''AUTH <password> called without any password configured for the default user. ''
     @ ''Are you sure your configuration is correct?'')"

fun hello_loop :: "bytes list \<Rightarrow> int \<Rightarrow> error + int" where
  "hello_loop [] proto = Inr proto"
| "hello_loop (arg # rest) proto =
     (if upper arg = ''AUTH'' then Inl (if length rest < 2 then SYNTAX else AUTH_ERROR)
      else if upper arg = ''SETNAME'' then (case rest of [] \<Rightarrow> Inl SYNTAX | _ # rest \<Rightarrow> hello_loop rest proto)
      else
        case string2ll arg of
          None \<Rightarrow> Inl NOT_INT
        | Some p \<Rightarrow> hello_loop rest p)"

definition HELLO :: "env \<Rightarrow> bytes list \<Rightarrow> 'bm server \<Rightarrow> 'bm cmd_result" where
  "HELLO ev args s =
     bindR (liftE s (hello_loop args 2)) (\<lambda>s proto.
       if proto \<noteq> 2 then raise_error s (Error ''NOPROTO'' ''unsupported protocol version'')
       else returns s (RList [RBytes ''server'', RBytes ''redis'', RBytes ''version'', RBytes ''7.4.0'',
         RBytes ''proto'', RInt 2, RBytes ''id'', RInt 1, RBytes ''mode'', RBytes ''standalone'',
         RBytes ''role'', RBytes ''master'', RBytes ''modules'', RList []]))"

definition CLIENT :: "env \<Rightarrow> bytes list \<Rightarrow> 'bm server \<Rightarrow> 'bm cmd_result" where
  "CLIENT ev args s =
     (if args = [] then raise_error s (arity ''client'')
      else
        let sub = upper (hd args) in
        if sub = ''SETINFO'' \<and> length args = 3 then returns s (RResponse OK)
        else if sub = ''SETNAME'' \<and> length args = 2 then returns s (RResponse OK)
        else if sub = ''GETNAME'' \<and> length args = 1 then returns s (RBytes [])
        else if sub = ''ID'' \<and> length args = 1 then returns s (RInt 1)
        else raise_error s (unknown_subcommand sub ''CLIENT''))"

section \<open>CONFIG\<close>

definition CONFIG_VALUES :: "(bytes \<times> bytes) list" where
  "CONFIG_VALUES = [(''maxmemory'', ''0''), (''maxmemory-policy'', ''noeviction''), (''save'', []), (''appendonly'', ''no'')]"

definition config_get :: "'bm server \<Rightarrow> bytes \<Rightarrow> reply" where
  "config_get s pattern =
     (let values = AList.update ''notify-keyspace-events'' (notify_keyspace_events s) CONFIG_VALUES
      in RList (concat (map (\<lambda>name. [RBytes name, RBytes (the (map_of values name))])
           (filter (compile_glob pattern) (sort (map fst values))))))"

definition ALLOWED_EVENT_FLAGS :: "char list" where
  "ALLOWED_EVENT_FLAGS = ''Ag$lshzxeKEtmdn''"

definition EVENT_FLAGS_ERROR :: error where
  "EVENT_FLAGS_ERROR =
     err (''CONFIG SET failed (possibly related to argument '' @ quote_char @ ''notify-keyspace-events'' @ quote_char
       @ '') - Invalid event class character. Use '' @ quote_char @ ''Ag$lshzxeKEtmdn'' @ quote_char @ ''.'')"

definition CONFIG :: "env \<Rightarrow> bytes list \<Rightarrow> 'bm server \<Rightarrow> 'bm cmd_result" where
  "CONFIG ev args s =
     (if args = [] then raise_error s (arity ''config'')
      else
        let subcommand = upper (hd args) in
        if subcommand = ''GET'' then
          (if length args \<noteq> 2 then raise_error s (arity ''config|get'') else returns s (config_get s (args ! 1)))
        else if subcommand = ''SET'' then
          (if length args \<noteq> 3 then raise_error s (arity ''config|set'')
           else if lower (args ! 1) = ''notify-keyspace-events'' then
             (if list_all (\<lambda>c. c \<in> set ALLOWED_EVENT_FLAGS) (args ! 2)
              then returns (s\<lparr>notify_keyspace_events := args ! 2\<rparr>) (RResponse OK)
              else raise_error s EVENT_FLAGS_ERROR)
           else raise_error s (err (''Unknown option or number of arguments for CONFIG SET - '' @ quote_char
             @ ascii_replace (args ! 1) @ quote_char)))
        else raise_error s (err (''Unknown CONFIG subcommand or wrong number of arguments for ''
          @ ascii_replace subcommand)))"

section \<open>INFO\<close>

record host =
  host_system :: bytes
  host_machine :: bytes
  host_pid :: int
  tcp_port :: int

definition info_wanted :: "bytes list \<Rightarrow> bytes \<Rightarrow> bool" where
  "info_wanted sections section \<longleftrightarrow>
     section \<in> set [''server'', ''keyspace''] \<and>
     (\<exists>raw \<in> set sections. lower raw \<in> set [''all'', ''default'', ''everything'', []] \<or> lower raw = section)"

definition info_server :: "host \<Rightarrow> env \<Rightarrow> bytes" where
  "info_server h ev = concat (map (\<lambda>line. line @ SYM_CRLF)
     [''# Server'', ''redis_version:7.4.0'', ''redis_git_sha1:00000000'', ''redis_git_dirty:0'',
      ''redis_build_id:0000000000000000'', ''redis_mode:standalone'',
      ''os:'' @ host_system h @ '' '' @ host_machine h, ''arch_bits:64'',
      ''process_id:'' @ show_int (host_pid h), ''tcp_port:'' @ show_int (tcp_port h),
      ''uptime_in_seconds:'' @ show_int (mono_ns ev div 1000000000)])"

definition info_keyspace :: "int \<times> int \<times> int \<Rightarrow> bytes" where
  "info_keyspace stats =
     (case stats of (keys, expires, avg_ttl) \<Rightarrow>
        ''# Keyspace'' @ SYM_CRLF
        @ (if keys \<noteq> 0 then ''db0:keys='' @ show_int keys @ '',expires='' @ show_int expires
             @ '',avg_ttl='' @ show_int avg_ttl @ SYM_CRLF else []))"

definition INFO :: "host \<Rightarrow> env \<Rightarrow> bytes list \<Rightarrow> 'bm server \<Rightarrow> 'bm cmd_result" where
  "INFO h ev sections s =
     (let wanted = info_wanted (if sections = [] then [''default''] else sections);
          server = (if wanted ''server'' then [info_server h ev] else [])
      in if wanted ''keyspace'' then
           (case lift_data (keyspace_stats ev) s of
              (s, stats) \<Rightarrow> returns s (RBytes (join SYM_CRLF (server @ [info_keyspace stats]))))
         else returns s (RBytes (join SYM_CRLF server)))"

section \<open>INCRBYFLOAT\<close>

definition INCRBYFLOAT :: "env \<Rightarrow> bytes \<Rightarrow> bytes \<Rightarrow> 'bm server \<Rightarrow> 'bm cmd_result" where
  "INCRBYFLOAT ev key increment s =
     bindR (get_string ev key s) (\<lambda>s val.
       case (case val of None \<Rightarrow> Some (Fin 0) | Some b \<Rightarrow> parse_float b) of
         None \<Rightarrow> raise_error s NOT_FLOAT
       | Some current \<Rightarrow>
           (case parse_float increment of
              None \<Rightarrow> raise_error s NOT_FLOAT
            | Some incr \<Rightarrow>
                (case double_add current incr of
                   None \<Rightarrow> raise_error s FLOAT_OVERFLOW
                 | Some r \<Rightarrow>
                     if \<not> is_finite r then raise_error s FLOAT_OVERFLOW
                     else
                       let text = format_float r
                       in returns (after_write key ''incrbyfloat'' (upd_data (data_set ev key (VStr text) None True) s))
                            (RBytes text))))"

section \<open>Safety\<close>

lemma safe_COMMAND: "safe s (fst (COMMAND info ev args s))"
  by (simp add: COMMAND_def Let_def)

lemma safe_HELLO: "safe s (fst (HELLO ev args s))"
  by (cases "hello_loop args 2") (simp_all add: HELLO_def)

lemma safe_CLIENT: "safe s (fst (CLIENT ev args s))"
  by (simp add: CLIENT_def Let_def)

lemma safe_flags: "safe s (s\<lparr>notify_keyspace_events := flags\<rparr>)"
  by (simp add: safe_def quiet_def)

lemma safe_CONFIG: "safe s (fst (CONFIG ev args s))"
  by (simp add: CONFIG_def Let_def safe_flags)

lemma store_ok_stats: "store_ok d \<Longrightarrow> store_ok (fst (keyspace_stats ck d))"
  using store_ok_sweeps(1) [of d ck] by (cases "sweep ck d") (simp add: keyspace_stats_def Let_def)

lemma safe_INFO: "safe s (fst (INFO h ev sections s))"
proof -
  have "safe s (fst (lift_data (keyspace_stats ev) s))" by (rule safe_lift) (rule store_ok_stats)
  then show ?thesis by (simp add: INFO_def Let_def case_prod_unfold)
qed

lemma safe_INCRBYFLOAT: "safe s (fst (INCRBYFLOAT ev key increment s))"
  unfolding INCRBYFLOAT_def Let_def
  by (rule safe_bind) (auto simp: get_string_eq safe_get intro!: safe_intros split: option.split)

lemmas safe_server_cmds =
  safe_COMMAND safe_HELLO safe_CLIENT safe_CONFIG safe_INFO safe_INCRBYFLOAT

end
