(* ===== verification/CommandTable.thy ===== *)
theory CommandTable
  imports Dispatch Lcs SetCmds HashCmds ZSetCmds BitSpec ServerCmds
begin

text \<open>
  The methods of the \<^verbatim>\<open>Commands\<close> class as the table that \<^verbatim>\<open>getattr\<close> looks a command up in: for each
  method the arguments its signature names, which of them are numbers, and whether more may follow.
  The interpretation of \<open>command_set\<close> at the end shows that every entry is what the dispatcher relies on.
\<close>

section \<open>Signatures\<close>

text \<open>
  A signature is written as a word: \<open>b\<close> for bytes, \<open>i\<close> for a number, \<open>o\<close> for a last argument that may
  be missing, \<open>x\<close> for any number of arguments.
\<close>

definition sig_0 :: "(env \<Rightarrow> 'bm server \<Rightarrow> 'bm cmd_result) \<Rightarrow> 'bm command" where
  "sig_0 f = Decorated \<lparr>int_args = [], required_args = 0, var_args = False,
     body = \<lambda>ev args s. f ev s\<rparr>"

definition sig_ob :: "(env \<Rightarrow> bytes option \<Rightarrow> 'bm server \<Rightarrow> 'bm cmd_result) \<Rightarrow> 'bm command" where
  "sig_ob f = Decorated \<lparr>int_args = [False], required_args = 0, var_args = False,
     body = \<lambda>ev args s. case args of [] \<Rightarrow> f ev None s | [AB a] \<Rightarrow> f ev (Some a) s | _ \<Rightarrow> raises s Crashed\<rparr>"

definition sig_b :: "(env \<Rightarrow> bytes \<Rightarrow> 'bm server \<Rightarrow> 'bm cmd_result) \<Rightarrow> 'bm command" where
  "sig_b f = Decorated \<lparr>int_args = [False], required_args = 1, var_args = False,
     body = \<lambda>ev args s. case args of [AB a] \<Rightarrow> f ev a s | _ \<Rightarrow> raises s Crashed\<rparr>"

definition sig_bb :: "(env \<Rightarrow> bytes \<Rightarrow> bytes \<Rightarrow> 'bm server \<Rightarrow> 'bm cmd_result) \<Rightarrow> 'bm command" where
  "sig_bb f = Decorated \<lparr>int_args = [False, False], required_args = 2, var_args = False,
     body = \<lambda>ev args s. case args of [AB a, AB b] \<Rightarrow> f ev a b s | _ \<Rightarrow> raises s Crashed\<rparr>"

definition sig_bi :: "(env \<Rightarrow> bytes \<Rightarrow> int \<Rightarrow> 'bm server \<Rightarrow> 'bm cmd_result) \<Rightarrow> 'bm command" where
  "sig_bi f = Decorated \<lparr>int_args = [False, True], required_args = 2, var_args = False,
     body = \<lambda>ev args s. case args of [AB a, AI i] \<Rightarrow> f ev a i s | _ \<Rightarrow> raises s Crashed\<rparr>"

definition sig_boi :: "(env \<Rightarrow> bytes \<Rightarrow> int option \<Rightarrow> 'bm server \<Rightarrow> 'bm cmd_result) \<Rightarrow> 'bm command" where
  "sig_boi f = Decorated \<lparr>int_args = [False, True], required_args = 1, var_args = False,
     body = \<lambda>ev args s. case args of [AB a] \<Rightarrow> f ev a None s | [AB a, AI i] \<Rightarrow> f ev a (Some i) s
       | _ \<Rightarrow> raises s Crashed\<rparr>"

definition sig_bii :: "(env \<Rightarrow> bytes \<Rightarrow> int \<Rightarrow> int \<Rightarrow> 'bm server \<Rightarrow> 'bm cmd_result) \<Rightarrow> 'bm command" where
  "sig_bii f = Decorated \<lparr>int_args = [False, True, True], required_args = 3, var_args = False,
     body = \<lambda>ev args s. case args of [AB a, AI i, AI j] \<Rightarrow> f ev a i j s | _ \<Rightarrow> raises s Crashed\<rparr>"

definition sig_bib :: "(env \<Rightarrow> bytes \<Rightarrow> int \<Rightarrow> bytes \<Rightarrow> 'bm server \<Rightarrow> 'bm cmd_result) \<Rightarrow> 'bm command" where
  "sig_bib f = Decorated \<lparr>int_args = [False, True, False], required_args = 3, var_args = False,
     body = \<lambda>ev args s. case args of [AB a, AI i, AB b] \<Rightarrow> f ev a i b s | _ \<Rightarrow> raises s Crashed\<rparr>"

definition sig_bbb :: "(env \<Rightarrow> bytes \<Rightarrow> bytes \<Rightarrow> bytes \<Rightarrow> 'bm server \<Rightarrow> 'bm cmd_result) \<Rightarrow> 'bm command" where
  "sig_bbb f = Decorated \<lparr>int_args = [False, False, False], required_args = 3, var_args = False,
     body = \<lambda>ev args s. case args of [AB a, AB b, AB c] \<Rightarrow> f ev a b c s | _ \<Rightarrow> raises s Crashed\<rparr>"

definition sig_bbbb ::
  "(env \<Rightarrow> bytes \<Rightarrow> bytes \<Rightarrow> bytes \<Rightarrow> bytes \<Rightarrow> 'bm server \<Rightarrow> 'bm cmd_result) \<Rightarrow> 'bm command" where
  "sig_bbbb f = Decorated \<lparr>int_args = [False, False, False, False], required_args = 4, var_args = False,
     body = \<lambda>ev args s. case args of [AB a, AB b, AB c, AB d] \<Rightarrow> f ev a b c d s | _ \<Rightarrow> raises s Crashed\<rparr>"

text \<open>The arguments behind the named ones are bytes, as the decorator passes them on.\<close>

definition arg_bytes :: "arg \<Rightarrow> bytes" where
  "arg_bytes a = (case a of AB b \<Rightarrow> b | AI i \<Rightarrow> show_int i)"

definition sig_x :: "(env \<Rightarrow> bytes list \<Rightarrow> 'bm server \<Rightarrow> 'bm cmd_result) \<Rightarrow> 'bm command" where
  "sig_x f = Decorated \<lparr>int_args = [], required_args = 0, var_args = True,
     body = \<lambda>ev args s. f ev (map arg_bytes args) s\<rparr>"

definition sig_bx :: "(env \<Rightarrow> bytes \<Rightarrow> bytes list \<Rightarrow> 'bm server \<Rightarrow> 'bm cmd_result) \<Rightarrow> 'bm command" where
  "sig_bx f = Decorated \<lparr>int_args = [False], required_args = 1, var_args = True,
     body = \<lambda>ev args s. case args of AB a # xs \<Rightarrow> f ev a (map arg_bytes xs) s | _ \<Rightarrow> raises s Crashed\<rparr>"

definition sig_ix :: "(env \<Rightarrow> int \<Rightarrow> bytes list \<Rightarrow> 'bm server \<Rightarrow> 'bm cmd_result) \<Rightarrow> 'bm command" where
  "sig_ix f = Decorated \<lparr>int_args = [True], required_args = 1, var_args = True,
     body = \<lambda>ev args s. case args of AI i # xs \<Rightarrow> f ev i (map arg_bytes xs) s | _ \<Rightarrow> raises s Crashed\<rparr>"

definition sig_bbx :: "(env \<Rightarrow> bytes \<Rightarrow> bytes \<Rightarrow> bytes list \<Rightarrow> 'bm server \<Rightarrow> 'bm cmd_result) \<Rightarrow> 'bm command" where
  "sig_bbx f = Decorated \<lparr>int_args = [False, False], required_args = 2, var_args = True,
     body = \<lambda>ev args s. case args of AB a # AB b # xs \<Rightarrow> f ev a b (map arg_bytes xs) s | _ \<Rightarrow> raises s Crashed\<rparr>"

definition sig_boix :: "(env \<Rightarrow> bytes \<Rightarrow> int option \<Rightarrow> bytes list \<Rightarrow> 'bm server \<Rightarrow> 'bm cmd_result) \<Rightarrow> 'bm command" where
  "sig_boix f = Decorated \<lparr>int_args = [False, True], required_args = 1, var_args = True,
     body = \<lambda>ev args s. case args of [AB a] \<Rightarrow> f ev a None [] s
       | AB a # AI i # xs \<Rightarrow> f ev a (Some i) (map arg_bytes xs) s | _ \<Rightarrow> raises s Crashed\<rparr>"

definition sig_bix :: "(env \<Rightarrow> bytes \<Rightarrow> int \<Rightarrow> bytes list \<Rightarrow> 'bm server \<Rightarrow> 'bm cmd_result) \<Rightarrow> 'bm command" where
  "sig_bix f = Decorated \<lparr>int_args = [False, True], required_args = 2, var_args = True,
     body = \<lambda>ev args s. case args of AB a # AI i # xs \<Rightarrow> f ev a i (map arg_bytes xs) s | _ \<Rightarrow> raises s Crashed\<rparr>"

definition sig_bbi :: "(env \<Rightarrow> bytes \<Rightarrow> bytes \<Rightarrow> int \<Rightarrow> 'bm server \<Rightarrow> 'bm cmd_result) \<Rightarrow> 'bm command" where
  "sig_bbi f = Decorated \<lparr>int_args = [False, False, True], required_args = 3, var_args = False,
     body = \<lambda>ev args s. case args of [AB a, AB b, AI i] \<Rightarrow> f ev a b i s | _ \<Rightarrow> raises s Crashed\<rparr>"

definition sig_bbbx ::
  "(env \<Rightarrow> bytes \<Rightarrow> bytes \<Rightarrow> bytes \<Rightarrow> bytes list \<Rightarrow> 'bm server \<Rightarrow> 'bm cmd_result) \<Rightarrow> 'bm command" where
  "sig_bbbx f = Decorated \<lparr>int_args = [False, False, False], required_args = 3, var_args = True,
     body = \<lambda>ev args s. case args of AB a # AB b # AB c # xs \<Rightarrow> f ev a b c (map arg_bytes xs) s
       | _ \<Rightarrow> raises s Crashed\<rparr>"

section \<open>The table\<close>

definition basic_commands :: "host \<Rightarrow> (bytes \<times> int) list \<Rightarrow> (bytes \<times> 'bm command) list" where
  "basic_commands h info =
    [(''WATCH'', Pubsub 1 WATCH),
     (''UNWATCH'', Pubsub 0 (\<lambda>ev args s. if args = [] then UNWATCH s else raises s Crashed)),
     (''PING'', sig_ob (\<lambda>ev. PING)), (''ECHO'', sig_b (\<lambda>ev. ECHO)), (''COMMAND'', sig_x (COMMAND info)),
     (''TYPE'', sig_b TYPE_cmd), (''HELLO'', sig_x HELLO), (''CLIENT'', sig_x CLIENT), (''CONFIG'', sig_x CONFIG),
     (''INFO'', sig_x (INFO h)),
     (''SET'', sig_bbx SET), (''SETNX'', sig_bb SETNX), (''SETEX'', sig_bib SETEX), (''PSETEX'', sig_bib PSETEX),
     (''GET'', sig_b GET), (''GETDEL'', sig_b GETDEL), (''GETEX'', sig_bx GETEX), (''GETSET'', sig_bb GETSET),
     (''MGET'', sig_x MGET), (''MSET'', sig_x MSET), (''MSETNX'', sig_x MSETNX), (''DEL'', sig_x DEL),
     (''EXPIRE'', sig_bi EXPIRE), (''PEXPIRE'', sig_bi PEXPIRE), (''EXPIREAT'', sig_bi EXPIREAT),
     (''PEXPIREAT'', sig_bi PEXPIREAT), (''PERSIST'', sig_b PERSIST), (''EXPIRETIME'', sig_b EXPIRETIME),
     (''PEXPIRETIME'', sig_b PEXPIRETIME), (''TTL'', sig_b TTL), (''PTTL'', sig_b PTTL), (''KEYS'', sig_b KEYS),
     (''SCAN'', sig_bx SCAN), (''EXISTS'', sig_x EXISTS), (''TOUCH'', sig_x TOUCH), (''DBSIZE'', sig_0 DBSIZE),
     (''INCRBY'', sig_bi INCRBY), (''INCR'', sig_b INCR),
     (''INCRBYFLOAT'', sig_bb INCRBYFLOAT), (''DECRBY'', sig_bi DECRBY), (''DECR'', sig_b DECR),
     (''LCS'', sig_bbx LCS), (''SUBSTR'', sig_bii SUBSTR), (''GETRANGE'', sig_bii GETRANGE),
     (''SETRANGE'', sig_bib SETRANGE), (''FLUSHDB'', sig_0 (\<lambda>ev. FLUSHDB)), (''FLUSHALL'', sig_0 (\<lambda>ev. FLUSHALL)),
     (''APPEND'', sig_bb APPEND), (''STRLEN'', sig_b STRLEN)]"

definition list_commands :: "(bytes \<times> 'bm command) list" where
  "list_commands =
    [(''LPUSH'', sig_bx LPUSH), (''RPUSH'', sig_bx RPUSH), (''LPUSHX'', sig_bx LPUSHX), (''RPUSHX'', sig_bx RPUSHX),
     (''LLEN'', sig_b LLEN), (''LRANGE'', sig_bii LRANGE), (''LINDEX'', sig_bi LINDEX), (''LPOP'', sig_boi LPOP),
     (''RPOP'', sig_boi RPOP), (''LSET'', sig_bib LSET), (''LTRIM'', sig_bii LTRIM), (''LREM'', sig_bib LREM),
     (''LINSERT'', sig_bbbb LINSERT), (''LMOVE'', sig_bbbb LMOVE), (''RPOPLPUSH'', sig_bb RPOPLPUSH),
     (''LMPOP'', sig_ix LMPOP), (''LPOS'', sig_bbx LPOS)]"

definition set_commands :: "(bytes \<times> 'bm command) list" where
  "set_commands =
    [(''SADD'', sig_bx SADD), (''SCARD'', sig_b SCARD), (''SMEMBERS'', sig_b SMEMBERS), (''SREM'', sig_bx SREM),
     (''SDIFF'', sig_x SDIFF), (''SDIFFSTORE'', sig_bx SDIFFSTORE), (''SINTER'', sig_x SINTER),
     (''SINTERCARD'', sig_ix SINTERCARD), (''SINTERSTORE'', sig_bx SINTERSTORE), (''SSCAN'', sig_bbx SSCAN),
     (''SMISMEMBER'', sig_bx SMISMEMBER), (''SISMEMBER'', sig_bb SISMEMBER), (''SMOVE'', sig_bbb SMOVE),
     (''SPOP'', sig_boi SPOP), (''SRANDMEMBER'', sig_boi SRANDMEMBER), (''SUNION'', sig_x SUNION),
     (''SUNIONSTORE'', sig_bx SUNIONSTORE)]"

definition bit_commands :: "'bm bitmaps \<Rightarrow> (bytes \<times> 'bm command) list" where
  "bit_commands B =
    [(''SETBIT'', sig_bii (SETBIT B)), (''GETBIT'', sig_bi (GETBIT B)), (''BITOP'', sig_bbx (BITOP B)),
     (''BITCOUNT'', sig_b (BITCOUNT B)), (''BITPOS'', sig_bb (BITPOS B)), (''BITFIELD'', sig_bx (BITFIELD B)),
     (''BITFIELD_RO'', sig_bx (BITFIELD_RO B))]"

definition hash_commands :: "(bytes \<times> 'bm command) list" where
  "hash_commands =
    [(''HSET'', sig_bx HSET), (''HMSET'', sig_bx HMSET), (''HSETNX'', sig_bbb HSETNX), (''HGET'', sig_bb HGET),
     (''HMGET'', sig_bx HMGET), (''HEXISTS'', sig_bb HEXISTS), (''HDEL'', sig_bx HDEL), (''HLEN'', sig_b HLEN),
     (''HKEYS'', sig_b HKEYS), (''HVALS'', sig_b HVALS), (''HGETALL'', sig_b HGETALL), (''HSTRLEN'', sig_bb HSTRLEN),
     (''HSCAN'', sig_bbx HSCAN), (''HRANDFIELD'', sig_boix HRANDFIELD), (''HINCRBY'', sig_bbi HINCRBY),
     (''HINCRBYFLOAT'', sig_bbb HINCRBYFLOAT), (''HEXPIRE'', sig_bx HEXPIRE), (''HPEXPIRE'', sig_bx HPEXPIRE),
     (''HEXPIREAT'', sig_bx HEXPIREAT), (''HPEXPIREAT'', sig_bx HPEXPIREAT), (''HTTL'', sig_bx HTTL),
     (''HPTTL'', sig_bx HPTTL), (''HPERSIST'', sig_bx HPERSIST), (''HEXPIRETIME'', sig_bx HEXPIRETIME),
     (''HPEXPIRETIME'', sig_bx HPEXPIRETIME)]"

definition zset_commands :: "(bytes \<times> 'bm command) list" where
  "zset_commands =
    [(''ZADD'', sig_bx ZADD), (''ZINCRBY'', sig_bbb ZINCRBY), (''ZCARD'', sig_b ZCARD), (''ZSCORE'', sig_bb ZSCORE),
     (''ZMSCORE'', sig_bx ZMSCORE), (''ZRANK'', sig_bbx ZRANK), (''ZREVRANK'', sig_bbx ZREVRANK),
     (''ZRANGE'', sig_bbbx ZRANGE), (''ZREVRANGE'', sig_bbbx ZREVRANGE), (''ZRANGEBYSCORE'', sig_bbbx ZRANGEBYSCORE),
     (''ZREVRANGEBYSCORE'', sig_bbbx ZREVRANGEBYSCORE), (''ZRANGEBYLEX'', sig_bbbx ZRANGEBYLEX),
     (''ZREVRANGEBYLEX'', sig_bbbx ZREVRANGEBYLEX), (''ZCOUNT'', sig_bbb ZCOUNT), (''ZLEXCOUNT'', sig_bbb ZLEXCOUNT),
     (''ZREM'', sig_bx ZREM), (''ZREMRANGEBYRANK'', sig_bii ZREMRANGEBYRANK),
     (''ZREMRANGEBYSCORE'', sig_bbb ZREMRANGEBYSCORE), (''ZREMRANGEBYLEX'', sig_bbb ZREMRANGEBYLEX),
     (''ZSCAN'', sig_bbx ZSCAN), (''ZPOPMIN'', sig_boi ZPOPMIN), (''ZPOPMAX'', sig_boi ZPOPMAX),
     (''ZRANDMEMBER'', sig_boix ZRANDMEMBER), (''ZUNIONSTORE'', sig_bix ZUNIONSTORE),
     (''ZINTERSTORE'', sig_bix ZINTERSTORE), (''ZDIFFSTORE'', sig_bix ZDIFFSTORE), (''ZUNION'', sig_ix ZUNION),
     (''ZINTER'', sig_ix ZINTER), (''ZDIFF'', sig_ix ZDIFF)]"

definition pubsub_commands :: "(bytes \<times> 'bm command) list" where
  "pubsub_commands =
    [(''SUBSCRIBE'', Pubsub 1 (\<lambda>ev. SUBSCRIBE)), (''UNSUBSCRIBE'', Pubsub 0 (\<lambda>ev. UNSUBSCRIBE)),
     (''PSUBSCRIBE'', Pubsub 1 (\<lambda>ev. PSUBSCRIBE)), (''PUNSUBSCRIBE'', Pubsub 0 (\<lambda>ev. PUNSUBSCRIBE)),
     (''PUBLISH'', Pubsub 2 (\<lambda>ev args s. case args of [channel, message] \<Rightarrow> PUBLISH channel message s
        | _ \<Rightarrow> raises s Crashed)),
     (''PUBSUB'', Pubsub 1 (\<lambda>ev. PUBSUB))]"

text \<open>
  A platform is what the commands take from outside and what does not change while the server runs: the
  bitmaps of pyroaring and the facts about the host.  The methods stand in the order of the class's bases.
\<close>

record 'bm platform =
  pf_bitmaps :: "'bm bitmaps"
  pf_host :: host

definition method_table :: "'bm platform \<Rightarrow> (bytes \<times> int) list \<Rightarrow> (bytes \<times> 'bm command) list" where
  "method_table P info =
     basic_commands (pf_host P) info @ set_commands @ bit_commands (pf_bitmaps P) @ hash_commands @ list_commands
     @ zset_commands @ pubsub_commands"

text \<open>\<^verbatim>\<open>_command_table\<close>: what \<^verbatim>\<open>COMMAND\<close> says of a method's arguments, the command word included.\<close>

definition method_arity :: "'bm command \<Rightarrow> int" where
  "method_arity c =
     (if max_args c = Some (min_args c) then int (min_args c) + 1 else - (int (min_args c) + 1))"

definition surface :: "'bm platform \<Rightarrow> (bytes \<times> int) list" where
  "surface P = map (\<lambda>(name, c). (name, method_arity c)) (method_table P [])"

definition command_table :: "'bm platform \<Rightarrow> (bytes \<times> 'bm command) list" where
  "command_table P = method_table P (surface P)"

section \<open>Every entry keeps the contract\<close>

definition honest :: "'bm command \<Rightarrow> bool" where
  "honest c \<longleftrightarrow>
     (case c of
        Decorated h \<Rightarrow> \<forall>ev xs s. env_ok ev \<longrightarrow> safe s (fst (body h ev xs s))
      | Pubsub n f \<Rightarrow> \<forall>ev args s. keeps s (fst (f ev args s))
          \<and> (\<forall>sid. n \<le> length args \<longrightarrow> cur_session s = Some sid \<longrightarrow> snd (f ev args s) = Inr None \<longrightarrow>
               length (received (sessions s sid)) < length (received (sessions (fst (f ev args s)) sid))))"

named_theorems honest_intros

lemma honest_sig_0 [honest_intros]: "(\<And>ev s. env_ok ev \<Longrightarrow> safe s (fst (f ev s))) \<Longrightarrow> honest (sig_0 f)"
  and honest_sig_ob [honest_intros]: "(\<And>ev a s. env_ok ev \<Longrightarrow> safe s (fst (f1 ev a s))) \<Longrightarrow> honest (sig_ob f1)"
  and honest_sig_b [honest_intros]: "(\<And>ev a s. env_ok ev \<Longrightarrow> safe s (fst (f2 ev a s))) \<Longrightarrow> honest (sig_b f2)"
  and honest_sig_bb [honest_intros]: "(\<And>ev a b s. env_ok ev \<Longrightarrow> safe s (fst (f3 ev a b s))) \<Longrightarrow> honest (sig_bb f3)"
  and honest_sig_bi [honest_intros]: "(\<And>ev a i s. env_ok ev \<Longrightarrow> safe s (fst (f4 ev a i s))) \<Longrightarrow> honest (sig_bi f4)"
  and honest_sig_boi [honest_intros]: "(\<And>ev a i s. env_ok ev \<Longrightarrow> safe s (fst (f5 ev a i s))) \<Longrightarrow> honest (sig_boi f5)"
  and honest_sig_bii [honest_intros]: "(\<And>ev a i j s. env_ok ev \<Longrightarrow> safe s (fst (f6 ev a i j s))) \<Longrightarrow> honest (sig_bii f6)"
  and honest_sig_bib [honest_intros]: "(\<And>ev a i b s. env_ok ev \<Longrightarrow> safe s (fst (f7 ev a i b s))) \<Longrightarrow> honest (sig_bib f7)"
  and honest_sig_bbb [honest_intros]: "(\<And>ev a b c s. env_ok ev \<Longrightarrow> safe s (fst (f8 ev a b c s))) \<Longrightarrow> honest (sig_bbb f8)"
  and honest_sig_bbbb [honest_intros]:
    "(\<And>ev a b c d s. env_ok ev \<Longrightarrow> safe s (fst (f9 ev a b c d s))) \<Longrightarrow> honest (sig_bbbb f9)"
  and honest_sig_x [honest_intros]: "(\<And>ev xs s. env_ok ev \<Longrightarrow> safe s (fst (g ev xs s))) \<Longrightarrow> honest (sig_x g)"
  and honest_sig_bx [honest_intros]: "(\<And>ev a xs s. env_ok ev \<Longrightarrow> safe s (fst (g1 ev a xs s))) \<Longrightarrow> honest (sig_bx g1)"
  and honest_sig_ix [honest_intros]: "(\<And>ev i xs s. env_ok ev \<Longrightarrow> safe s (fst (g2 ev i xs s))) \<Longrightarrow> honest (sig_ix g2)"
  and honest_sig_bbx [honest_intros]: "(\<And>ev a b xs s. env_ok ev \<Longrightarrow> safe s (fst (g3 ev a b xs s))) \<Longrightarrow> honest (sig_bbx g3)"
  and honest_sig_boix [honest_intros]:
    "(\<And>ev a i xs s. env_ok ev \<Longrightarrow> safe s (fst (g4 ev a i xs s))) \<Longrightarrow> honest (sig_boix g4)"
  and honest_sig_bix [honest_intros]:
    "(\<And>ev a i xs s. env_ok ev \<Longrightarrow> safe s (fst (g5 ev a i xs s))) \<Longrightarrow> honest (sig_bix g5)"
  and honest_sig_bbi [honest_intros]: "(\<And>ev a b i s. env_ok ev \<Longrightarrow> safe s (fst (g6 ev a b i s))) \<Longrightarrow> honest (sig_bbi g6)"
  and honest_sig_bbbx [honest_intros]:
    "(\<And>ev a b c xs s. env_ok ev \<Longrightarrow> safe s (fst (g7 ev a b c xs s))) \<Longrightarrow> honest (sig_bbbx g7)"
  by (simp_all add: honest_def sig_boix_def sig_bix_def sig_bbi_def sig_bbbx_def sig_0_def sig_ob_def sig_b_def sig_bb_def sig_bi_def sig_boi_def sig_bii_def
      sig_bib_def sig_bbb_def sig_bbbb_def sig_x_def sig_bx_def sig_ix_def sig_bbx_def
      split: list.split arg.split)

lemma confirm_received [simp]:
  "received (confirm event name ss) = received ss @ [protocolBuilder (RList [RBytes event, name, RInt (subscription_count ss)])]"
  by (simp add: confirm_def)

lemma subscribe_folds_received:
  "length (received (sessions (fold (psubscribe_one sid) names s) sid)) = length (received (sessions s sid)) + length names"
  "length (received (sessions (fold (punsubscribe_one sid) names s) sid)) = length (received (sessions s sid)) + length names"
  "length (received (sessions (fold (subscribe_one sid) names s) sid)) = length (received (sessions s sid)) + length names"
  "length (received (sessions (fold (unsubscribe_one sid) names s) sid)) = length (received (sessions s sid)) + length names"
  by (induction names arbitrary: s)
    (simp_all add: psubscribe_one_def punsubscribe_one_def subscribe_one_def unsubscribe_one_def Let_def
      upd_session_def upd_hub_def)

lemma sorted_fset_Nil [simp]: "sorted_list_of_fset S = [] \<longleftrightarrow> S = {||}"
  by (metis bot_fset.rep_eq fset_inject set_empty sorted_list_of_fset_simps(1))

lemma honest_Pubsub:
  assumes "\<And>ev args s. keeps s (fst (f ev args s))"
    and "\<And>ev args s sid. n \<le> length args \<Longrightarrow> cur_session s = Some sid \<Longrightarrow> snd (f ev args s) = Inr None \<Longrightarrow>
      length (received (sessions s sid)) < length (received (sessions (fst (f ev args s)) sid))"
  shows "honest (Pubsub n f)"
  using assms by (auto simp: honest_def)

lemma session_answers [simp]:
  "snd (WATCH ev keys s) \<noteq> Inr None" "snd (UNWATCH s) \<noteq> Inr None"
  "snd (PUBLISH channel message s) \<noteq> Inr None" "snd (PUBSUB args s) \<noteq> Inr None"
  by (auto simp: WATCH_def UNWATCH_def session_of_def PUBLISH_def PUBSUB_def Let_def split: option.splits prod.splits list.splits)

lemma honest_basic: "list_all (honest \<circ> snd) (basic_commands h info)"
proof -
  have "honest (Pubsub 1 WATCH)" "honest (Pubsub 0 (\<lambda>ev args s. if args = [] then UNWATCH s else raises s Crashed))"
    by (rule honest_Pubsub; auto simp: keeps_session_cmds split: if_splits)+
  then show ?thesis
    by (simp add: basic_commands_def o_def)
      (intro conjI; (assumption | (rule honest_intros;
        simp add: safe_string_cmds safe_keyspace_cmds safe_server_cmds safe_LCS INCR_def INCRBY_def DECR_def DECRBY_def
          GETRANGE_def SUBSTR_def FLUSHDB_def FLUSHALL_def
          PEXPIRE_def EXPIREAT_def PEXPIREAT_def)))
qed

lemma honest_lists: "list_all (honest \<circ> snd) list_commands"
  by (simp add: list_commands_def o_def)
    (intro conjI honest_intros; simp add: safe_list_cmds safe_list_reads safe_list_edits)

lemma honest_sets: "list_all (honest \<circ> snd) set_commands"
  by (simp add: set_commands_def o_def) (intro conjI honest_intros; simp add: safe_set_cmds)

lemma honest_hashes: "list_all (honest \<circ> snd) hash_commands"
  by (simp add: hash_commands_def o_def) (intro conjI honest_intros; simp add: safe_hash_cmds)

lemma honest_zsets: "list_all (honest \<circ> snd) zset_commands"
  by (simp add: zset_commands_def o_def) (intro conjI honest_intros; simp add: safe_zset_cmds)

lemma honest_bits: "list_all (honest \<circ> snd) (bit_commands B)"
  by (simp add: bit_commands_def o_def) (intro conjI honest_intros; simp add: safe_bit_cmds)

lemma subscribe_grows:
  "cur_session s = Some sid \<Longrightarrow>
    length (received (sessions (fst (SUBSCRIBE names s)) sid)) = length (received (sessions s sid)) + length names"
  "cur_session s = Some sid \<Longrightarrow>
    length (received (sessions (fst (PSUBSCRIBE names s)) sid)) = length (received (sessions s sid)) + length names"
  "cur_session s = Some sid \<Longrightarrow>
    length (received (sessions s sid)) < length (received (sessions (fst (UNSUBSCRIBE names s)) sid))"
  "cur_session s = Some sid \<Longrightarrow>
    length (received (sessions s sid)) < length (received (sessions (fst (PUNSUBSCRIBE names s)) sid))"
  by (auto simp: SUBSCRIBE_def PSUBSCRIBE_def UNSUBSCRIBE_def PUNSUBSCRIBE_def session_of_def Let_def
      subscribe_folds_received upd_session_def)

lemma honest_pubsub: "list_all (honest \<circ> snd) pubsub_commands"
proof -
  have "honest (Pubsub 1 (\<lambda>ev. SUBSCRIBE))" "honest (Pubsub 1 (\<lambda>ev. PSUBSCRIBE))"
    "honest (Pubsub 0 (\<lambda>ev. UNSUBSCRIBE))" "honest (Pubsub 0 (\<lambda>ev. PUNSUBSCRIBE))"
    by (rule honest_Pubsub; auto simp: keeps_session_cmds subscribe_grows)+
  moreover have "honest (Pubsub 2 (\<lambda>ev args s. case args of [channel, message] \<Rightarrow> PUBLISH channel message s
        | _ \<Rightarrow> raises s Crashed))"
    by (rule honest_Pubsub) (auto simp: keeps_session_cmds split: list.splits)
  moreover have "honest (Pubsub 1 (\<lambda>ev. PUBSUB))"
    by (rule honest_Pubsub) (auto simp: keeps_session_cmds)
  ultimately show ?thesis by (simp add: pubsub_commands_def)
qed

lemma honest_table: "(name, c) \<in> set (command_table P) \<Longrightarrow> honest c"
  using honest_basic [of "pf_host P" "surface P"] honest_lists honest_sets honest_bits [of "pf_bitmaps P"] honest_hashes honest_zsets honest_pubsub
  by (auto simp: command_table_def method_table_def list_all_iff)

interpretation commands: command_set "command_table P" for P :: "'bm platform"
proof
  fix name and h :: "'bm handler" and ev xs and s :: "'bm server"
  assume "map_of (command_table P) name = Some (Decorated h)" "env_ok ev"
  then show "safe s (fst (body h ev xs s))"
    using honest_table [OF map_of_SomeD] by (fastforce simp: honest_def)
next
  fix name n ev args and f :: "env \<Rightarrow> bytes list \<Rightarrow> 'bm server \<Rightarrow> 'bm session_result" and s :: "'bm server" and sid
  assume f: "map_of (command_table P) name = Some (Pubsub n f)"
  then show "keeps s (fst (f ev args s))" using honest_table [OF map_of_SomeD] by (fastforce simp: honest_def)
  assume "n \<le> length args" "cur_session s = Some sid" "snd (f ev args s) = Inr None"
  then show "length (received (sessions s sid)) < length (received (sessions (fst (f ev args s)) sid))"
    using honest_table [OF map_of_SomeD [OF f]] by (simp add: honest_def)
qed

text \<open>A platform for the concrete runs.\<close>

definition demo_platform :: "nat list platform" where
  "demo_platform = \<lparr>pf_bitmaps = demo_bitmaps,
     pf_host = \<lparr>host_system = ''Linux'', host_machine = ''x86_64'', host_pid = 1, tcp_port = 6380\<rparr>\<rparr>"

section \<open>Introspection\<close>

lemma arity_sig_x [simp]: "method_arity (sig_x f) = - 1"
  by (simp add: method_arity_def sig_x_def)

lemma surface_table:
  fixes P :: "'bm platform"
  shows "map (\<lambda>(name, c). (name, method_arity c)) (command_table P) = surface P"
proof -
  have "map (\<lambda>(name, c). (name, method_arity c)) (basic_commands h info :: (bytes \<times> 'bm command) list) =
      map (\<lambda>(name, c). (name, method_arity c)) (basic_commands h [] :: (bytes \<times> 'bm command) list)" for h info
    by (simp add: basic_commands_def)
  then show ?thesis unfolding surface_def command_table_def method_table_def map_append by metis
qed

text \<open>
  COMMAND tells the truth.  Sent without arguments to a connection without subscriptions, it is answered
  by one row for every command the dispatcher knows, in order, and COUNT by their number; and the arity in the
  row of a command is honest: a request the dispatcher lets through has exactly that many words when it is
  positive, and at least that many without the sign when it is negative, where it is the least number accepted.
\<close>

theorem COMMAND_correct:
  shows "snd (COMMAND (surface P) ev [] s) =
      Inr (RList (map (\<lambda>(name, c). command_row (name, method_arity c)) (command_table P)))
    \<and> map_of (command_table P) ''COMMAND'' = Some (sig_x (COMMAND (surface P)))
    \<and> snd (COMMAND (surface P) ev [''count''] s) = Inr (RInt (int (length (command_table P))))
    \<and> (\<forall>name c n. map_of (command_table P) name = Some c \<longrightarrow> arity_ok c n \<longrightarrow>
         (0 < method_arity c \<longrightarrow> int n + 1 = method_arity c)
         \<and> (method_arity c < 0 \<longrightarrow> - method_arity c \<le> int n + 1 \<and> arity_ok c (nat (- method_arity c) - 1)))"
proof (intro conjI allI impI)
  have up: "upper ''count'' = ''COUNT''" by code_simp
  have rows: "map (\<lambda>(name, c). command_row (name, method_arity c)) (command_table P) = map command_row (surface P)"
    unfolding surface_table [symmetric] by (simp add: case_prod_unfold)
  show "snd (COMMAND (surface P) ev [] s) =
      Inr (RList (map (\<lambda>(name, c). command_row (name, method_arity c)) (command_table P)))"
    by (simp add: COMMAND_def rows)
  have "length (surface P) = length (command_table P)" using arg_cong [OF surface_table, of length P] by simp
  then show "snd (COMMAND (surface P) ev [''count''] s) = Inr (RInt (int (length (command_table P))))"
    by (simp add: COMMAND_def up)
  show "map_of (command_table P) ''COMMAND'' = Some (sig_x (COMMAND (surface P)))"
    by (simp add: command_table_def method_table_def basic_commands_def)
  fix name c n
  assume "arity_ok c n"
  then show "0 < method_arity c \<Longrightarrow> int n + 1 = method_arity c"
    "method_arity c < 0 \<Longrightarrow> - method_arity c \<le> int n + 1"
    "method_arity c < 0 \<Longrightarrow> arity_ok c (nat (- method_arity c) - 1)"
    by (auto simp: arity_ok_def method_arity_def split: if_splits option.splits)
qed

theorem COMMAND_correct_witness:
  "method_arity (sig_b GET :: nat list command) = 2"
proof -
  have m: "map_of (command_table demo_platform) ''GET'' = Some (sig_b GET)"
    by (simp add: command_table_def method_table_def basic_commands_def)
  have a: "arity_ok (sig_b GET :: nat list command) 1" "0 < method_arity (sig_b GET :: nat list command)"
    by (simp_all add: arity_ok_def sig_b_def method_arity_def)
  have "int 1 + 1 = method_arity (sig_b GET :: nat list command)"
    using COMMAND_correct [of demo_platform demo_env Commands] m a by blast
  then show ?thesis by simp
qed

end
