(* ===== verification/Serving.thy ===== *)
theory Serving
  imports CommandTable
begin

text \<open>
  The connections of the asyncio backend, \<open>server_asyncio.py\<close>: each has a reader for its byte stream and
  a session; the bytes written to its transport are the \<open>sent\<close> frames of the session.  A step of the
  server opens a connection, handles a chunk of bytes from one, or loses one; an \<open>env\<close> is chosen anew for
  every chunk.  Flow control (\<^verbatim>\<open>_maybe_pause_reading\<close> and the limit on the backlog of a subscriber) is
  the subject of \<open>FlowControl\<close>.

  A message counts as a request when it is an array of bulk strings; other values than arrays are
  ignored by \<^verbatim>\<open>dispatch\<close>, as an empty request is.  Arrays that hold anything but bulk strings are outside
  the model (\<open>None\<close>).
\<close>

section \<open>Requests\<close>

fun bulk_args :: "msg list \<Rightarrow> bytes list option" where
  "bulk_args [] = Some []"
| "bulk_args (MBytes b # rest) = map_option (\<lambda>bs. b # bs) (bulk_args rest)"
| "bulk_args (_ # rest) = None"

fun as_request :: "msg \<Rightarrow> bytes list option" where
  "as_request (MList items) = bulk_args items"
| "as_request _ = Some []"

fun as_requests :: "msg list \<Rightarrow> bytes list list option" where
  "as_requests [] = Some []"
| "as_requests (m # ms) =
     (case as_request m of None \<Rightarrow> None | Some r \<Rightarrow> map_option (\<lambda>rs. r # rs) (as_requests ms))"

section \<open>One connection\<close>

definition transport_write :: "sid \<Rightarrow> bytes \<Rightarrow> 'bm server \<Rightarrow> 'bm server" where
  "transport_write sid frame s = upd_session sid (\<lambda>ss. ss\<lparr>sent := sent ss @ [frame]\<rparr>) s"

fun serve :: "'bm platform \<Rightarrow> env \<Rightarrow> sid \<Rightarrow> bytes list list \<Rightarrow> 'bm server \<Rightarrow> ('bm server, exn, unit) result" where
  "serve P ev sid [] s = returns s ()"
| "serve P ev sid (request # rest) s =
     bindR (dispatch (command_table P) ev request (Some sid) s) (\<lambda>s reply.
       serve P ev sid rest (case reply of None \<Rightarrow> s | Some frame \<Rightarrow> transport_write sid frame s))"

record 'bm world =
  commands :: "'bm server"
  readers :: "sid \<Rightarrow> reader"
  closing :: "sid \<Rightarrow> bool"

definition start :: "'bm world" where
  "start = \<lparr>commands = Commands, readers = (\<lambda>_. RESPReader), closing = (\<lambda>_. False)\<rparr>"

definition connection_made :: "sid \<Rightarrow> 'bm world \<Rightarrow> 'bm world" where
  "connection_made sid w =
     w\<lparr>commands := connect sid (commands w), readers := (readers w)(sid := RESPReader)\<rparr>"

definition data_received :: "'bm platform \<Rightarrow> env \<Rightarrow> sid \<Rightarrow> bytes \<Rightarrow> 'bm world \<Rightarrow> ('bm world \<times> (exn + unit)) option" where
  "data_received P ev sid chunk w =
     (case feed_python (readers w sid) chunk of
        (r, Inl e) \<Rightarrow>
          Some (w\<lparr>readers := (readers w)(sid := r),
                  commands := transport_write sid (''-ERR Protocol error: '' @ e @ SYM_CRLF) (commands w),
                  closing := (closing w)(sid := True)\<rparr>, Inr ())
      | (r, Inr messages) \<Rightarrow>
          (case as_requests messages of
             None \<Rightarrow> None
           | Some requests \<Rightarrow>
               (case serve P ev sid requests (commands w) of
                  (s, result) \<Rightarrow> Some (w\<lparr>readers := (readers w)(sid := r), commands := s\<rparr>, result))))"

definition connection_lost :: "sid \<Rightarrow> 'bm world \<Rightarrow> 'bm world" where
  "connection_lost sid w = w\<lparr>commands := disconnect sid (commands w)\<rparr>"

section \<open>The server\<close>

definition connected :: "sid \<Rightarrow> 'bm world \<Rightarrow> bool" where
  "connected sid w \<longleftrightarrow> sender (sessions (commands w) sid) = Some Transport"

inductive server_step :: "'bm platform \<Rightarrow> 'bm world \<Rightarrow> 'bm world \<Rightarrow> bool" for P where
  made: "sessions (commands w) sid = Session \<Longrightarrow> server_step P w (connection_made sid w)"
| received: "connected sid w \<Longrightarrow> \<not> closing w sid \<Longrightarrow> env_ok ev \<Longrightarrow> data_received P ev sid chunk w = Some (w', r) \<Longrightarrow>
    server_step P w w'"
| lost: "connected sid w \<Longrightarrow> server_step P w (connection_lost sid w)"

inductive reachable :: "'bm platform \<Rightarrow> 'bm world \<Rightarrow> bool" for P where
  start: "reachable P start"
| step: "reachable P w \<Longrightarrow> server_step P w w' \<Longrightarrow> reachable P w'"

inductive_cases server_stepE: "server_step P w w'"

section \<open>The invariant of the server\<close>

lemma hub_ok_session_cong:
  assumes "hub_ok s" "channels ss' = channels (sessions s sid)" "patterns ss' = patterns (sessions s sid)"
    "sender ss' = sender (sessions s sid)"
  shows "hub_ok (s\<lparr>sessions := (sessions s)(sid := ss')\<rparr>)"
  using assms by (auto simp: hub_ok_def intro!: table_ok_same)

lemma system_ok_write: "system_ok table s \<Longrightarrow> system_ok table (transport_write sid frame s)"
  by (auto simp: system_ok_def transport_write_def upd_session_def session_ok_def intro!: hub_ok_session_cong)

lemma system_ok_Commands: "system_ok table Commands"
  by (simp add: system_ok_def session_ok_def Session_def) (simp add: Commands_def Session_def)

lemma system_ok_connect:
  assumes "system_ok table s" "sessions s sid = Session"
  shows "system_ok table (connect sid s)"
  using assms hub_ok_connect [of s sid] by (simp add: system_ok_def session_ok_def connect_def Session_def)

lemma system_ok_disconnect: "system_ok table s \<Longrightarrow> system_ok table (disconnect sid s)"
  using hub_ok_disconnect [of s sid]
  by (auto simp: system_ok_def session_ok_def disconnect_def upd_session_def upd_hub_def)

text \<open>A connection stays connected while its requests are handled, and none of them is left unanswered.\<close>

lemma serve_system_ok:
  assumes "env_ok ev" "system_ok (command_table P) s" "sender (sessions s sid) = Some Transport"
  shows "system_ok (command_table P) (fst (serve P ev sid requests s)) \<and> snd (serve P ev sid requests s) = Inr ()
    \<and> (\<forall>x. sender (sessions (fst (serve P ev sid requests s)) x) = sender (sessions s x))
    \<and> (\<forall>x. prefix (sent (sessions s x)) (sent (sessions (fst (serve P ev sid requests s)) x)))
    \<and> length (sent (sessions s sid)) + length (filter (\<lambda>r. r \<noteq> []) requests)
        \<le> length (sent (sessions (fst (serve P ev sid requests s)) sid))"
  using assms(2,3)
proof (induction requests arbitrary: s)
  case (Cons request rest)
  obtain s1 reply where d: "dispatch (command_table P) ev request (Some sid) s = (s1, Inr reply)"
    and ok: "system_ok (command_table P) s1"
    using commands.dispatch_system_ok [OF assms(1) Cons.prems(1), of sid request] Cons.prems(2)
    by (cases "dispatch (command_table P) ev request (Some sid) s") auto
  have lasts: "sender (sessions s1 x) = sender (sessions s x)" "prefix (sent (sessions s x)) (sent (sessions s1 x))" for x
    using commands.lasting_dispatch [OF assms(1) Cons.prems, of request] d by (simp_all add: lasting_def)
  let ?s2 = "case reply of None \<Rightarrow> s1 | Some frame \<Rightarrow> transport_write sid frame s1"
  have s2: "system_ok (command_table P) ?s2" "sender (sessions ?s2 x) = sender (sessions s x)"
    "prefix (sent (sessions s x)) (sent (sessions ?s2 x))" for x
    using ok lasts
    by (auto simp: system_ok_write split: option.split) (auto simp: transport_write_def upd_session_def lasts)
  have answered: "length (sent (sessions s sid)) < length (sent (sessions ?s2 sid))" if "request \<noteq> []"
    using commands.dispatch_answers [OF assms(1) Cons.prems(1) _ that, of sid s1] d Cons.prems(2)
      prefix_length_le [OF lasts(2) [of sid]] lasts(1) [of sid]
    by (auto simp: returns_def received_def transport_write_def upd_session_def split: option.split)
  have serve: "serve P ev sid (request # rest) s = serve P ev sid rest ?s2" using d by simp
  have IH: "length (sent (sessions ?s2 sid)) + length (filter (\<lambda>r. r \<noteq> []) rest)
      \<le> length (sent (sessions (fst (serve P ev sid rest ?s2)) sid))"
    and IH': "system_ok (command_table P) (fst (serve P ev sid rest ?s2))" "snd (serve P ev sid rest ?s2) = Inr ()"
      "sender (sessions (fst (serve P ev sid rest ?s2)) x) = sender (sessions ?s2 x)"
      "prefix (sent (sessions ?s2 x)) (sent (sessions (fst (serve P ev sid rest ?s2)) x))" for x
    using Cons.IH [of ?s2] s2(1,2) Cons.prems(2) by auto
  have "length (sent (sessions s sid)) + length (filter (\<lambda>r. r \<noteq> []) (request # rest))
      \<le> length (sent (sessions (fst (serve P ev sid rest ?s2)) sid))"
    using IH answered prefix_length_le [OF s2(3) [of sid]] by (cases "request = []") auto
  moreover have "prefix (sent (sessions s x)) (sent (sessions (fst (serve P ev sid rest ?s2)) x))" for x
    using s2(3) IH'(4) by (rule prefix_order.trans)
  ultimately show ?case unfolding serve using IH'(1,2,3) s2(2) by simp
qed simp

lemma data_received_ok:
  assumes "env_ok ev" "system_ok (command_table P) (commands w)" "connected sid w"
    and "data_received P ev sid chunk w = Some (w', r)"
  shows "system_ok (command_table P) (commands w') \<and> r = Inr ()"
  using assms(4) serve_system_ok [OF assms(1,2), of sid] assms(3) system_ok_write [OF assms(2)]
  by (auto simp: data_received_def connected_def split: prod.splits sum.splits option.splits) (metis fst_conv snd_conv)+

lemma step_ok: "server_step P w w' \<Longrightarrow> system_ok (command_table P) (commands w) \<Longrightarrow> system_ok (command_table P) (commands w')"
  by (erule server_stepE)
    (auto simp: connection_made_def connection_lost_def system_ok_connect system_ok_disconnect dest: data_received_ok)

lemma reachable_ok: "reachable P w \<Longrightarrow> system_ok (command_table P) (commands w)"
  by (induction rule: reachable.induct) (auto simp: start_def system_ok_Commands intro: step_ok)

section \<open>Chunks\<close>





lemma data_received_Inr:
  assumes "feed_python (readers w sid) chunk = (r, Inr ms)"
  shows "data_received P ev sid chunk w =
    (case as_requests ms of
       None \<Rightarrow> None
     | Some rs \<Rightarrow>
         Some (w\<lparr>readers := (readers w)(sid := r), commands := fst (serve P ev sid rs (commands w))\<rparr>,
           snd (serve P ev sid rs (commands w))))"
  by (simp add: data_received_def assms case_prod_unfold split: option.split)




section \<open>Encoded requests\<close>

definition encode_request :: "bytes list \<Rightarrow> bytes" where
  "encode_request request = protocolBuilder (RList (map RBytes request))"

lemma show_nat_buffer: "n \<le> MAX_BUFFER \<Longrightarrow> length (show_nat n) \<le> MAX_STR_DIGITS"
  using show_nat_short [of n 8] by (simp add: MAX_BUFFER_def MAX_STR_DIGITS_def)

lemma encode_request_length: "length request + sum_list (map length request) \<le> length (encode_request request)"
proof -
  have b: "Suc (length b) \<le> length (protocolBuilder (RBytes b))" for b by (simp add: protocolBuilder_lines)
  have "length request + sum_list (map length request) \<le> length (concat (map protocolBuilder (map RBytes request)))"
  proof (induction request)
    case (Cons a request)
    then show ?case using b [of a] by simp
  qed simp
  then show ?thesis by (simp add: encode_request_def protocolBuilder_list)
qed

lemma encode_request_wire_ok:
  assumes "length (encode_request request) \<le> MAX_BUFFER"
  shows "wire_ok (RList (map RBytes request))"
proof -
  have "length b \<le> MAX_BUFFER" if "b \<in> set request" for b
    using assms encode_request_length [of request] member_le_sum_list [of "length b" "map length request"] that by auto
  then show ?thesis
    using assms encode_request_length [of request] by (auto simp: list_all_iff show_nat_buffer)
qed

lemma as_requests_decoded: "as_requests (map (\<lambda>r. decoded (RList (map RBytes r))) requests) = Some requests"
proof -
  have "bulk_args (map (decoded \<circ> RBytes) r) = Some r" for r by (induction r) simp_all
  then show ?thesis by (induction requests) (simp_all add: comp_def)
qed

lemma feed_requests:
  assumes "r = RESPReader" "length (concat (map encode_request requests)) \<le> MAX_BUFFER"
  shows "feed_python r (concat (map encode_request requests)) =
    (RESPReader, Inr (map (\<lambda>r. decoded (RList (map RBytes r))) requests))"
proof -
  have "length (encode_request r) \<le> MAX_BUFFER" if "r \<in> set requests" for r
    using assms(2) member_le_sum_list [of "length (encode_request r)" "map (length \<circ> encode_request) requests"] that
    by (auto simp: length_concat)
  then have "list_all wire_ok (map (\<lambda>r. RList (map RBytes r)) requests)"
    by (auto simp: list_all_iff simp del: wire_ok.simps intro!: encode_request_wire_ok)
  from drain_messages [OF this] have "drain (concat (map encode_request requests)) =
      ([], Inr (map (\<lambda>r. decoded (RList (map RBytes r))) requests))"
    by (simp add: encode_request_def [abs_def] comp_def del: decoded.simps)
  then show ?thesis using assms by (simp add: feed_python_drain RESPReader_def del: decoded.simps)
qed

lemma data_received_requests:
  assumes "readers w sid = RESPReader" "length (concat (map encode_request requests)) \<le> MAX_BUFFER"
  shows "data_received P ev sid (concat (map encode_request requests)) w =
    Some (w\<lparr>readers := (readers w)(sid := RESPReader), commands := fst (serve P ev sid requests (commands w))\<rparr>,
      snd (serve P ev sid requests (commands w)))"
  using feed_requests [OF assms] by (simp add: data_received_Inr as_requests_decoded del: decoded.simps)

section \<open>Properties\<close>


lemma reachable_connected: "reachable P (connection_made sid start) \<and> connected sid (connection_made sid start)"
proof -
  have "server_step P start (connection_made sid start)" by (rule server_step.made) (simp add: start_def Commands_def)
  then have "reachable P (connection_made sid start)" by (rule reachable.step [OF reachable.start])
  then show ?thesis by (simp add: connected_def connection_made_def connect_def)
qed




text \<open>
  C17: every request is served and answered.  When a connection of a reachable server sends requests,
  none of them empty, all of them are executed, one after the other, and the connection gets at least one
  frame for each; no frame already written to any connection is taken back.
\<close>

theorem every_request_answered:
  assumes "reachable P w" "connected sid w" "env_ok ev" "readers w sid = RESPReader"
    and "length (concat (map encode_request requests)) \<le> MAX_BUFFER" "[] \<notin> set requests"
  shows "\<exists>w'. data_received P ev sid (concat (map encode_request requests)) w = Some (w', Inr ())
    \<and> serve P ev sid requests (commands w) = returns (commands w') ()
    \<and> length (sent (sessions (commands w) sid)) + length requests \<le> length (sent (sessions (commands w') sid))
    \<and> (\<forall>x. prefix (sent (sessions (commands w) x)) (sent (sessions (commands w') x)))"
proof -
  have ok: "system_ok (command_table P) (commands w)" using assms(1) by (rule reachable_ok)
  have "filter (\<lambda>r. r \<noteq> []) requests = requests" using assms(6) by (induction requests) auto
  then show ?thesis
    using serve_system_ok [OF assms(3) ok, of sid requests] assms(2)
    by (auto simp: data_received_requests [OF assms(4,5)] connected_def returns_def prod_eq_iff)
qed

theorem every_request_answered_witness:
  "\<exists>w' :: nat list world. data_received demo_platform demo_env 4 (concat (map encode_request [[''PING''], [''SET'', ''k'', ''v'']]))
      (connection_made 4 start) = Some (w', Inr ())
    \<and> 2 \<le> length (sent (sessions (commands w') 4))"
proof -
  have r: "readers (connection_made 4 start :: nat list world) 4 = RESPReader" by (simp add: connection_made_def)
  have "length (concat (map encode_request [[''PING''], [''SET'', ''k'', ''v'']])) \<le> MAX_BUFFER"
    by (simp add: encode_request_def protocolBuilder_lines SYM_CRLF_def show_nat.simps MAX_BUFFER_def)
  from every_request_answered [OF _ _ env_ok_demo r this] show ?thesis
    using reachable_connected [where P = demo_platform] by fastforce
qed

text \<open>
  C18: a connection that holds a subscription can only change its subscriptions and send \<^verbatim>\<open>PING\<close>: every
  other request outside a transaction is answered by an error frame, and the server is left exactly as it was.
\<close>

theorem subscribed_gate:
  assumes "subscribed (sessions s sid)" "\<not> in_multi (sessions s sid)"
    and "request \<noteq> []" "command_name request \<notin> set ALLOWED_WHILE_SUBSCRIBED"
  shows "\<exists>message. dispatch (command_table P) ev request (Some sid) s = returns s (Some message)
    \<and> hd message = CHR ''-''"
proof -
  have e: "hd (RError_frame e) = CHR ''-''" for e
    by (cases e) (simp add: RError_frame_def protocolBuilder_def error_line_def)
  have "\<exists>message. dispatch_direct (command_table P) ev request (Some sid) False s = (s, Some message)
    \<and> hd message = CHR ''-''"
    using assms(1,4)
    by (simp add: dispatch_direct_def Let_def run_handler_def is_subscribed_def e gate_error_def unknown_command_frame_def
        split: option.split)
  then show ?thesis using assms(2,3) by (auto simp: dispatch_def)
qed

theorem subscribed_gate_witness:
  "\<exists>message. dispatch (command_table demo_platform) demo_env [''get'', ''k''] (Some 7) demo_hub = returns demo_hub (Some message)"
proof -
  have "subscribed (sessions demo_hub 7)" by (simp add: subscribed_def demo_hub_props)
  moreover have "\<not> in_multi (sessions demo_hub 7)"
    by (simp add: demo_hub_def psubscribe_one_def subscribe_one_def Let_def upd_session_def upd_hub_def frame_simps
        connect_def Session_def)
  moreover have "command_name [''get'', ''k''] = ''GET''" by code_simp
  ultimately show ?thesis
    using subscribed_gate [of demo_hub 7 "[''get'', ''k'']" demo_platform demo_env] by (auto simp: ALLOWED_WHILE_SUBSCRIBED_def)
qed

end
