(* ===== verification/Transactions.thy ===== *)
theory Transactions
  imports Serving
begin

text \<open>
  What a client can rely on between \<^verbatim>\<open>WATCH\<close>, \<^verbatim>\<open>MULTI\<close> and \<^verbatim>\<open>EXEC\<close>, over the dispatcher and the
  whole command table.
\<close>

section \<open>The replies of a transaction\<close>

definition closed_transaction :: "sid \<Rightarrow> 'bm server \<Rightarrow> 'bm server" where
  "closed_transaction sid s = upd_session sid (\<lambda>ss. ss\<lparr>queue := [], in_multi := False, watched := []\<rparr>) s"

lemma watch_dirty_iff:
  "watch_dirty ev sid s \<longleftrightarrow>
     (\<exists>key g l. (key, g, l) \<in> set (watched (sessions s sid))
        \<and> (data_generation (data s) key \<noteq> g \<or> data_is_live ev (data s) key \<noteq> l))"
  by (auto simp: watch_dirty_def list_ex_iff)

lemma dispatch_exec:
  "in_multi (sessions s sid) \<Longrightarrow>
     dispatch (command_table P) ev [''EXEC''] (Some sid) s = exec_queued (command_table P) ev sid s"
proof -
  have "command_name [''EXEC''] = ''EXEC''" by code_simp
  then show "in_multi (sessions s sid) \<Longrightarrow>
     dispatch (command_table P) ev [''EXEC''] (Some sid) s = exec_queued (command_table P) ev sid s"
    by (simp add: dispatch_def dispatch_queued_def)
qed

text \<open>
  C19: \<^verbatim>\<open>EXEC\<close>.  In any state the server can reach, the transaction of a connection is closed.  When a
  watched key was written or appeared or vanished since it was watched, the reply is a null array and
  nothing else changes.  Otherwise the queued commands run in order and the reply is one array frame with
  exactly one answer for every queued command, followed by the other frames they pushed.
\<close>

theorem EXEC_correct:
  fixes w :: "'bm world"
  assumes "reachable P w" "connected sid w" "env_ok ev" "in_multi (sessions (commands w) sid)"
  shows "if \<exists>key g l. (key, g, l) \<in> set (watched (sessions (commands w) sid))
        \<and> (data_generation (data (commands w)) key \<noteq> g \<or> data_is_live ev (data (commands w)) key \<noteq> l)
    then dispatch (command_table P) ev [''EXEC''] (Some sid) (commands w)
        = returns (closed_transaction sid (commands w)) (Some (protocolBuilder (RResponse NIL_ARRAY)))
    else \<exists>s parts trailing.
        replay (command_table P) ev sid (Some Transport) (queue (sessions (commands w) sid))
            (closed_transaction sid (commands w)) = (s, map Some parts, trailing)
        \<and> length parts = length (queue (sessions (commands w) sid))
        \<and> dispatch (command_table P) ev [''EXEC''] (Some sid) (commands w)
            = returns s (Some (''*'' @ show_int (int (length parts)) @ SYM_CRLF @ concat parts @ concat trailing))
        \<and> \<not> in_multi (sessions s sid) \<and> queue (sessions s sid) = []"
proof -
  have ok: "system_ok (command_table P) (commands w)" using assms(1) by (rule reachable_ok)
  have snd: "sender (sessions (commands w) sid) = Some Transport" using assms(2) by (simp add: connected_def)
  let ?q = "queue (sessions (commands w) sid)"
  let ?s1 = "closed_transaction sid (commands w)"
  note eq = commands.exec_queued_eq [OF assms(3) ok snd, folded closed_transaction_def]
  obtain s parts trailing where r: "replay (command_table P) ev sid (Some Transport) ?q ?s1 = (s, parts, trailing)"
    by (cases "replay (command_table P) ev sid (Some Transport) ?q ?s1")
  have "list_all (queueable (command_table P)) ?q" using ok by (simp add: system_ok_def session_ok_def)
  moreover have "sender (sessions ?s1 sid) = Some Transport" using snd by (simp add: closed_transaction_def upd_session_def)
  ultimately have c: "calm ?s1 s" "length parts = length ?q" "None \<notin> set parts"
    using commands.replay_calm [OF assms(3), of P ?q ?s1 sid Transport] r by simp_all
  have "map (Some \<circ> the) parts = parts" using c(3) by (induction parts) auto
  then have p: "parts = map Some (map the parts)" by simp
  have idle: "\<not> in_multi (sessions s sid) \<and> queue (sessions s sid) = []"
    using c(1) by (simp add: calm_def closed_transaction_def upd_session_def)
  show ?thesis unfolding watch_dirty_iff [symmetric] dispatch_exec [of "commands w", OF assms(4)]
    using eq(1) r c(2) idle p by (auto intro!: exI [of _ "map the parts"])
qed

text \<open>A server on which connection 4 has queued a \<^verbatim>\<open>PING\<close>.\<close>

definition demo_transaction :: "nat list world" where
  "demo_transaction = fst (the (data_received demo_platform demo_env 4 (concat (map encode_request [[''MULTI''], [''PING'']]))
     (connection_made 4 start)))"

lemma demo_transaction_props:
  "reachable demo_platform demo_transaction" "connected 4 demo_transaction"
  "in_multi (sessions (commands demo_transaction) 4)" "queue (sessions (commands demo_transaction) 4) = [[''PING'']]"
  "watched (sessions (commands demo_transaction) 4) = []"
proof -
  let ?w = "connection_made 4 start :: nat list world"
  let ?rs = "[[''MULTI''], [''PING'']]"
  have r: "readers ?w 4 = RESPReader" "\<not> closing ?w 4" by (simp_all add: connection_made_def start_def)
  have len: "length (concat (map encode_request ?rs)) \<le> MAX_BUFFER"
    by (simp add: encode_request_def protocolBuilder_lines SYM_CRLF_def show_nat.simps MAX_BUFFER_def)
  note d = data_received_requests [OF r(1) len, of demo_platform demo_env]
  have D: "data_received demo_platform demo_env 4 (concat (map encode_request ?rs)) ?w =
      Some (demo_transaction, snd (serve demo_platform demo_env 4 ?rs (commands ?w)))"
    unfolding demo_transaction_def d by simp
  then have "server_step demo_platform ?w demo_transaction"
    using server_step.received [of 4 ?w demo_env demo_platform "concat (map encode_request ?rs)" demo_transaction] reachable_connected r(2)
      env_ok_demo by blast
  then show "reachable demo_platform demo_transaction" using reachable.step reachable_connected [where P = demo_platform] by blast
  have c: "commands demo_transaction = fst (serve demo_platform demo_env 4 ?rs (connect 4 Commands))"
    unfolding demo_transaction_def d by (simp add: connection_made_def start_def)
  have n: "command_name [''MULTI''] = ''MULTI''" "command_name [''PING''] = ''PING''" by code_simp+
  have P: "map_of (command_table demo_platform) ''PING'' = Some (sig_ob (\<lambda>ev. PING) :: nat list command)"
    by (simp add: command_table_def method_table_def basic_commands_def)
  have "commands demo_transaction = upd_session 4 (\<lambda>ss. ss\<lparr>in_multi := True, queue := [[''PING'']],
      sent := [protocolBuilder (RResponse OK), protocolBuilder (RResponse QUEUED)]\<rparr>) (connect 4 Commands)"
    unfolding c
    by (simp add: dispatch_def dispatch_direct_def dispatch_queued_def n P is_subscribed_def connect_def
        subscribed_def Session_def transport_write_def upd_session_def Commands_def arity_ok_def sig_ob_def)
  then show "connected 4 demo_transaction" "in_multi (sessions (commands demo_transaction) 4)"
    "queue (sessions (commands demo_transaction) 4) = [[''PING'']]"
    "watched (sessions (commands demo_transaction) 4) = []"
    by (simp_all add: connected_def upd_session_def connect_def Session_def)
qed

theorem EXEC_correct_witness:
  "\<exists>s answers. dispatch (command_table demo_platform) demo_env [''EXEC''] (Some 4) (commands demo_transaction)
     = returns s (Some (''*1'' @ SYM_CRLF @ answers))
     \<and> queue (sessions s 4) = []"
proof -
  have "show_int (int (Suc 0)) = ''1''" by code_simp
  then show ?thesis
    using EXEC_correct [OF demo_transaction_props(1,2) env_ok_demo demo_transaction_props(3)]
    by (auto simp: demo_transaction_props(4,5) length_Suc_conv)
qed

text \<open>
  C20: what watching misses.  A flush clears the write counters, so they start again: when a watched key
  that had been written once is flushed and set again, to any value, the transaction that watches it is
  not aborted, although the key was deleted and replaced.
\<close>

theorem watch_misses_flush:
  assumes "watched (sessions s sid) = [(key, 1, True)]" "int (length v) \<le> MAX_STRING_SIZE"
  shows "\<not> watch_dirty ev sid (fst (SET ev key v [] (fst (FLUSHALL s))))
    \<and> view ev (fst (SET ev key v [] (fst (FLUSHALL s)))) key = Some (VStr v, None)"
proof -
  let ?f = "fst (FLUSHALL s)"
  have p: "parse_extended_options ''set'' [] = Inr ({}, None, None)"
    by (simp add: parse_extended_options_def)
  have d: "option_deadline ev ''set'' None None = Inr None" by (simp add: option_deadline_def)
  have set: "fst (SET ev key v [] ?f) = after_write key ''set'' (upd_data (data_set ev key (VStr v) None False) ?f)"
    using assms(2) by (simp add: SET_def p d)
  have "quiet s ?f" unfolding FLUSHALL_def by (rule safe_quiet [OF safe_flush_all])
  then have "quiet s (fst (SET ev key v [] ?f))"
    unfolding set by (intro quiet_trans [OF _ quiet_after_write] quiet_trans [OF _ quiet_upd_data])
  then have "watched (sessions (fst (SET ev key v [] ?f)) sid) = [(key, 1, True)]"
    using assms(1) by (simp add: quiet_def standing_def)
  moreover have "data_generation (data (fst (SET ev key v [] ?f))) key = 1"
    unfolding set by (simp add: generation_touch FLUSHALL_def flush_all_def Let_def generation_cong [OF generations_frame(8)] generation_clear)
  moreover have "view ev (fst (SET ev key v [] ?f)) key = Some (VStr v, None)"
    unfolding set by (simp add: view_simps)
  ultimately show ?thesis by (simp add: watch_dirty_def is_live_peek view_def)
qed

theorem watch_misses_flush_witness:
  "\<not> watch_dirty demo_env 4 (fst (SET demo_env ''k'' ''new'' [] (fst (FLUSHALL
      (fst (WATCH demo_env [''k''] ((fst (SET demo_env ''k'' ''old'' [] Commands))\<lparr>cur_session := Some 4\<rparr>)) :: nat list server)))))"
proof -
  let ?s = "fst (WATCH demo_env [''k''] ((fst (SET demo_env ''k'' ''old'' [] Commands))\<lparr>cur_session := Some 4\<rparr>)) :: nat list server"
  have "watched (sessions ?s 4) = [(''k'', 1, True)]"
    by (simp add: WATCH_def session_of_def watch_one_def upd_session_def SET_def parse_extended_options_def
        option_deadline_def Commands_def after_write_def upd_data_def data_set_def data_touch_def notify_def
        Session_def data_generation_def data_is_live_def Data_def live_def MAX_STRING_SIZE_def data_contains_def)
  from watch_misses_flush [OF this, of "''new''" demo_env] show ?thesis by (simp add: MAX_STRING_SIZE_def)
qed

end
