(* ===== verification/TrioServing.thy ===== *)
theory TrioServing
  imports Serving
begin

text \<open>
  The connections of the trio backend, \<open>server_trio.py\<close>.  A connection is two tasks: the read task of
  \<^verbatim>\<open>protocol_handler\<close>, which parses, dispatches and sends replies, and \<^verbatim>\<open>_pubsub_writer\<close>, which drains
  the memory channel that pushed frames and the replies of a subscribed connection go through.  Tasks of
  trio run until they wait, so a step of the model is what one task does between two waits: for the read
  task, whole requests; a lock, an event, a full channel and a socket are the places where it waits.

  The frames pushed to a session by any connection are the growth of its \<open>sent\<close> list: \<open>spread\<close> hands them
  to \<^verbatim>\<open>push_frame\<close> of every connection.  \<^verbatim>\<open>trio.Event\<close> has had no \<^verbatim>\<open>clear\<close> since trio 0.15; whether it has one
  is the argument \<open>clears\<close>, and the call ends the connection when it has not.

  The handler of a connection returns when both tasks have: the nursery around the read loop waits for the writer, and
  only then does the session leave the hub.  At the end of the stream nothing closes the channel that the writer waits for.
  After a protocol error the channel is closed; the session leaves the hub at once here, in the code when the writer has
  drained the channel.
\<close>

section \<open>A connection\<close>

datatype item = Push bytes | Reply bytes

text \<open>A writer whose send failed, the peer being gone, has returned with its item.\<close>

datatype writer_task = Waiting | Holding item | Writing item | Failed item

text \<open>
  Where the read task waits: for bytes, to go on with the requests of a chunk, for the event before a direct
  send, for the lock, in the direct send, and for room in the channel.  A direct send in the middle of a
  chunk is followed by the reply that goes through the channel, and the requests behind it.  A task that has seen the end
  of the stream, or whose send failed with these replies, has returned.
\<close>

type_synonym after_send = "(bytes \<times> bytes list list) option"

datatype read_task =
    Receiving
  | Handling "bytes list list"
  | Flushing "bytes list" after_send
  | Locking "bytes list" after_send
  | Sending "bytes list" after_send
  | Queueing bytes "bytes list list"
  | Ended "bytes list"

datatype owner = ReadTask | WriteTask

text \<open>\<open>wire\<close> is what was written to the socket; \<open>answered\<close> is a history variable: the replies, as dispatched.\<close>

record conn =
  channel :: "item list"
  writer :: writer_task
  task :: read_task
  idle_event :: bool
  send_lock :: "owner option"
  wire :: "item list"
  cancelled :: bool
  answered :: "bytes list"

definition fresh_conn :: conn where
  "fresh_conn = \<lparr>channel = [], writer = Waiting, task = Receiving, idle_event = True, send_lock = None, wire = [],
     cancelled = False, answered = []\<rparr>"

definition PUBSUB_QUEUE :: nat where "PUBSUB_QUEUE = 4096"

text \<open>An item offered to the channel goes straight to the writer when that waits for one.\<close>

definition has_room :: "conn \<Rightarrow> bool" where
  "has_room c \<longleftrightarrow> writer c = Waiting \<or> length (channel c) < PUBSUB_QUEUE"

definition offer :: "item \<Rightarrow> conn \<Rightarrow> conn" where
  "offer x c = (if writer c = Waiting then c\<lparr>writer := Holding x\<rparr> else c\<lparr>channel := channel c @ [x]\<rparr>)"

definition push_frame :: "bytes \<Rightarrow> conn \<Rightarrow> conn" where
  "push_frame frame c =
     (if cancelled c then c else if has_room c then offer (Push frame) c else c\<lparr>cancelled := True\<rparr>)"

definition send_reply :: "bool \<Rightarrow> bytes \<Rightarrow> bytes list list \<Rightarrow> conn \<Rightarrow> conn" where
  "send_reply clears reply requests c =
     (if \<not> clears then c\<lparr>cancelled := True\<rparr>
      else
        let c = c\<lparr>idle_event := False\<rparr>
        in if has_room c then (offer (Reply reply) c)\<lparr>task := Handling requests\<rparr>
           else c\<lparr>task := Queueing reply requests\<rparr>)"

text \<open>The writer has sent its item: it takes the next one, and a read task that waits for room is let in.\<close>

definition next_item :: "conn \<Rightarrow> conn" where
  "next_item c =
     (case channel c of
        [] \<Rightarrow> c\<lparr>writer := Waiting, idle_event := True\<rparr>
      | x # rest \<Rightarrow>
          (case task c of
             Queueing reply requests \<Rightarrow>
               c\<lparr>writer := Holding x, channel := rest @ [Reply reply], task := Handling requests\<rparr>
           | _ \<Rightarrow> c\<lparr>writer := Holding x, channel := rest\<rparr>))"

definition direct_sent :: "bool \<Rightarrow> bytes list \<Rightarrow> after_send \<Rightarrow> conn \<Rightarrow> conn" where
  "direct_sent clears frames k c =
     (let c = c\<lparr>wire := wire c @ map Reply frames, send_lock := None\<rparr>
      in case k of
           None \<Rightarrow> c\<lparr>task := Receiving\<rparr>
         | Some (reply, requests) \<Rightarrow> send_reply clears reply requests c)"

section \<open>The read task at work\<close>

definition spread :: "'bm server \<Rightarrow> 'bm server \<Rightarrow> (sid \<Rightarrow> conn) \<Rightarrow> sid \<Rightarrow> conn" where
  "spread s s' cs x =
     fold push_frame (drop (length (sent (sessions s x))) (sent (sessions s' x))) (cs x)"

text \<open>The requests of a chunk, with the replies kept for one direct send, until the task has to wait.\<close>

fun handle_requests ::
  "'bm platform \<Rightarrow> bool \<Rightarrow> env \<Rightarrow> sid \<Rightarrow> bytes list list \<Rightarrow> bytes list \<Rightarrow> 'bm server \<Rightarrow> (sid \<Rightarrow> conn)
    \<Rightarrow> 'bm server \<times> (sid \<Rightarrow> conn)" where
  "handle_requests P clears ev sid [] direct s cs =
     (s, cs(sid := (cs sid)\<lparr>task := if direct = [] then Receiving else Flushing direct None\<rparr>))"
| "handle_requests P clears ev sid (request # rest) direct s cs =
     (case dispatch (command_table P) ev request (Some sid) s of
        (s', Inl x) \<Rightarrow> (s', (spread s s' cs)(sid := (spread s s' cs sid)\<lparr>cancelled := True\<rparr>))
      | (s', Inr None) \<Rightarrow> handle_requests P clears ev sid rest direct s' (spread s s' cs)
      | (s', Inr (Some reply)) \<Rightarrow>
          let c = spread s s' cs sid; c = c\<lparr>answered := answered c @ [reply]\<rparr>;
              cs = (spread s s' cs)(sid := c)
          in if \<not> subscribed (sessions s' sid) then handle_requests P clears ev sid rest (direct @ [reply]) s' cs
             else if direct = [] then (s', cs(sid := send_reply clears reply rest c))
             else (s', cs(sid := c\<lparr>task := Flushing direct (Some (reply, rest))\<rparr>)))"

section \<open>The server\<close>

record 'bm trio_world =
  tcommands :: "'bm server"
  parsers :: "sid \<Rightarrow> reader"
  conns :: "sid \<Rightarrow> conn"

definition trio_start :: "'bm trio_world" where
  "trio_start = \<lparr>tcommands = Commands, parsers = (\<lambda>_. RESPReader), conns = (\<lambda>_. fresh_conn)\<rparr>"

definition running :: "sid \<Rightarrow> 'bm trio_world \<Rightarrow> bool" where
  "running sid w \<longleftrightarrow> sender (sessions (tcommands w) sid) = Some Transport \<and> \<not> cancelled (conns w sid)"

definition upd_conn :: "sid \<Rightarrow> (conn \<Rightarrow> conn) \<Rightarrow> 'bm trio_world \<Rightarrow> 'bm trio_world" where
  "upd_conn sid f w = w\<lparr>conns := (conns w)(sid := f (conns w sid))\<rparr>"

definition read_requests :: "'bm platform \<Rightarrow> bool \<Rightarrow> env \<Rightarrow> sid \<Rightarrow> bytes list list \<Rightarrow> 'bm trio_world \<Rightarrow> 'bm trio_world" where
  "read_requests P clears ev sid requests w =
     (case handle_requests P clears ev sid requests [] (tcommands w) (conns w) of
        (s, cs) \<Rightarrow> w\<lparr>tcommands := s, conns := cs\<rparr>)"

definition accept_conn :: "sid \<Rightarrow> 'bm trio_world \<Rightarrow> 'bm trio_world" where
  "accept_conn sid w =
     w\<lparr>tcommands := connect sid (tcommands w), parsers := (parsers w)(sid := RESPReader),
       conns := (conns w)(sid := fresh_conn)\<rparr>"

definition close_conn :: "sid \<Rightarrow> 'bm trio_world \<Rightarrow> 'bm trio_world" where
  "close_conn sid w = w\<lparr>tcommands := disconnect sid (tcommands w)\<rparr>"

fun after_reply :: "after_send \<Rightarrow> bytes list" where
  "after_reply None = []"
| "after_reply (Some (reply, requests)) = [reply]"

inductive trio_step :: "'bm platform \<Rightarrow> bool \<Rightarrow> 'bm trio_world \<Rightarrow> 'bm trio_world \<Rightarrow> bool" for P clears where
  accepted: "sessions (tcommands w) sid = Session \<Longrightarrow> trio_step P clears w (accept_conn sid w)"
| received: "running sid w \<Longrightarrow> task (conns w sid) = Receiving \<Longrightarrow> env_ok ev \<Longrightarrow>
    feed_python (parsers w sid) chunk = (r, Inr messages) \<Longrightarrow> as_requests messages = Some requests \<Longrightarrow>
    trio_step P clears w (read_requests P clears ev sid requests (w\<lparr>parsers := (parsers w)(sid := r)\<rparr>))"
| malformed: "running sid w \<Longrightarrow> task (conns w sid) = Receiving \<Longrightarrow>
    feed_python (parsers w sid) chunk = (r, Inl e) \<Longrightarrow> trio_step P clears w (close_conn sid w)"
| resumed: "running sid w \<Longrightarrow> task (conns w sid) = Handling requests \<Longrightarrow> env_ok ev \<Longrightarrow>
    trio_step P clears w (read_requests P clears ev sid requests w)"
| sees_idle: "running sid w \<Longrightarrow> task (conns w sid) = Flushing frames k \<Longrightarrow> idle_event (conns w sid) \<Longrightarrow>
    trio_step P clears w (upd_conn sid (\<lambda>c. c\<lparr>task := Locking frames k\<rparr>) w)"
| read_locks: "running sid w \<Longrightarrow> task (conns w sid) = Locking frames k \<Longrightarrow> send_lock (conns w sid) = None \<Longrightarrow>
    trio_step P clears w (upd_conn sid (\<lambda>c. c\<lparr>task := Sending frames k, send_lock := Some ReadTask\<rparr>) w)"
| read_sent: "running sid w \<Longrightarrow> task (conns w sid) = Sending frames k \<Longrightarrow>
    trio_step P clears w (upd_conn sid (direct_sent clears frames k) w)"
| write_locks: "running sid w \<Longrightarrow> writer (conns w sid) = Holding x \<Longrightarrow> send_lock (conns w sid) = None \<Longrightarrow>
    trio_step P clears w (upd_conn sid (\<lambda>c. c\<lparr>writer := Writing x, send_lock := Some WriteTask\<rparr>) w)"
| write_sent: "running sid w \<Longrightarrow> writer (conns w sid) = Writing x \<Longrightarrow>
    trio_step P clears w (upd_conn sid (\<lambda>c. next_item (c\<lparr>wire := wire c @ [x], send_lock := None\<rparr>)) w)"
| eof: "running sid w \<Longrightarrow> task (conns w sid) = Receiving \<Longrightarrow>
    trio_step P clears w (upd_conn sid (\<lambda>c. c\<lparr>task := Ended []\<rparr>) w)"
| read_reset: "running sid w \<Longrightarrow> task (conns w sid) = Sending frames k \<Longrightarrow>
    trio_step P clears w (upd_conn sid (\<lambda>c. c\<lparr>task := Ended (frames @ after_reply k), send_lock := None\<rparr>) w)"
| write_reset: "running sid w \<Longrightarrow> writer (conns w sid) = Writing x \<Longrightarrow>
    trio_step P clears w (upd_conn sid (\<lambda>c. c\<lparr>writer := Failed x, send_lock := None\<rparr>) w)"
| both_returned: "running sid w \<Longrightarrow> task (conns w sid) = Ended frames \<Longrightarrow> writer (conns w sid) = Failed x \<Longrightarrow>
    trio_step P clears w (close_conn sid w)"
| torn_down: "sender (sessions (tcommands w) sid) = Some Transport \<Longrightarrow> cancelled (conns w sid) \<Longrightarrow>
    trio_step P clears w (close_conn sid w)"

inductive trio_reachable :: "'bm platform \<Rightarrow> bool \<Rightarrow> 'bm trio_world \<Rightarrow> bool" for P clears where
  start: "trio_reachable P clears trio_start"
| step: "trio_reachable P clears w \<Longrightarrow> trio_step P clears w w' \<Longrightarrow> trio_reachable P clears w'"

section \<open>What a connection owes\<close>

fun pushes :: "item list \<Rightarrow> bytes list" where
  "pushes [] = []"
| "pushes (Push f # xs) = f # pushes xs"
| "pushes (Reply f # xs) = pushes xs"

fun replies :: "item list \<Rightarrow> bytes list" where
  "replies [] = []"
| "replies (Push f # xs) = replies xs"
| "replies (Reply f # xs) = f # replies xs"

lemma pushes_append [simp]: "pushes (xs @ ys) = pushes xs @ pushes ys"
  by (induction xs rule: pushes.induct) simp_all

lemma replies_append [simp]: "replies (xs @ ys) = replies xs @ replies ys"
  by (induction xs rule: replies.induct) simp_all

lemma items_map [simp]:
  "pushes (map Push fs) = fs" "replies (map Push fs) = []" "pushes (map Reply fs) = []" "replies (map Reply fs) = fs"
  by (induction fs) simp_all

lemma items_Cons: "pushes (x # xs) = pushes [x] @ pushes xs" "replies (x # xs) = replies [x] @ replies xs"
  by (cases x; simp)+

fun in_hand :: "writer_task \<Rightarrow> item list" where
  "in_hand Waiting = []"
| "in_hand (Holding x) = [x]"
| "in_hand (Writing x) = [x]"
| "in_hand (Failed x) = [x]"

definition in_flight :: "conn \<Rightarrow> item list" where
  "in_flight c = in_hand (writer c) @ channel c"

fun pending :: "read_task \<Rightarrow> bytes list" where
  "pending (Flushing frames k) = frames @ after_reply k"
| "pending (Locking frames k) = frames @ after_reply k"
| "pending (Sending frames k) = frames @ after_reply k"
| "pending (Queueing reply requests) = [reply]"
| "pending (Ended frames) = frames"
| "pending _ = []"

fun past_idle :: "read_task \<Rightarrow> bool" where
  "past_idle (Locking frames k) = True"
| "past_idle (Sending frames k) = True"
| "past_idle _ = False"

fun is_sending :: "read_task \<Rightarrow> bool" where
  "is_sending (Sending frames k) = True"
| "is_sending _ = False"

fun is_queueing :: "read_task \<Rightarrow> bool" where
  "is_queueing (Queueing reply requests) = True"
| "is_queueing _ = False"

fun is_writing :: "writer_task \<Rightarrow> bool" where
  "is_writing (Writing x) = True"
| "is_writing _ = False"

text \<open>The connection against the frames pushed to its session.\<close>

definition conn_ok :: "bytes list \<Rightarrow> conn \<Rightarrow> bool" where
  "conn_ok pushed c \<longleftrightarrow>
     (writer c = Waiting \<longrightarrow> channel c = []) \<and>
     pushes (wire c @ in_flight c) = pushed \<and>
     replies (wire c @ in_flight c) @ pending (task c) = answered c \<and>
     (is_queueing (task c) \<longrightarrow> \<not> idle_event c \<and> channel c \<noteq> []) \<and>
     (idle_event c \<or> past_idle (task c) \<longrightarrow> replies (in_flight c) = []) \<and>
     (send_lock c = Some ReadTask \<longleftrightarrow> is_sending (task c)) \<and>
     (send_lock c = Some WriteTask \<longleftrightarrow> is_writing (writer c))"

section \<open>Steps of a connection\<close>

definition conn_good :: "bytes list \<Rightarrow> conn \<Rightarrow> bool" where
  "conn_good pushed c \<longleftrightarrow> cancelled c \<or> conn_ok pushed c"

lemma in_flight_upd [simp]:
  "in_flight (c\<lparr>task := t\<rparr>) = in_flight c" "in_flight (c\<lparr>idle_event := b\<rparr>) = in_flight c"
  "in_flight (c\<lparr>answered := a\<rparr>) = in_flight c" "in_flight (c\<lparr>wire := u\<rparr>) = in_flight c"
  "in_flight (c\<lparr>send_lock := l\<rparr>) = in_flight c"
  by (simp_all add: in_flight_def)

lemma has_room_offer:
  assumes "writer c = Waiting \<longrightarrow> channel c = []"
  shows "in_flight (offer x c) = in_flight c @ [x]"
    and "writer (offer x c) = Waiting \<longrightarrow> channel (offer x c) = []"
    and "task (offer x c) = task c" "idle_event (offer x c) = idle_event c" "send_lock (offer x c) = send_lock c"
      "wire (offer x c) = wire c" "answered (offer x c) = answered c" "cancelled (offer x c) = cancelled c"
      "is_writing (writer (offer x c)) = is_writing (writer c)" "channel c \<noteq> [] \<Longrightarrow> channel (offer x c) \<noteq> []"
  using assms by (auto simp: offer_def in_flight_def)

lemma no_room: "\<not> has_room c \<Longrightarrow> writer c \<noteq> Waiting \<and> channel c \<noteq> []"
  by (cases "channel c") (auto simp: has_room_def PUBSUB_QUEUE_def)

lemma conn_ok_push:
  assumes "conn_ok ps c"
  shows "conn_ok (ps @ [f]) (offer (Push f) c)"
  using assms has_room_offer [of c "Push f"] by (auto simp: conn_ok_def)

lemma conn_good_push: "conn_good ps c \<Longrightarrow> conn_good (ps @ [f]) (push_frame f c)"
  by (auto simp: conn_good_def push_frame_def conn_ok_push)

lemma conn_good_pushes: "conn_good ps c \<Longrightarrow> conn_good (ps @ fs) (fold push_frame fs c)"
proof (induction fs arbitrary: ps c)
  case (Cons f fs)
  then show ?case using conn_good_push [of ps c f] by fastforce
qed simp

lemma push_frame_task: "(push_frame f c)\<lparr>task := t\<rparr> = push_frame f (c\<lparr>task := t\<rparr>)"
  by (simp add: push_frame_def has_room_def offer_def)

lemma pushes_task: "(fold push_frame fs c)\<lparr>task := t\<rparr> = fold push_frame fs (c\<lparr>task := t\<rparr>)"
  by (induction fs arbitrary: c) (simp_all add: push_frame_task)

lemma conn_good_spread:
  assumes "prefix (sent (sessions s x)) (sent (sessions s' x))"
    and "conn_good (sent (sessions s x)) ((cs x)\<lparr>task := t\<rparr>)"
  shows "conn_good (sent (sessions s' x)) ((spread s s' cs x)\<lparr>task := t\<rparr>)"
proof -
  obtain new where "sent (sessions s' x) = sent (sessions s x) @ new" using assms(1) by (auto simp: prefix_def)
  then show ?thesis using conn_good_pushes [OF assms(2), of new] by (simp add: spread_def pushes_task)
qed

lemma conn_good_send_reply:
  assumes "conn_good ps (c\<lparr>task := Flushing [] None\<rparr>)"
  shows "conn_good ps (send_reply clears reply rest (c\<lparr>answered := answered c @ [reply]\<rparr>))"
proof (cases "cancelled c \<or> \<not> clears")
  case True
  then show ?thesis by (auto simp: send_reply_def conn_good_def Let_def offer_def)
next
  case False
  then have ok: "conn_ok ps (c\<lparr>task := Flushing [] None\<rparr>)" using assms by (simp add: conn_good_def)
  define d where "d = c\<lparr>answered := answered c @ [reply], idle_event := False\<rparr>"
  have d: "wire d = wire c" "in_flight d = in_flight c" "answered d = answered c @ [reply]" "\<not> idle_event d"
    "send_lock d = send_lock c" "writer d = writer c" "channel d = channel c" by (simp_all add: d_def)
  have w: "writer d = Waiting \<longrightarrow> channel d = []" using ok by (simp add: conn_ok_def d)
  note o = has_room_offer [OF w, of "Reply reply"]
  show ?thesis
  proof (cases "has_room d")
    case True
    then have "send_reply clears reply rest (c\<lparr>answered := answered c @ [reply]\<rparr>) =
        (offer (Reply reply) d)\<lparr>task := Handling rest\<rparr>"
      using False by (simp add: send_reply_def Let_def d_def)
    then show ?thesis using ok o(2) by (simp add: conn_good_def conn_ok_def o(1,3-9) d)
  next
    case room: False
    then have "send_reply clears reply rest (c\<lparr>answered := answered c @ [reply]\<rparr>) = d\<lparr>task := Queueing reply rest\<rparr>"
      using False by (simp add: send_reply_def Let_def d_def)
    then show ?thesis using ok no_room [OF room] by (simp add: conn_good_def conn_ok_def d)
  qed
qed

lemma conn_good_direct_sent:
  assumes "conn_good ps c" "task c = Sending frames k"
  shows "conn_good ps (direct_sent clears frames k c)"
proof (cases "cancelled c")
  case True
  then show ?thesis
    by (auto simp: direct_sent_def conn_good_def send_reply_def offer_def Let_def split: option.split)
next
  case False
  let ?c = "c\<lparr>wire := wire c @ map Reply frames, send_lock := None, answered := replies (wire c) @ frames\<rparr>"
  have ok: "conn_ok ps c" using assms(1) False by (simp add: conn_good_def)
  then have "replies (in_flight c) = []" "send_lock c = Some ReadTask" "\<not> is_writing (writer c)"
    using assms(2) by (auto simp: conn_ok_def)
  moreover have "pushes (in_flight c) = pushes (in_flight ?c)" "replies (in_flight c) = replies (in_flight ?c)"
    by (simp_all add: in_flight_def)
  ultimately have base: "conn_ok ps (?c\<lparr>task := Flushing [] None\<rparr>)"
    "answered c = replies (wire c) @ frames @ after_reply k"
    using ok assms(2) by (auto simp: conn_ok_def in_flight_def)
  show ?thesis
  proof (cases k)
    case None
    then have "direct_sent clears frames k c = ?c\<lparr>task := Receiving\<rparr>"
      using base(2) by (simp add: direct_sent_def Let_def)
    then show ?thesis using base(1) by (auto simp: conn_good_def conn_ok_def in_flight_def)
  next
    case (Some kk)
    obtain reply rest where k: "k = Some (reply, rest)" using Some by (cases kk) auto
    have "direct_sent clears frames k c = send_reply clears reply rest (?c\<lparr>answered := answered ?c @ [reply]\<rparr>)"
    proof -
      have "c\<lparr>wire := wire c @ map Reply frames, send_lock := None\<rparr> = ?c\<lparr>answered := answered ?c @ [reply]\<rparr>"
        by (rule conn.equality) (simp_all add: base(2) k)
      then show ?thesis by (simp add: direct_sent_def Let_def k)
    qed
    then show ?thesis using conn_good_send_reply [of ps ?c clears reply rest] base(1) by (simp add: conn_good_def)
  qed
qed

lemma conn_ok_write_sent:
  assumes "conn_ok ps c" "writer c = Writing x"
  shows "conn_ok ps (next_item (c\<lparr>wire := wire c @ [x], send_lock := None\<rparr>))"
proof -
  have lock: "send_lock c = Some WriteTask" "\<not> is_sending (task c)" using assms by (auto simp: conn_ok_def)
  show ?thesis
  proof (cases "channel c")
    case Nil
    then show ?thesis using assms lock by (auto simp: next_item_def conn_ok_def in_flight_def)
  next
    case (Cons y rest)
    show ?thesis
    proof (cases "\<exists>reply requests. task c = Queueing reply requests")
      case True
      then show ?thesis using assms lock Cons items_Cons [of x "y # rest"] items_Cons [of y rest]
        by (auto simp: next_item_def conn_ok_def in_flight_def)
    next
      case False
      then have "next_item (c\<lparr>wire := wire c @ [x], send_lock := None\<rparr>) =
          c\<lparr>wire := wire c @ [x], send_lock := None, writer := Holding y, channel := rest\<rparr>"
        using Cons by (cases "task c") (simp_all add: next_item_def)
      then show ?thesis using assms lock Cons False items_Cons [of x "y # rest"] items_Cons [of y rest]
        by (cases "task c") (auto simp: conn_ok_def in_flight_def)
    qed
  qed
qed

section \<open>The invariant\<close>

lemma conn_good_more:
  assumes "conn_good ps (c\<lparr>task := Flushing direct None\<rparr>)"
  shows "conn_good ps (c\<lparr>answered := answered c @ [reply], task := Flushing (direct @ [reply]) None\<rparr>)"
    and "conn_good ps (c\<lparr>answered := answered c @ [reply], task := Flushing direct (Some (reply, rest))\<rparr>)"
  using assms by (auto simp: conn_good_def conn_ok_def)

definition all_good :: "'bm server \<Rightarrow> (sid \<Rightarrow> conn) \<Rightarrow> bool" where
  "all_good s cs \<longleftrightarrow> (\<forall>x. sender (sessions s x) = Some Transport \<longrightarrow> conn_good (sent (sessions s x)) (cs x))"

definition good_but :: "sid \<Rightarrow> 'bm server \<Rightarrow> (sid \<Rightarrow> conn) \<Rightarrow> bool" where
  "good_but sid s cs \<longleftrightarrow>
     (\<forall>x. x \<noteq> sid \<longrightarrow> sender (sessions s x) = Some Transport \<longrightarrow> conn_good (sent (sessions s x)) (cs x))"

lemma good_but_upd [simp]: "good_but sid s (cs(sid := c)) = good_but sid s cs"
  by (auto simp: good_but_def)

lemma all_good_iff:
  "good_but sid s cs \<Longrightarrow> conn_good (sent (sessions s sid)) c \<Longrightarrow> all_good s (cs(sid := c))"
  "all_good s cs \<Longrightarrow> good_but sid s cs"
  by (auto simp: good_but_def all_good_def)

lemma good_but_spread:
  assumes "good_but sid s cs" "\<And>x. sender (sessions s' x) = sender (sessions s x)"
    "\<And>x. prefix (sent (sessions s x)) (sent (sessions s' x))"
  shows "good_but sid s' (spread s s' cs)"
  unfolding good_but_def
proof (intro allI impI)
  fix x
  assume "x \<noteq> sid" "sender (sessions s' x) = Some Transport"
  then have "conn_good (sent (sessions s x)) (cs x)" using assms(1,2) by (simp add: good_but_def)
  moreover obtain new where "sent (sessions s' x) = sent (sessions s x) @ new" using assms(3) by (auto simp: prefix_def)
  ultimately show "conn_good (sent (sessions s' x)) (spread s s' cs x)"
    using conn_good_pushes [of _ "cs x" new] by (simp add: spread_def)
qed

lemma handle_requests_ok:
  assumes "env_ok ev" "system_ok (command_table P) s" "sender (sessions s sid) = Some Transport"
    and "good_but sid s cs" "conn_good (sent (sessions s sid)) ((cs sid)\<lparr>task := Flushing direct None\<rparr>)"
    and "handle_requests P clears ev sid requests direct s cs = (s', cs')"
  shows "system_ok (command_table P) s' \<and> (\<forall>x. sender (sessions s' x) = sender (sessions s x)) \<and> all_good s' cs'"
  using assms(2-)
proof (induction requests arbitrary: direct s cs)
  case Nil
  have "direct = [] \<Longrightarrow> conn_good (sent (sessions s sid)) ((cs sid)\<lparr>task := Receiving\<rparr>)"
    using Nil.prems(4) by (auto simp: conn_good_def conn_ok_def)
  then have "conn_good (sent (sessions s sid)) ((cs sid)\<lparr>task := if direct = [] then Receiving else Flushing direct None\<rparr>)"
    using Nil.prems(4) by simp
  then show ?case using Nil.prems(1,5) all_good_iff(1) [OF Nil.prems(3)] by (metis handle_requests.simps(1) prod.inject)
next
  case (Cons request rest)
  obtain s1 answer where d: "dispatch (command_table P) ev request (Some sid) s = (s1, Inr answer)"
    and ok: "system_ok (command_table P) s1"
    using commands.dispatch_system_ok [OF assms(1) Cons.prems(1), of sid request] Cons.prems(2)
    by (cases "dispatch (command_table P) ev request (Some sid) s") auto
  have lasts: "sender (sessions s1 x) = sender (sessions s x)" "prefix (sent (sessions s x)) (sent (sessions s1 x))" for x
    using commands.lasting_dispatch [OF assms(1) Cons.prems(1,2), of request] d by (simp_all add: lasting_def)
  let ?cs = "spread s s1 cs"
  have snd: "sender (sessions s1 sid) = Some Transport" using lasts(1) Cons.prems(2) by simp
  have others: "good_but sid s1 ?cs" using good_but_spread [OF Cons.prems(3) lasts] .
  have own: "conn_good (sent (sessions s1 sid)) ((?cs sid)\<lparr>task := Flushing direct None\<rparr>)"
    by (rule conn_good_spread) (rule lasts(2), rule Cons.prems(4))
  show ?case
  proof (cases answer)
    case None
    then have "handle_requests P clears ev sid rest direct s1 ?cs = (s', cs')" using Cons.prems(5) d by simp
    then show ?thesis using Cons.IH [OF ok snd others own] lasts(1) by simp
  next
    case (Some reply)
    define c where "c = (?cs sid)\<lparr>answered := answered (?cs sid) @ [reply]\<rparr>"
    have "handle_requests P clears ev sid (request # rest) direct s cs = (if \<not> subscribed (sessions s1 sid) then
          handle_requests P clears ev sid rest (direct @ [reply]) s1 (?cs(sid := c))
        else if direct = [] then (s1, ?cs(sid := send_reply clears reply rest c))
        else (s1, ?cs(sid := c\<lparr>task := Flushing direct (Some (reply, rest))\<rparr>)))"
      by (simp add: d Some Let_def c_def)
    note run = this [unfolded Cons.prems(5)]
    have more: "conn_good (sent (sessions s1 sid)) (c\<lparr>task := Flushing (direct @ [reply]) None\<rparr>)"
      "conn_good (sent (sessions s1 sid)) (c\<lparr>task := Flushing direct (Some (reply, rest))\<rparr>)"
      using conn_good_more [OF own, of reply] by (simp_all add: c_def)
    show ?thesis
    proof (cases "subscribed (sessions s1 sid)")
      case False
      then have go: "handle_requests P clears ev sid rest (direct @ [reply]) s1 (?cs(sid := c)) = (s', cs')"
        using run by simp
      have "good_but sid s1 (?cs(sid := c))" using others by simp
      moreover have "conn_good (sent (sessions s1 sid)) ((?cs(sid := c)) sid\<lparr>task := Flushing (direct @ [reply]) None\<rparr>)"
        using more(1) by simp
      ultimately show ?thesis using Cons.IH [OF ok snd _ _ go] lasts(1) by metis
    next
      case True
      show ?thesis
      proof (cases "direct = []")
        case True
        have "conn_good (sent (sessions s1 sid)) (send_reply clears reply rest c)"
          using conn_good_send_reply [of "sent (sessions s1 sid)" "?cs sid"] own True by (simp add: c_def)
        note good = all_good_iff(1) [OF others this]
        have eq: "s' = s1" "cs' = ?cs(sid := send_reply clears reply rest c)"
          using run True \<open>subscribed (sessions s1 sid)\<close> by simp_all
        show ?thesis unfolding eq using ok good lasts(1) by blast
      next
        case False
        then have eq: "s' = s1" "cs' = ?cs(sid := c\<lparr>task := Flushing direct (Some (reply, rest))\<rparr>)"
          using run True by simp_all
        show ?thesis unfolding eq using ok all_good_iff(1) [OF others more(2)] lasts(1) by blast
      qed
    qed
  qed
qed

definition trio_ok :: "'bm platform \<Rightarrow> 'bm trio_world \<Rightarrow> bool" where
  "trio_ok P w \<longleftrightarrow> system_ok (command_table P) (tcommands w) \<and> all_good (tcommands w) (conns w)"

lemma trio_ok_conn:
  assumes "trio_ok P w" "running sid w" "\<And>c. conn_ok (sent (sessions (tcommands w) sid)) c \<Longrightarrow> c = conns w sid \<Longrightarrow>
    conn_good (sent (sessions (tcommands w) sid)) (f c)"
  shows "trio_ok P (upd_conn sid f w)"
  using assms by (auto simp: trio_ok_def all_good_def conn_good_def upd_conn_def running_def)

lemma trio_ok_requests:
  assumes "trio_ok P w" "running sid w" "env_ok ev" "task (conns w sid) \<in> {Receiving, Handling requests}"
  shows "trio_ok P (read_requests P clears ev sid requests (w\<lparr>parsers := rs\<rparr>))"
proof -
  obtain s' cs' where h: "handle_requests P clears ev sid requests [] (tcommands w) (conns w) = (s', cs')"
    by (cases "handle_requests P clears ev sid requests [] (tcommands w) (conns w)")
  have "conn_good (sent (sessions (tcommands w) sid)) (conns w sid)"
    using assms(1,2) by (simp add: trio_ok_def all_good_def running_def)
  then have "conn_good (sent (sessions (tcommands w) sid)) ((conns w sid)\<lparr>task := Flushing [] None\<rparr>)"
    using assms(4) by (auto simp: conn_good_def conn_ok_def)
  then show ?thesis
    using handle_requests_ok [OF assms(3) _ _ _ _ h] assms(1,2) all_good_iff(2) [of "tcommands w" "conns w" sid] h
    by (simp add: trio_ok_def running_def read_requests_def)
qed

lemma conn_ok_fresh: "conn_ok [] fresh_conn"
  by (simp add: conn_ok_def fresh_conn_def in_flight_def)

lemma trio_ok_accept:
  assumes "trio_ok P w" "sessions (tcommands w) sid = Session"
  shows "trio_ok P (accept_conn sid w)"
proof -
  have "system_ok (command_table P) (connect sid (tcommands w))"
    using assms by (simp add: trio_ok_def system_ok_connect)
  moreover have "all_good (connect sid (tcommands w)) ((conns w)(sid := fresh_conn))"
    using assms conn_ok_fresh by (auto simp: trio_ok_def all_good_def connect_def conn_good_def Session_def)
  ultimately show ?thesis by (simp add: trio_ok_def accept_conn_def)
qed

lemma trio_ok_close:
  assumes "trio_ok P w"
  shows "trio_ok P (close_conn sid w)"
proof -
  have "all_good (disconnect sid (tcommands w)) (conns w)"
    using assms by (auto simp: trio_ok_def all_good_def disconnect_def upd_session_def upd_hub_def)
  then show ?thesis using assms by (simp add: trio_ok_def close_conn_def system_ok_disconnect)
qed

lemma trio_ok_step: "trio_step P clears w w' \<Longrightarrow> trio_ok P w \<Longrightarrow> trio_ok P w'"
proof (induction rule: trio_step.induct)
  case (accepted w sid)
  then show ?case by (simp add: trio_ok_accept)
next
  case (received sid w ev chunk r messages requests)
  then show ?case by (intro trio_ok_requests) auto
next
  case (malformed sid w chunk r e)
  then show ?case by (simp add: trio_ok_close)
next
  case (resumed sid w requests ev)
  then show ?case using trio_ok_requests [of P w sid ev requests clears "parsers w"] by simp
next
  case (sees_idle sid w frames k)
  then show ?case by (intro trio_ok_conn) (auto simp: conn_good_def conn_ok_def)
next
  case (read_locks sid w frames k)
  then show ?case by (intro trio_ok_conn) (auto simp: conn_good_def conn_ok_def)
next
  case (read_sent sid w frames k)
  then show ?case by (intro trio_ok_conn) (auto intro: conn_good_direct_sent simp: conn_good_def [of _ "conns w sid"])
next
  case (write_locks sid w x)
  then show ?case by (intro trio_ok_conn) (auto simp: conn_good_def conn_ok_def in_flight_def)
next
  case (write_sent sid w x)
  then show ?case by (intro trio_ok_conn) (auto simp: conn_good_def conn_ok_write_sent)
next
  case (eof sid w)
  then show ?case by (intro trio_ok_conn) (auto simp: conn_good_def conn_ok_def)
next
  case (read_reset sid w frames k)
  then show ?case by (intro trio_ok_conn) (auto simp: conn_good_def conn_ok_def)
next
  case (write_reset sid w x)
  then show ?case by (intro trio_ok_conn) (auto simp: conn_good_def conn_ok_def in_flight_def)
qed (simp_all add: trio_ok_close running_def)

lemma trio_reachable_ok: "trio_reachable P clears w \<Longrightarrow> trio_ok P w"
proof (induction rule: trio_reachable.induct)
  case start
  show ?case by (auto simp: trio_start_def trio_ok_def all_good_def system_ok_Commands) (simp add: Commands_def Session_def)
qed (rule trio_ok_step)

section \<open>The others\<close>

text \<open>A connection whose read task does nothing gets exactly the frames pushed to its session.\<close>

lemma spread_trans:
  assumes "lasting s s1" "lasting s1 s'"
  shows "spread s1 s' (spread s s1 cs) = spread s s' cs"
proof
  fix x
  obtain a b where "sent (sessions s1 x) = sent (sessions s x) @ a" "sent (sessions s' x) = sent (sessions s1 x) @ b"
    using assms unfolding lasting_def prefix_def by metis
  then show "spread s1 s' (spread s s1 cs) x = spread s s' cs x" by (simp add: spread_def)
qed

lemma spread_other: "x \<noteq> sid \<Longrightarrow> spread s s' (cs(sid := c)) x = spread s s' cs x"
  by (simp add: spread_def)

lemma handle_requests_others:
  assumes "env_ok ev" "system_ok (command_table P) s" "sender (sessions s sid) = Some Transport"
    and "handle_requests P clears ev sid requests direct s cs = (s', cs')"
  shows "lasting s s' \<and> (\<forall>x. x \<noteq> sid \<longrightarrow> cs' x = spread s s' cs x)"
  using assms(2-)
proof (induction requests arbitrary: direct s cs)
  case Nil
  then show ?case by (auto simp: lasting_refl spread_def)
next
  case (Cons request rest)
  obtain s1 answer where d: "dispatch (command_table P) ev request (Some sid) s = (s1, Inr answer)"
    and ok: "system_ok (command_table P) s1"
    using commands.dispatch_system_ok [OF assms(1) Cons.prems(1), of sid request] Cons.prems(2)
    by (cases "dispatch (command_table P) ev request (Some sid) s") auto
  have lasts: "lasting s s1" using commands.lasting_dispatch [OF assms(1) Cons.prems(1,2), of request] d by simp
  then have live: "sender (sessions s1 sid) = Some Transport" using Cons.prems(2) by (simp add: lasting_def)
  have IH: "lasting s s' \<and> (\<forall>x. x \<noteq> sid \<longrightarrow> cs' x = spread s s' cs x)"
    if "handle_requests P clears ev sid rest direct' s1 ((spread s s1 cs)(sid := c)) = (s', cs')" for direct' c
    using Cons.IH [OF ok live that] lasting_trans [OF lasts] spread_trans [OF lasts, of s' cs]
    by (metis spread_other)
  show ?case
  proof (cases answer)
    case None
    then show ?thesis using IH [of direct "spread s s1 cs sid"] Cons.prems(3) d by simp
  next
    case (Some reply)
    then show ?thesis using IH Cons.prems(3) d lasts by (auto simp: Let_def split: if_splits)
  qed
qed

lemma trio_step_others:
  assumes "trio_step P clears w w'" "trio_ok P w"
  shows "prefix (sent (sessions (tcommands w) x)) (sent (sessions (tcommands w') x))"
    and "running x w \<Longrightarrow> task (conns w x) = Ended frames \<Longrightarrow> writer (conns w x) = Waiting \<Longrightarrow>
      sent (sessions (tcommands w') x) = sent (sessions (tcommands w) x) \<Longrightarrow>
      running x w' \<and> conns w' x = conns w x"
proof -
  have requests: "prefix (sent (sessions (tcommands w) x)) (sent (sessions (tcommands w') x)) \<and>
      (sent (sessions (tcommands w') x) = sent (sessions (tcommands w) x) \<longrightarrow> x \<noteq> sid \<longrightarrow>
        (running x w \<longrightarrow> running x w') \<and> conns w' x = conns w x)"
    if run: "running sid w" "env_ok ev" "w' = read_requests P clears ev sid requests (w\<lparr>parsers := rs\<rparr>)" for sid ev requests rs
  proof -
    obtain s' cs' where h: "handle_requests P clears ev sid requests [] (tcommands w) (conns w) = (s', cs')"
      by (cases "handle_requests P clears ev sid requests [] (tcommands w) (conns w)")
    then have w': "tcommands w' = s'" "conns w' = cs'" by (simp_all add: run(3) read_requests_def)
    have "lasting (tcommands w) s' \<and> (\<forall>x. x \<noteq> sid \<longrightarrow> cs' x = spread (tcommands w) s' (conns w) x)"
      using handle_requests_others [OF run(2) _ _ h] run(1) assms(2) by (simp add: trio_ok_def running_def)
    then show ?thesis by (auto simp: w' lasting_def running_def spread_def)
  qed
  show "prefix (sent (sessions (tcommands w) x)) (sent (sessions (tcommands w') x))"
    using assms(1)
  proof cases
    case (received sid ev chunk r messages reqs)
    then show ?thesis using requests by blast
  next
    case (resumed sid reqs ev)
    then show ?thesis using requests [of sid ev reqs "parsers w"] by simp
  qed (auto simp: accept_conn_def connect_def close_conn_def disconnect_def upd_session_def upd_hub_def upd_conn_def Session_def)
  assume x: "running x w" "task (conns w x) = Ended frames" "writer (conns w x) = Waiting"
    "sent (sessions (tcommands w') x) = sent (sessions (tcommands w) x)"
  show "running x w' \<and> conns w' x = conns w x"
    using assms(1)
  proof cases
    case (received sid ev chunk r messages reqs)
    then show ?thesis using requests x by fastforce
  next
    case (resumed sid reqs ev)
    then show ?thesis using requests [of sid ev reqs "parsers w"] x by fastforce
  next
    case (accepted sid)
    then show ?thesis using x(1) by (auto simp: accept_conn_def connect_def running_def Session_def)
  qed (use x in \<open>auto simp: close_conn_def disconnect_def upd_session_def upd_hub_def upd_conn_def running_def\<close>)
qed

lemma trio_run_waits:
  assumes "(trio_step P clears)\<^sup>*\<^sup>* w w'" "trio_ok P w"
  shows "trio_ok P w' \<and> prefix (sent (sessions (tcommands w) x)) (sent (sessions (tcommands w') x)) \<and>
    (running x w \<longrightarrow> task (conns w x) = Ended frames \<longrightarrow> writer (conns w x) = Waiting \<longrightarrow>
      sent (sessions (tcommands w') x) = sent (sessions (tcommands w) x) \<longrightarrow> running x w' \<and> conns w' x = conns w x)"
  using assms
proof (induction rule: rtranclp_induct)
  case (step u v)
  then have u: "trio_ok P u" "prefix (sent (sessions (tcommands w) x)) (sent (sessions (tcommands u) x))" by auto
  have v: "prefix (sent (sessions (tcommands u) x)) (sent (sessions (tcommands v) x))"
    by (rule trio_step_others(1) [OF step.hyps(2) u(1)])
  have "running x v \<and> conns v x = conns w x"
    if "running x w" "task (conns w x) = Ended frames" "writer (conns w x) = Waiting"
      "sent (sessions (tcommands v) x) = sent (sessions (tcommands w) x)"
  proof -
    have eq: "sent (sessions (tcommands u) x) = sent (sessions (tcommands w) x)"
      using u(2) v that(4) by (metis prefix_order.antisym)
    then have "running x u \<and> conns u x = conns w x" using step.IH step.prems that by blast
    then show ?thesis using trio_step_others(2) [OF step.hyps(2) u(1), of x frames] that eq by metis
  qed
  then show ?case using trio_ok_step [OF step.hyps(2) u(1)] u(2) v prefix_order.trans by blast
qed simp

section \<open>A run\<close>

text \<open>A connection that subscribes, unsubscribes and pings in one chunk.\<close>

definition sub_frame :: bytes where
  "sub_frame = protocolBuilder (RList [RBytes ''subscribe'', RBytes ''a'', RInt 1])"
definition unsub_frame :: bytes where
  "unsub_frame = protocolBuilder (RList [RBytes ''unsubscribe'', RBytes ''a'', RInt 0])"

lemma demo_names:
  "command_name [''SUBSCRIBE'', ''a''] = ''SUBSCRIBE''" "command_name [''UNSUBSCRIBE'', ''a''] = ''UNSUBSCRIBE''"
  "command_name [''PING''] = ''PING''"
  by code_simp+

lemma demo_lookups:
  "map_of (command_table demo_platform) ''SUBSCRIBE'' = Some (Pubsub 1 (\<lambda>ev. SUBSCRIBE))"
  "map_of (command_table demo_platform) ''UNSUBSCRIBE'' = Some (Pubsub 0 (\<lambda>ev. UNSUBSCRIBE))"
  "map_of (command_table demo_platform) ''PING'' = Some (sig_ob (\<lambda>ev. PING))"
  by (simp_all add: command_table_def method_table_def basic_commands_def set_commands_def bit_commands_def
      hash_commands_def list_commands_def zset_commands_def pubsub_commands_def)

lemmas demo_run_simps = dispatch_def dispatch_direct_def demo_names demo_lookups run_handler_def call_pubsub_def is_subscribed_def
    arity_ok_def session_of_def Let_def subscribed_def returns_def

text \<open>The server after the first and after the second of the requests below.\<close>

abbreviation served1 :: "nat list server" where "served1 \<equiv> subscribe_one 4 ''a'' (connect 4 Commands)"
abbreviation served2 :: "nat list server" where "served2 \<equiv> unsubscribe_one 4 ''a'' served1"

lemma after_subscribe: "sessions served1 4 = Session\<lparr>sender := Some Transport, channels := {|''a''|}, sent := [sub_frame]\<rparr>"
  "x \<noteq> 4 \<Longrightarrow> sessions served1 x = Session" "cur_session served1 = None"
  by (simp_all add: subscribe_one_def Let_def upd_session_def upd_hub_def connect_def Commands_def confirm_def deliver_def
     sub_frame_def subscription_count_def Session_def fcard_fempty fcard_finsert_if)

lemma after_unsubscribe: "sessions served2 4 = Session\<lparr>sender := Some Transport, sent := [sub_frame, unsub_frame]\<rparr>"
  "x \<noteq> 4 \<Longrightarrow> sessions served2 x = Session" "cur_session served2 = None"
  using after_subscribe
  by (simp_all add: unsubscribe_one_def Let_def upd_session_def upd_hub_def confirm_def deliver_def
     unsub_frame_def subscription_count_def Session_def fcard_fempty)

lemma dispatch_subscribe: "dispatch (command_table demo_platform) demo_env [''SUBSCRIBE'', ''a''] (Some 4) (connect 4 Commands) =
    returns served1 None"
  by (simp add: demo_run_simps SUBSCRIBE_def connect_def subscribe_one_def upd_session_def upd_hub_def Session_def Commands_def)

lemma dispatch_unsubscribe: "dispatch (command_table demo_platform) demo_env [''UNSUBSCRIBE'', ''a''] (Some 4) served1 = returns served2 None"
  using after_subscribe by (simp add: demo_run_simps UNSUBSCRIBE_def unsubscribe_one_def upd_session_def upd_hub_def Session_def
    ALLOWED_WHILE_SUBSCRIBED_def)

lemma dispatch_ping: "dispatch (command_table demo_platform) demo_env [''PING''] (Some 4) served2 = 
  returns served2 (Some (protocolBuilder (RResponse PONG)))"
  using after_unsubscribe by (simp add: demo_run_simps call_decorated_def inner_def sig_ob_def PING_def Session_def)

definition demo_requests :: "bytes list list" where
  "demo_requests = [[''SUBSCRIBE'', ''a''], [''UNSUBSCRIBE'', ''a''], [''PING'']]"

abbreviation accepted4 :: "nat list trio_world" where "accepted4 \<equiv> accept_conn 4 trio_start"

definition overtaken :: "conn" where
  "overtaken = fresh_conn\<lparr>writer := Holding (Push sub_frame), channel := [Push unsub_frame],
     task := Flushing [protocolBuilder (RResponse PONG)] None, answered := [protocolBuilder (RResponse PONG)]\<rparr>"

lemma handle_demo: "\<exists>cs. handle_requests demo_platform clears demo_env 4 demo_requests [] (connect 4 Commands) (conns accepted4) = (served2, cs)
  \<and> cs 4 = overtaken"
proof -
  have c: "conns accepted4 4 = fresh_conn" by (simp add: accept_conn_def)
  have s0: "sent (sessions (connect 4 Commands :: nat list server) 4) = []" by (simp add: connect_def Session_def)
  have sp: "spread (connect 4 Commands :: nat list server) served1 cs 4 = push_frame sub_frame (cs 4)"
    "spread served1 served2 cs 4 = push_frame unsub_frame (cs 4)" "spread served2 served2 cs 4 = cs 4" for cs
    using after_subscribe(1) after_unsubscribe(1) s0 by (simp_all add: spread_def Session_def)
  have "\<not> subscribed (sessions served2 4)" using after_unsubscribe(1) by (simp add: subscribed_def Session_def)
  then show ?thesis
    by (simp add: demo_requests_def dispatch_subscribe dispatch_unsubscribe dispatch_ping returns_def Let_def sp c)
      (simp add: overtaken_def fresh_conn_def push_frame_def has_room_def offer_def PUBSUB_QUEUE_def)
qed
lemma demo_feed:
  "feed_python (parsers accepted4 4) (concat (map encode_request demo_requests)) =
    (RESPReader, Inr (map (\<lambda>r. decoded (RList (map RBytes r))) demo_requests))"
proof (rule feed_requests)
  show "parsers accepted4 4 = RESPReader" by (simp add: accept_conn_def)
  show "length (concat (map encode_request demo_requests)) \<le> MAX_BUFFER"
    by (simp add: demo_requests_def encode_request_def protocolBuilder_lines SYM_CRLF_def show_nat.simps MAX_BUFFER_def)
qed

lemma accepted_reachable: "trio_reachable P clears (accept_conn sid trio_start)"
  by (rule trio_reachable.step [OF trio_reachable.start]) (auto simp: trio_start_def Commands_def intro!: trio_step.accepted)

lemma overtaking_run:
  obtains w1 w2 :: "nat list trio_world" where
    "w1 = read_requests demo_platform clears demo_env 4 demo_requests (accepted4\<lparr>parsers := (parsers accepted4)(4 := RESPReader)\<rparr>)"
    "trio_step demo_platform clears accepted4 w1" "(trio_step demo_platform clears)\<^sup>*\<^sup>* w1 w2"
    "sent (sessions (tcommands w2) 4) = [sub_frame, unsub_frame]" "running 4 w2"
    "wire (conns w2 4) = [Reply (protocolBuilder (RResponse PONG))]"
    "in_flight (conns w2 4) = [Push sub_frame, Push unsub_frame]"
proof -
  let ?step = "trio_step demo_platform clears"
  define w1 where "w1 = read_requests demo_platform clears demo_env 4 demo_requests
    (accepted4\<lparr>parsers := (parsers accepted4)(4 := RESPReader)\<rparr>)"
  obtain cs where h: "handle_requests demo_platform clears demo_env 4 demo_requests [] (connect 4 Commands) (conns accepted4)
      = (served2, cs)" "cs 4 = overtaken"
    using handle_demo by blast
  have w1: "tcommands w1 = served2" "conns w1 4 = overtaken"
    using h by (simp_all add: w1_def read_requests_def accept_conn_def trio_start_def)
  have live: "sender (sessions served2 4) = Some Transport" using after_unsubscribe(1) by (simp add: Session_def)
  have "running 4 accepted4" "task (conns accepted4 4) = Receiving"
    by (simp_all add: running_def accept_conn_def connect_def fresh_conn_def)
  then have s1: "?step accepted4 w1"
    unfolding w1_def by (rule trio_step.received [OF _ _ env_ok_demo demo_feed as_requests_decoded])
  let ?pong = "[protocolBuilder (RResponse PONG)]"
  define w2 where "w2 = upd_conn 4 (\<lambda>c. c\<lparr>task := Locking ?pong None\<rparr>) w1"
  define w3 where "w3 = upd_conn 4 (\<lambda>c. c\<lparr>task := Sending ?pong None, send_lock := Some ReadTask\<rparr>) w2"
  define w4 where "w4 = upd_conn 4 (direct_sent clears ?pong None) w3"
  have s2: "?step w1 w2" unfolding w2_def
    by (rule trio_step.sees_idle) (simp_all add: running_def w1 live overtaken_def fresh_conn_def)
  have w2: "tcommands w2 = served2" "conns w2 4 = overtaken\<lparr>task := Locking ?pong None\<rparr>"
    by (simp_all add: w2_def upd_conn_def w1)
  have s3: "?step w2 w3" unfolding w3_def
    by (rule trio_step.read_locks) (simp_all add: running_def w2 live overtaken_def fresh_conn_def)
  have w3: "tcommands w3 = served2" "conns w3 4 = overtaken\<lparr>task := Sending ?pong None, send_lock := Some ReadTask\<rparr>"
    by (simp_all add: w3_def upd_conn_def w2)
  have s4: "?step w3 w4" unfolding w4_def
    by (rule trio_step.read_sent) (simp_all add: running_def w3 live overtaken_def fresh_conn_def)
  have w4: "tcommands w4 = served2" "conns w4 4 = direct_sent clears ?pong None (conns w3 4)"
    by (simp_all add: w4_def upd_conn_def w3)
  show thesis
  proof (rule that [OF w1_def s1])
    show "?step\<^sup>*\<^sup>* w1 w4"
      by (rule rtranclp.rtrancl_into_rtrancl, rule rtranclp.rtrancl_into_rtrancl, rule r_into_rtranclp,
        rule s2, rule s3, rule s4)
    show "sent (sessions (tcommands w4) 4) = [sub_frame, unsub_frame]"
      using after_unsubscribe(1) by (simp add: w4 Session_def)
    show "running 4 w4" "wire (conns w4 4) = [Reply (protocolBuilder (RResponse PONG))]"
      "in_flight (conns w4 4) = [Push sub_frame, Push unsub_frame]"
      using live by (simp_all add: running_def w4 w3 direct_sent_def Let_def overtaken_def fresh_conn_def in_flight_def)
  qed
qed

section \<open>Properties\<close>

text \<open>
  C30: what a connection of the trio backend owes, in every state the server can reach by any interleaving of the
  tasks of all connections.  While the connection runs, the frames pushed to it (confirmations and messages,
  from whatever connection) are on the socket, in the hand of the writer or in the channel, in order, none lost
  and none twice; so are its replies, in the order of its requests, or they wait in the read task; the two tasks
  never write at once; and the store and the hub keep their invariant.
\<close>

theorem trio_conn_order:
  assumes "trio_reachable P clears w" "running sid w"
  defines "c \<equiv> conns w sid"
  shows "pushes (wire c @ in_flight c) = sent (sessions (tcommands w) sid)
    \<and> replies (wire c @ in_flight c) @ pending (task c) = answered c
    \<and> \<not> (is_sending (task c) \<and> is_writing (writer c))
    \<and> store_ok (data (tcommands w)) \<and> hub_ok (tcommands w)"
proof -
  have ok: "trio_ok P w" using assms(1) by (rule trio_reachable_ok)
  then have "conn_ok (sent (sessions (tcommands w) sid)) c"
    using assms(2) by (auto simp: trio_ok_def all_good_def running_def conn_good_def c_def)
  then show ?thesis using ok by (auto simp: conn_ok_def trio_ok_def system_ok_def)
qed

theorem trio_conn_order_witness:
  "\<exists>w :: nat list trio_world. trio_reachable demo_platform True w \<and> running 4 w
    \<and> sent (sessions (tcommands w) 4) = [sub_frame, unsub_frame]
    \<and> pushes (wire (conns w 4) @ in_flight (conns w 4)) = [sub_frame, unsub_frame]"
proof (rule overtaking_run [of True])
  fix w1 w2 :: "nat list trio_world"
  assume w: "trio_step demo_platform True accepted4 w1" "(trio_step demo_platform True)\<^sup>*\<^sup>* w1 w2"
    "sent (sessions (tcommands w2) 4) = [sub_frame, unsub_frame]" "running 4 w2"
  from w(2,1) have "trio_reachable demo_platform True w2"
  proof (induction rule: rtranclp_induct)
    case base
    then show ?case using trio_reachable.step [OF accepted_reachable] by blast
  qed (blast intro: trio_reachable.step)
  then show ?thesis using trio_conn_order [of demo_platform True w2 4] w(3,4) by auto
qed

text \<open>
  C31: the end of a stream does not end its connection.  When a client of the trio backend closes its side while the
  writer of the connection waits, no step of any task, of this connection or of another, closes the connection or takes
  its session out of the hub, unless a frame is pushed to it: the nursery waits for the writer, and the writer for a
  channel that is closed only after the nursery.
\<close>

theorem eof_keeps_connection:
  assumes "trio_reachable P clears w" "running sid w" "task (conns w sid) = Ended frames"
    and "writer (conns w sid) = Waiting" "(trio_step P clears)\<^sup>*\<^sup>* w w'"
    and "sent (sessions (tcommands w') sid) = sent (sessions (tcommands w) sid)"
  shows "sender (sessions (tcommands w') sid) = Some Transport \<and> conns w' sid = conns w sid"
  using trio_run_waits [OF assms(5) trio_reachable_ok [OF assms(1)], of sid frames] assms(2-4,6)
  by (simp add: running_def)

theorem eof_keeps_connection_witness:
  "\<exists>w w' :: nat list trio_world. trio_step demo_platform True accepted4 w \<and> trio_step demo_platform True w w'
    \<and> task (conns w 4) = Ended [] \<and> sender (sessions (tcommands w') 4) = Some Transport \<and> conns w' 4 = conns w 4"
proof -
  define w where "w = upd_conn 4 (\<lambda>c. c\<lparr>task := Ended []\<rparr>) accepted4"
  have r: "running 4 accepted4" "task (conns accepted4 4) = Receiving"
    by (simp_all add: running_def accept_conn_def connect_def fresh_conn_def)
  have 1: "trio_step demo_platform True accepted4 w" unfolding w_def by (rule trio_step.eof [OF r])
  have s: "sessions (tcommands w) 5 = Session" by (simp add: w_def upd_conn_def accept_conn_def connect_def trio_start_def Commands_def)
  have 2: "trio_step demo_platform True w (accept_conn 5 w)" by (rule trio_step.accepted [OF s])
  have w: "running 4 w" "task (conns w 4) = Ended []" "writer (conns w 4) = Waiting"
    "sent (sessions (tcommands (accept_conn 5 w)) 4) = sent (sessions (tcommands w) 4)"
    by (simp_all add: w_def running_def upd_conn_def accept_conn_def connect_def fresh_conn_def)
  have "sender (sessions (tcommands (accept_conn 5 w)) 4) = Some Transport \<and> conns (accept_conn 5 w) 4 = conns w 4"
    by (rule eof_keeps_connection [OF trio_reachable.step [OF accepted_reachable 1] w(1-3) r_into_rtranclp w(4)]) (rule 2)
  then show ?thesis using 1 2 w(2) by blast
qed

text \<open>
  C32: a reply can overtake pushes.  A connection of the trio backend that sends SUBSCRIBE, UNSUBSCRIBE and PING in
  one chunk can get the reply to the PING before both confirmations, which are still in the channel: pushed frames
  do not clear the event that direct replies wait for, against the comments of \<open>server_trio.py\<close>.
\<close>

theorem reply_overtakes_push:
  "\<exists>w1 w2 :: nat list trio_world.
     trio_reachable demo_platform clears (accept_conn 4 trio_start)
     \<and> trio_step demo_platform clears (accept_conn 4 trio_start) w1
     \<and> w1 = read_requests demo_platform clears demo_env 4 [[''SUBSCRIBE'', ''a''], [''UNSUBSCRIBE'', ''a''], [''PING'']]
          ((accept_conn 4 trio_start)\<lparr>parsers := (parsers (accept_conn 4 (trio_start :: nat list trio_world)))(4 := RESPReader)\<rparr>)
     \<and> (trio_step demo_platform clears)\<^sup>*\<^sup>* w1 w2
     \<and> sent (sessions (tcommands w2) 4) = [sub_frame, unsub_frame]
     \<and> wire (conns w2 4) = [Reply (protocolBuilder (RResponse PONG))]
     \<and> in_flight (conns w2 4) = [Push sub_frame, Push unsub_frame]"
proof (rule overtaking_run [of clears])
  fix w1 w2 :: "nat list trio_world"
  assume w: "w1 = read_requests demo_platform clears demo_env 4 demo_requests
      (accepted4\<lparr>parsers := (parsers accepted4)(4 := RESPReader)\<rparr>)"
    "trio_step demo_platform clears accepted4 w1" "(trio_step demo_platform clears)\<^sup>*\<^sup>* w1 w2"
    "sent (sessions (tcommands w2) 4) = [sub_frame, unsub_frame]"
    "wire (conns w2 4) = [Reply (protocolBuilder (RResponse PONG))]"
    "in_flight (conns w2 4) = [Push sub_frame, Push unsub_frame]"
  show ?thesis
    by (intro exI [of _ w1] exI [of _ w2] conjI accepted_reachable w(1) [unfolded demo_requests_def] w(2-))
qed

end
