(* ===== verification/HiredisReader.thy ===== *)
theory HiredisReader
  imports Serving
begin

text \<open>
  The hiredis engine of \<open>resp.py\<close> (\<^verbatim>\<open>RESPReader._feed_hiredis\<close>).  The C parser is a parameter, the record
  \<open>hiredis\<close>: a new reader, \<^verbatim>\<open>feed\<close>, and \<^verbatim>\<open>gets\<close>, which answers a value, that no complete message is buffered
  (\<^verbatim>\<open>False\<close>), or raises.  An error reply, which no client sends, counts as a null: neither has a canonical length.

  hiredis rejects inline commands, so the code parses those itself while the stream is between two messages, and
  finds out that it is by comparing the bytes it handed to hiredis with the lengths of the parsed values, encoded
  again.  Both engines give the same messages for encoded requests, however their bytes are cut; they differ on an
  inline command behind a framed one in the same chunk.
\<close>

section \<open>The engine\<close>

record 'h hiredis =
  hr_new :: 'h
  hr_feed :: "bytes \<Rightarrow> 'h \<Rightarrow> 'h"
  hr_gets :: "'h \<Rightarrow> 'h \<times> (bytes + msg option)"

record 'h hreader =
  hbuffer :: bytes
  hparser :: 'h
  engaged :: bool
  boundary_unknown :: bool
  fed :: int
  consumed :: int

definition RESP_MARKERS :: "char set" where
  "RESP_MARKERS = set ''*$:+-''"

text \<open>\<^verbatim>\<open>_wire_length\<close>: the length of the value encoded again, none with a null in it.\<close>

fun as_reply :: "msg \<Rightarrow> reply option" and as_replies :: "msg list \<Rightarrow> reply list option" where
  "as_reply (MBytes b) = Some (RBytes b)"
| "as_reply (MInt i) = Some (RInt i)"
| "as_reply (MList ms) = map_option RList (as_replies ms)"
| "as_reply MNone = None"
| "as_replies [] = Some []"
| "as_replies (m # ms) =
     (case as_reply m of None \<Rightarrow> None | Some v \<Rightarrow> map_option (\<lambda>vs. v # vs) (as_replies ms))"

definition wire_length :: "msg \<Rightarrow> int option" where
  "wire_length m = map_option (\<lambda>v. int (length (protocolBuilder v))) (as_reply m)"

text \<open>The inline commands at the front of the buffer, and what is behind them.\<close>

datatype boundary = Empty | Waits bytes | Engages bytes

function inline_lines :: "bytes \<Rightarrow> msg list \<times> boundary" where
  "inline_lines buf =
     (case buf of
        [] \<Rightarrow> ([], Empty)
      | c # cs \<Rightarrow>
          if c \<in> RESP_MARKERS then ([], Engages buf)
          else
            (case read_line buf of
               None \<Rightarrow> ([], Waits buf)
             | Some (line, rest) \<Rightarrow>
                 (case inline_lines rest of (ms, b) \<Rightarrow> (MList (map MBytes (split_ws line)) # ms, b))))"
  by pat_completeness auto
termination
  by (relation "measure length") (auto dest: read_line_length)

declare inline_lines.simps [simp del]

text \<open>The loop over \<^verbatim>\<open>gets\<close>; nothing in the code bounds it, so it may have no value.\<close>

partial_function (option) gets_loop ::
  "'h hiredis \<Rightarrow> 'h hreader \<Rightarrow> msg list \<Rightarrow> ('h hreader \<times> (bytes + msg list)) option" where
  "gets_loop H r messages =
     (case hr_gets H (hparser r) of
        (h, out) \<Rightarrow>
          let r = r\<lparr>hparser := h\<rparr> in
          (case out of
             Inl e \<Rightarrow> Some (r, Inl e)
           | Inr None \<Rightarrow> Some (r, Inr messages)
           | Inr (Some m) \<Rightarrow>
               gets_loop H
                 (case wire_length m of
                    None \<Rightarrow> r\<lparr>boundary_unknown := True\<rparr>
                  | Some n \<Rightarrow> r\<lparr>consumed := consumed r + n\<rparr>)
                 (messages @ [m])))"

definition TOO_LONG :: bytes where "TOO_LONG = ''request exceeds maximum allowed size''"

text \<open>The bytes for hiredis, its messages, and the check whether it is back at a boundary.\<close>

definition parse_framed ::
  "'h hiredis \<Rightarrow> bytes \<Rightarrow> msg list \<Rightarrow> 'h hreader \<Rightarrow> ('h hreader \<times> (bytes + msg list)) option" where
  "parse_framed H chunk messages r =
     (let r = (if chunk = [] then r
               else r\<lparr>hparser := hr_feed H chunk (hparser r), fed := fed r + int (length chunk)\<rparr>)
      in if chunk \<noteq> [] \<and> \<not> boundary_unknown r \<and> fed r - consumed r > int MAX_BUFFER then Some (r, Inl TOO_LONG)
         else
           map_option
             (\<lambda>(r, out).
                (if out \<in> range Inr \<and> engaged r \<and> \<not> boundary_unknown r \<and> fed r \<noteq> 0 \<and> fed r = consumed r
                 then r\<lparr>engaged := False, fed := 0, consumed := 0\<rparr> else r, out))
             (gets_loop H r messages))"

definition feed_hiredis ::
  "'h hiredis \<Rightarrow> 'h hreader \<Rightarrow> bytes \<Rightarrow> ('h hreader \<times> (bytes + msg list)) option" where
  "feed_hiredis H r chunk =
     (if \<not> engaged r \<and> \<not> boundary_unknown r then
        let buf = hbuffer r @ chunk in
        if length buf > MAX_BUFFER then Some (r\<lparr>hbuffer := buf\<rparr>, Inl TOO_LONG)
        else
          (case inline_lines buf of
             (messages, Waits rest) \<Rightarrow> Some (r\<lparr>hbuffer := rest\<rparr>, Inr messages)
           | (messages, Engages framed) \<Rightarrow> parse_framed H framed messages (r\<lparr>hbuffer := [], engaged := True\<rparr>)
           | (messages, Empty) \<Rightarrow> parse_framed H [] messages (r\<lparr>hbuffer := []\<rparr>))
      else parse_framed H chunk [] r)"

section \<open>Both engines\<close>

datatype engine = Hiredis | Python

datatype 'h resp_reader = HiredisReader "'h hreader" | PythonReader reader

text \<open>\<^verbatim>\<open>RESPReader(engine)\<close>; \<open>installed\<close> is the hiredis module, if there is one.\<close>

definition new_reader :: "bytes option \<Rightarrow> 'h hiredis option \<Rightarrow> bytes + 'h resp_reader" where
  "new_reader eng installed =
     (let eng = (case eng of
           Some name \<Rightarrow> name
         | None \<Rightarrow> if installed \<noteq> None then ''hiredis'' else ''python'')
      in if eng \<noteq> ''hiredis'' \<and> eng \<noteq> ''python'' then Inl (''unknown engine '' @ quote_char @ eng @ quote_char)
         else if eng = ''python'' then Inr (PythonReader RESPReader)
         else
           (case installed of
              None \<Rightarrow> Inl ''hiredis engine requested but hiredis is not installed''
            | Some H \<Rightarrow> Inr (HiredisReader \<lparr>hbuffer = [], hparser = hr_new H, engaged = False, boundary_unknown = False,
                fed = 0, consumed = 0\<rparr>)))"

definition feed :: "'h hiredis \<Rightarrow> 'h resp_reader \<Rightarrow> bytes \<Rightarrow> ('h resp_reader \<times> (bytes + msg list)) option" where
  "feed H r chunk =
     (case r of
        HiredisReader h \<Rightarrow> map_option (\<lambda>(h, out). (HiredisReader h, out)) (feed_hiredis H h chunk)
      | PythonReader p \<Rightarrow> (case feed_python p chunk of (p, out) \<Rightarrow> Some (PythonReader p, out)))"

text \<open>The messages of every chunk, up to a protocol error.\<close>

fun feed_chunks :: "'h hiredis \<Rightarrow> 'h resp_reader \<Rightarrow> bytes list \<Rightarrow> ('h resp_reader \<times> (bytes + msg list) list) option" where
  "feed_chunks H r [] = Some (r, [])"
| "feed_chunks H r (c # cs) =
     (case feed H r c of
        None \<Rightarrow> None
      | Some (r, Inl e) \<Rightarrow> Some (r, [Inl e])
      | Some (r, Inr ms) \<Rightarrow> map_option (\<lambda>(r, outs). (r, Inr ms # outs)) (feed_chunks H r cs))"

section \<open>What hiredis promises\<close>

text \<open>
  \<open>held\<close> are the bytes fed and not parsed yet.  An encoded request in front of them is the next value, part of one is
  incomplete, and a letter in front of them is a protocol error, since it starts no message.
\<close>

definition LETTERS :: "char set" where
  "LETTERS = set ''ABCDEFGHIJKLMNOPQRSTUVWXYZ''"

definition request_msg :: "bytes list \<Rightarrow> msg" where
  "request_msg request = decoded (RList (map RBytes request))"

locale hiredis_reader =
  fixes H :: "'h hiredis" and held :: "'h \<Rightarrow> bytes"
  assumes held_new: "held (hr_new H) = []"
    and held_feed: "held (hr_feed H d h) = held h @ d"
    and gets_request: "held h = encode_request request @ rest \<Longrightarrow> length (encode_request request) \<le> MAX_BUFFER \<Longrightarrow>
      \<exists>h'. hr_gets H h = (h', Inr (Some (request_msg request))) \<and> held h' = rest"
    and gets_incomplete: "strict_prefix (held h) (encode_request request) \<Longrightarrow>
      length (encode_request request) \<le> MAX_BUFFER \<Longrightarrow> \<exists>h'. hr_gets H h = (h', Inr None) \<and> held h' = held h"
    and gets_letter: "held h = c # rest \<Longrightarrow> c \<in> LETTERS \<Longrightarrow> \<exists>h' e. hr_gets H h = (h', Inl e)"

section \<open>Encoded requests\<close>

lemma encode_request_star: "\<exists>tail. encode_request request = CHR ''*'' # tail"
  by (simp add: encode_request_def protocolBuilder_list)


lemma wire_length_request: "wire_length (request_msg request) = Some (int (length (encode_request request)))"
proof -
  have "as_replies (map (decoded \<circ> RBytes) request) = Some (map RBytes request)" by (induction request) simp_all
  then show ?thesis by (simp add: wire_length_def request_msg_def encode_request_def comp_def)
qed

definition fits :: "bytes list \<Rightarrow> bool" where
  "fits request \<longleftrightarrow> length (encode_request request) \<le> MAX_BUFFER"

abbreviation encoded :: "bytes list list \<Rightarrow> bytes" where
  "encoded requests \<equiv> concat (map encode_request requests)"

lemma fits_all: "length (encoded requests) \<le> MAX_BUFFER \<Longrightarrow> list_all fits requests"
  by (induction requests) (auto simp: fits_def)

lemma parse_request: "fits request \<Longrightarrow> parse_message (encode_request request @ rest) = Parsed (request_msg request) rest"
  using parse_message_encoded [OF encode_request_wire_ok, of request rest]
  by (simp add: fits_def request_msg_def encode_request_def del: wire_ok.simps decoded.simps)

lemma parse_part: "fits request \<Longrightarrow> strict_prefix part (encode_request request) \<Longrightarrow> parse_message part = Incomplete"
proof (cases "parse_message part")
  case (Malformed e)
  assume "fits request" "strict_prefix part (encode_request request)"
  then show ?thesis using parse_message_append(2) [OF Malformed] parse_request [of request "[]"]
    by (auto elim!: strict_prefixE')
next
  case (Parsed v r)
  assume "fits request" "strict_prefix part (encode_request request)"
  then show ?thesis using parse_message_append(1) [OF Parsed] parse_request [of request "[]"]
    by (auto elim!: strict_prefixE')
qed simp

lemma drain_requests:
  assumes "list_all fits whole" "fits request" "strict_prefix rest (encode_request request)"
  shows "drain (encoded whole @ rest) = (rest, Inr (map request_msg whole))"
  using assms(1)
proof (induction whole)
  case Nil
  then show ?case using parse_part [OF assms(2,3)] by (simp add: drain.simps)
next
  case (Cons q qs)
  then show ?case by (subst drain.simps) (simp add: parse_request)
qed

text \<open>Bytes that begin encoded requests are whole requests and a proper part of one.\<close>

lemma cut_requests:
  assumes "prefix bs (encoded requests)" "list_all fits requests"
  obtains whole later rest request where "requests = whole @ later" "bs = encoded whole @ rest" "fits request"
    "strict_prefix rest (encode_request request)" "later = [] \<longrightarrow> rest = []" "later \<noteq> [] \<longrightarrow> request = hd later"
proof -
  have "\<exists>whole later rest request. requests = whole @ later \<and> bs = encoded whole @ rest \<and> fits request
      \<and> strict_prefix rest (encode_request request) \<and> (later = [] \<longrightarrow> rest = []) \<and> (later \<noteq> [] \<longrightarrow> request = hd later)"
    using assms
  proof (induction requests arbitrary: bs)
    case Nil
    moreover have "fits []" by (simp add: fits_def encode_request_def protocolBuilder_lines show_nat.simps SYM_CRLF_def MAX_BUFFER_def)
    moreover have "strict_prefix [] (encode_request [])" using encode_request_star [of "[]"] by auto
    ultimately show ?case by auto
  next
    case (Cons q qs)
    then consider "strict_prefix bs (encode_request q)" | bs' where "bs = encode_request q @ bs'" "prefix bs' (encoded qs)"
      by (cases "bs = encode_request q") (auto simp: prefix_append strict_prefix_def)
    then show ?case
    proof cases
      case 1
      have "q # qs = [] @ (q # qs) \<and> bs = encoded [] @ bs \<and> fits q \<and> strict_prefix bs (encode_request q)
          \<and> (q # qs = [] \<longrightarrow> bs = []) \<and> (q # qs \<noteq> [] \<longrightarrow> q = hd (q # qs))"
        using 1 Cons.prems by simp
      then show ?thesis by blast
    next
      case 2
      then obtain whole later rest request where "qs = whole @ later" "bs' = encoded whole @ rest" "fits request"
        "strict_prefix rest (encode_request request)" "later = [] \<longrightarrow> rest = []" "later \<noteq> [] \<longrightarrow> request = hd later"
        using Cons.IH [of bs'] Cons.prems by auto
      then have "q # qs = (q # whole) @ later \<and> bs = encoded (q # whole) @ rest \<and> fits request
          \<and> strict_prefix rest (encode_request request) \<and> (later = [] \<longrightarrow> rest = [])
          \<and> (later \<noteq> [] \<longrightarrow> request = hd later)"
        using 2(1) by simp
      then show ?thesis by blast
    qed
  qed
  then show thesis using that by blast
qed

section \<open>hiredis on encoded requests\<close>

text \<open>
  The reader between two chunks: the bytes \<open>rest\<close> of an incomplete request are in hiredis, and the counts tell that
  there are such; or hiredis holds nothing and has handed the stream back.
\<close>

definition between :: "('h \<Rightarrow> bytes) \<Rightarrow> bytes \<Rightarrow> 'h hreader \<Rightarrow> bool" where
  "between held rest r \<longleftrightarrow> held (hparser r) = rest \<and> hbuffer r = [] \<and> \<not> boundary_unknown r
     \<and> fed r = consumed r + int (length rest) \<and> 0 \<le> consumed r
     \<and> (engaged r \<longleftrightarrow> rest \<noteq> []) \<and> (\<not> engaged r \<longrightarrow> fed r = 0)"

context hiredis_reader begin

lemma gets_loop_requests:
  assumes "list_all fits whole" "fits request" "strict_prefix rest (encode_request request)"
    and "held (hparser r) = encoded whole @ rest"
  shows "\<exists>h. gets_loop H r ms = Some (r\<lparr>hparser := h, consumed := consumed r + int (length (encoded whole))\<rparr>,
      Inr (ms @ map request_msg whole)) \<and> held h = rest"
  using assms(1,4)
proof (induction whole arbitrary: r ms)
  case Nil
  obtain h where "hr_gets H (hparser r) = (h, Inr None)" "held h = rest"
    using gets_incomplete [of "hparser r" request] assms(2,3) Nil.prems(2) by (auto simp: fits_def)
  then show ?case by (subst gets_loop.simps) auto
next
  case (Cons q qs)
  obtain h where h: "hr_gets H (hparser r) = (h, Inr (Some (request_msg q)))" "held h = encoded qs @ rest"
    using gets_request [of "hparser r" q "encoded qs @ rest"] Cons.prems by (auto simp: fits_def)
  let ?r = "r\<lparr>hparser := h, consumed := consumed r + int (length (encode_request q))\<rparr>"
  have "\<exists>h'. gets_loop H ?r (ms @ [request_msg q]) =
      Some (?r\<lparr>hparser := h', consumed := consumed ?r + int (length (encoded qs))\<rparr>,
        Inr ((ms @ [request_msg q]) @ map request_msg qs)) \<and> held h' = rest"
    using Cons.IH [of ?r "ms @ [request_msg q]"] Cons.prems(1) h(2) by simp
  moreover have "gets_loop H r ms = gets_loop H ?r (ms @ [request_msg q])"
    by (subst gets_loop.simps) (simp add: h(1) wire_length_request Let_def)
  ultimately show ?case by (auto simp: add.assoc)
qed

lemma parse_framed_requests:
  assumes "list_all fits whole" "fits request" "strict_prefix rest (encode_request request)"
    and "held (hparser r) @ chunk = encoded whole @ rest" "length (held (hparser r) @ chunk) \<le> MAX_BUFFER"
    and "hbuffer r = []" "\<not> boundary_unknown r" "fed r = consumed r + int (length (held (hparser r)))" "0 \<le> consumed r"
    and "engaged r \<longleftrightarrow> held (hparser r) @ chunk \<noteq> []" "\<not> engaged r \<longrightarrow> fed r = 0"
  shows "\<exists>r'. parse_framed H chunk ms r = Some (r', Inr (ms @ map request_msg whole)) \<and> between held rest r'"
proof -
  define s where "s = (if chunk = [] then r
      else r\<lparr>hparser := hr_feed H chunk (hparser r), fed := fed r + int (length chunk)\<rparr>)"
  have s: "held (hparser s) = encoded whole @ rest" "fed s = consumed s + int (length (encoded whole @ rest))"
    "hbuffer s = []" "\<not> boundary_unknown s" "0 \<le> consumed s" "engaged s \<longleftrightarrow> encoded whole @ rest \<noteq> []"
    "\<not> engaged s \<longrightarrow> fed s = 0"
    using assms(4-) by (auto simp: s_def held_feed simp flip: assms(4))
  obtain h where h: "gets_loop H s ms = Some (s\<lparr>hparser := h, consumed := consumed s + int (length (encoded whole))\<rparr>,
      Inr (ms @ map request_msg whole))" "held h = rest"
    using gets_loop_requests [OF assms(1-3) s(1)] by blast
  have pos: "engaged s \<Longrightarrow> fed s \<noteq> 0"
    using s(2,5,6) length_greater_0_conv [of "encoded whole @ rest"] by linarith
  have "fed s - consumed s \<le> int MAX_BUFFER" using s(2) assms(4,5) by simp
  then show ?thesis
    using h s pos by (auto simp: parse_framed_def s_def [symmetric] Let_def between_def simp del: concat_eq_Nil_conv)
qed

lemma feed_hiredis_requests:
  assumes "list_all fits whole" "fits request" "strict_prefix rest (encode_request request)"
    and "between held part r" "part @ chunk = encoded whole @ rest" "length (part @ chunk) \<le> MAX_BUFFER"
  shows "\<exists>r'. feed_hiredis H r chunk = Some (r', Inr (map request_msg whole)) \<and> between held rest r'"
proof (cases "engaged r")
  case True
  then have "feed_hiredis H r chunk = parse_framed H chunk [] r" by (simp add: feed_hiredis_def)
  moreover have e: "engaged r \<longleftrightarrow> held (hparser r) @ chunk \<noteq> []" using assms(4) True by (simp add: between_def)
  have "\<exists>r'. parse_framed H chunk [] r = Some (r', Inr ([] @ map request_msg whole)) \<and> between held rest r'"
    by (rule parse_framed_requests [OF assms(1-3)]; (rule e | use assms(4-6) True in \<open>simp add: between_def\<close>))
  ultimately show ?thesis by simp
next
  case False
  then have part: "part = []" "hbuffer r = []" "\<not> boundary_unknown r" "held (hparser r) = []"
    "fed r = 0" "consumed r = 0" using assms(4) by (auto simp: between_def)
  show ?thesis
  proof (cases "chunk = []")
    case True
    then have "feed_hiredis H r chunk = parse_framed H [] [] r"
    proof -
      have same: "r\<lparr>hbuffer := []\<rparr> = r" using part(2) by (cases r) simp
      have "feed_hiredis H r chunk = parse_framed H [] [] (r\<lparr>hbuffer := []\<rparr>)"
        using False part True by (simp add: feed_hiredis_def inline_lines.simps)
      then show ?thesis by (simp only: same)
    qed
    then show ?thesis
      using parse_framed_requests [OF assms(1-3), of r chunk "[]"] assms(5,6) part True False by simp
  next
    case chunk: False
    obtain tail where "chunk = CHR ''*'' # tail"
    proof (cases whole)
      case Nil
      then show thesis using that chunk part(1) assms(3,5) encode_request_star [of request]
        by (cases chunk) (auto elim!: strict_prefixE')
    next
      case (Cons q qs)
      then show thesis using that part(1) assms(5) encode_request_star [of q] by auto
    qed
    then have "inline_lines chunk = ([], Engages chunk)" by (simp add: inline_lines.simps RESP_MARKERS_def)
    moreover have same: "r\<lparr>hbuffer := [], engaged := True\<rparr> = r\<lparr>engaged := True\<rparr>" using part(2) by (cases r) simp
    ultimately have "feed_hiredis H r chunk = parse_framed H chunk [] (r\<lparr>engaged := True\<rparr>)"
      using False part assms(6) unfolding same [symmetric] by (simp add: feed_hiredis_def)
    then show ?thesis
      using parse_framed_requests [OF assms(1-3), of "r\<lparr>engaged := True\<rparr>" chunk "[]"] assms(5,6) part chunk by simp
  qed
qed

end

text \<open>Both readers side by side, over all chunks.\<close>

context hiredis_reader begin

lemma between_new:
  "between held [] \<lparr>hbuffer = [], hparser = hr_new H, engaged = False, boundary_unknown = False, fed = 0, consumed = 0\<rparr>"
  by (simp add: between_def held_new)

lemma feed_chunks_requests:
  assumes "list_all fits requests" "length (part @ concat chunks) \<le> MAX_BUFFER"
    and "prefix (part @ concat chunks) (encoded requests)" "between held part r" "buffer p = part"
    and "requests = [] \<longrightarrow> part = []" "requests \<noteq> [] \<longrightarrow> strict_prefix part (encode_request (hd requests))"
  shows "\<exists>r' p' mss. feed_chunks H (HiredisReader r) chunks = Some (r', map Inr mss)
      \<and> feed_chunks H (PythonReader p) chunks = Some (p', map Inr mss)
      \<and> (part @ concat chunks = encoded requests \<longrightarrow> concat mss = map request_msg requests)"
  using assms
proof (induction chunks arbitrary: requests part r p)
  case Nil
  have "requests = []" if "part = encoded requests"
    using that Nil.prems(7) by (cases requests) (auto dest: prefix_length_less)
  then show ?case by auto
next
  case (Cons c cs)
  have "prefix (part @ c) (encoded requests)" using Cons.prems(3) by (auto simp: prefix_def)
  then obtain whole later rest request where cut: "requests = whole @ later" "part @ c = encoded whole @ rest"
    "fits request" "strict_prefix rest (encode_request request)" "later = [] \<longrightarrow> rest = []"
    "later \<noteq> [] \<longrightarrow> request = hd later"
    using cut_requests Cons.prems(1) by blast
  have whole: "list_all fits whole" "list_all fits later" using Cons.prems(1) cut(1) by simp_all
  have len: "length (part @ c) \<le> MAX_BUFFER" using Cons.prems(2) by simp
  obtain r' where r': "feed_hiredis H r c = Some (r', Inr (map request_msg whole))" "between held rest r'"
    using feed_hiredis_requests [OF whole(1) cut(3,4) Cons.prems(4) cut(2) len] by blast
  have p': "feed_python p c = (p\<lparr>buffer := rest\<rparr>, Inr (map request_msg whole))"
    using drain_requests [OF whole(1) cut(3,4)] len Cons.prems(5) cut(2) by (simp add: feed_python_drain)
  have all: "part @ concat (c # cs) = encoded whole @ rest @ concat cs" using cut(2) by simp
  have "\<exists>r'' p'' mss. feed_chunks H (HiredisReader r') cs = Some (r'', map Inr mss)
      \<and> feed_chunks H (PythonReader (p\<lparr>buffer := rest\<rparr>)) cs = Some (p'', map Inr mss)
      \<and> (rest @ concat cs = encoded later \<longrightarrow> concat mss = map request_msg later)"
  proof (rule Cons.IH [OF whole(2) _ _ r'(2)])
    show "length (rest @ concat cs) \<le> MAX_BUFFER" using Cons.prems(2) arg_cong [OF cut(2), of length] by simp
    show "prefix (rest @ concat cs) (encoded later)" using Cons.prems(3) unfolding all cut(1) by simp
    show "later \<noteq> [] \<longrightarrow> strict_prefix rest (encode_request (hd later))" using cut(4,6) by metis
  qed (use cut(5) in simp_all)
  then obtain r'' p'' mss where IH: "feed_chunks H (HiredisReader r') cs = Some (r'', map Inr mss)"
    "feed_chunks H (PythonReader (p\<lparr>buffer := rest\<rparr>)) cs = Some (p'', map Inr mss)"
    "rest @ concat cs = encoded later \<longrightarrow> concat mss = map request_msg later" by blast
  have "feed_chunks H (HiredisReader r) (c # cs) = Some (r'', map Inr (map request_msg whole # mss))"
    using IH(1) r'(1) by (simp add: feed_def)
  moreover have "feed_chunks H (PythonReader p) (c # cs) = Some (p'', map Inr (map request_msg whole # mss))"
    using IH(2) p' by (simp add: feed_def)
  moreover have "part @ concat (c # cs) = encoded requests \<longrightarrow>
      concat (map request_msg whole # mss) = map request_msg requests"
    unfolding all cut(1) using IH(3) by simp
  ultimately show ?case by blast
qed

text \<open>A letter behind a request in the bytes handed over is a protocol error, and the request is gone with it.\<close>

lemma framed_then_letter:
  assumes "fits request" "c \<in> LETTERS" "length (encode_request request @ c # cs) \<le> MAX_BUFFER"
    and "between held [] r"
  shows "\<exists>r' e. feed_hiredis H r (encode_request request @ c # cs) = Some (r', Inl e)"
proof -
  let ?bs = "encode_request request @ c # cs"
  obtain tail where bs: "?bs = CHR ''*'' # tail" using encode_request_star [of request] by auto
  define s where "s = r\<lparr>hbuffer := [], engaged := True, hparser := hr_feed H ?bs (hparser r), fed := fed r + int (length ?bs)\<rparr>"
  have r: "\<not> engaged r" "hbuffer r = []" "\<not> boundary_unknown r" "held (hparser r) = []" "fed r = 0" "consumed r = 0"
    using assms(4) by (auto simp: between_def)
  have "inline_lines ?bs = ([], Engages ?bs)" unfolding bs by (simp add: inline_lines.simps RESP_MARKERS_def)
  then have f: "feed_hiredis H r ?bs = parse_framed H ?bs [] (r\<lparr>hbuffer := [], engaged := True\<rparr>)"
    using r assms(3) by (simp add: feed_hiredis_def)
  have "held (hparser s) = ?bs" by (simp add: s_def held_feed r)
  then obtain h where h: "hr_gets H (hparser s) = (h, Inr (Some (request_msg request)))" "held h = c # cs"
    using gets_request [of "hparser s" request "c # cs"] assms(1) by (auto simp: fits_def)
  obtain h' e where e: "hr_gets H h = (h', Inl e)" using gets_letter [OF h(2) assms(2)] by blast
  have "gets_loop H s [] = Some (s\<lparr>hparser := h', consumed := int (length (encode_request request))\<rparr>, Inl e)"
    by (subst gets_loop.simps) (simp add: h(1) wire_length_request, subst gets_loop.simps, simp add: e s_def r)
  moreover have "feed_hiredis H r ?bs = map_option (\<lambda>(r, out).
      (if out \<in> range Inr \<and> engaged r \<and> \<not> boundary_unknown r \<and> fed r \<noteq> 0 \<and> fed r = consumed r
       then r\<lparr>engaged := False, fed := 0, consumed := 0\<rparr> else r, out)) (gets_loop H s [])"
    using assms(3) r unfolding f parse_framed_def Let_def by (simp add: s_def)
  ultimately show ?thesis by auto
qed

end

section \<open>An instance\<close>

text \<open>The pure-Python parser on the held bytes, with letters rejected as hiredis does, keeps the promise.\<close>

definition py_hiredis :: "bytes hiredis" where
  "py_hiredis = \<lparr>hr_new = [], hr_feed = (\<lambda>d h. h @ d),
     hr_gets = (\<lambda>h.
       if h \<noteq> [] \<and> hd h \<in> LETTERS then (h, Inl ''Protocol error'')
       else
         (case parse_message h of
            Incomplete \<Rightarrow> (h, Inr None)
          | Malformed e \<Rightarrow> (h, Inl e)
          | Parsed m rest \<Rightarrow> (rest, Inr (Some m))))\<rparr>"

interpretation py: hiredis_reader py_hiredis id
proof
  fix h :: bytes and request :: "bytes list" and rest :: bytes and c :: char
  show "id (hr_new py_hiredis) = []" "\<And>d. id (hr_feed py_hiredis d h) = id h @ d" by (simp_all add: py_hiredis_def)
  obtain tail where star: "encode_request request = CHR ''*'' # tail" using encode_request_star by blast
  show "\<exists>h'. hr_gets py_hiredis h = (h', Inr (Some (request_msg request))) \<and> id h' = rest"
    if "id h = encode_request request @ rest" "length (encode_request request) \<le> MAX_BUFFER"
    using that parse_request [of request rest] star by (simp add: py_hiredis_def fits_def LETTERS_def)
  show "\<exists>h'. hr_gets py_hiredis h = (h', Inr None) \<and> id h' = id h"
    if "strict_prefix (id h) (encode_request request)" "length (encode_request request) \<le> MAX_BUFFER"
  proof -
    have "parse_message h = Incomplete" using parse_part [of request h] that by (simp add: fits_def)
    moreover have "h \<noteq> [] \<Longrightarrow> hd h = CHR ''*''" using that(1) star by (cases h) (auto simp: strict_prefix_def)
    ultimately show ?thesis by (auto simp: py_hiredis_def LETTERS_def)
  qed
  show "\<exists>h' e. hr_gets py_hiredis h = (h', Inl e)"
    if "id h = c # rest" "c \<in> LETTERS"
    using that by (auto simp: py_hiredis_def)
qed

definition new_py_reader :: "bytes resp_reader" where
  "new_py_reader = HiredisReader \<lparr>hbuffer = [], hparser = hr_new py_hiredis, engaged = False, boundary_unknown = False,
     fed = 0, consumed = 0\<rparr>"

lemma new_py_reader: "new_reader None (Some py_hiredis) = Inr new_py_reader"
  "new_reader (Some ''python'') (Some py_hiredis) = Inr (PythonReader RESPReader)"
  by (simp_all add: new_reader_def new_py_reader_def)

section \<open>Properties\<close>

text \<open>
  C34: the two engines of the reader agree.  For every C parser that keeps its promise, every way to cut encoded
  requests into chunks, and a last request that may still be incomplete, each chunk gives the same messages with both
  engines and no error, the loop over the C parser returns, and once all bytes are there the messages are the requests.
\<close>

theorem engines_agree:
  assumes "hiredis_reader H held" "length (concat (map encode_request requests)) \<le> MAX_BUFFER"
    and "prefix (concat chunks) (concat (map encode_request requests))"
    and "new_reader None (Some H) = Inr fast" "new_reader (Some ''python'') (Some H) = Inr slow"
  shows "\<exists>r p mss. feed_chunks H fast chunks = Some (r, map Inr mss) \<and> feed_chunks H slow chunks = Some (p, map Inr mss)
    \<and> (concat chunks = concat (map encode_request requests) \<longrightarrow> as_requests (concat mss) = Some requests)"
proof -
  have "length (concat chunks) \<le> MAX_BUFFER" using assms(2) prefix_length_le [OF assms(3)] by simp
  then obtain r p mss where "feed_chunks H fast chunks = Some (r, map Inr mss)" "feed_chunks H slow chunks = Some (p, map Inr mss)"
    "concat chunks = encoded requests \<longrightarrow> concat mss = map request_msg requests"
    using hiredis_reader.feed_chunks_requests [OF assms(1) fits_all [OF assms(2)], of "[]" chunks _ RESPReader]
      hiredis_reader.between_new [OF assms(1)] assms(3-5) encode_request_star [of "hd requests"]
    by (fastforce simp: new_reader_def RESPReader_def)
  then show ?thesis using as_requests_decoded [of requests] unfolding request_msg_def by auto
qed

theorem engines_agree_witness:
  "\<exists>r mss. feed_chunks py_hiredis new_py_reader [''*1'', [CR, LF] @ ''$4'' @ [CR, LF] @ ''PI'', ''NG'' @ [CR, LF]] =
      Some (r, map Inr mss) \<and> as_requests (concat mss) = Some [[''PING'']]"
proof -
  have "show_nat 1 = ''1''" "show_nat (Suc (Suc (Suc (Suc 0)))) = ''4''" by code_simp+
  then have e: "concat (map encode_request [[''PING'']]) = concat [''*1'', [CR, LF] @ ''$4'' @ [CR, LF] @ ''PI'', ''NG'' @ [CR, LF]]"
    by (simp add: encode_request_def protocolBuilder_lines SYM_CRLF_def)
  have l: "length (concat [''*1'', [CR, LF] @ ''$4'' @ [CR, LF] @ ''PI'', ''NG'' @ [CR, LF]]) \<le> MAX_BUFFER"
    by (simp add: MAX_BUFFER_def)
  show ?thesis
    using engines_agree [OF py.hiredis_reader_axioms, of "[[''PING'']]", unfolded e, OF l prefix_order.refl
      new_py_reader(1) new_py_reader(2)] by blast
qed

text \<open>
  C35: the engines differ on an inline command that comes in the same chunk as a request in front of it.  The Python
  engine gives both; with hiredis the chunk is a protocol error and the request in front is lost too.
\<close>

theorem inline_after_request:
  assumes "hiredis_reader H held" "c \<in> LETTERS" "CR \<notin> set line"
    and "length (encode_request request @ (c # line) @ SYM_CRLF) \<le> MAX_BUFFER"
    and "new_reader None (Some H) = Inr fast" "new_reader (Some ''python'') (Some H) = Inr slow"
  shows "(\<exists>r e. feed H fast (encode_request request @ (c # line) @ SYM_CRLF) = Some (r, Inl e))
    \<and> (\<exists>p. feed H slow (encode_request request @ (c # line) @ SYM_CRLF) =
      Some (p, Inr [decoded (RList (map RBytes request)), MList (map MBytes (split_ws (c # line)))]))"
proof
  have fit: "fits request" using assms(4) by (simp add: fits_def)
  have fast: "fast = HiredisReader \<lparr>hbuffer = [], hparser = hr_new H, engaged = False, boundary_unknown = False, fed = 0, consumed = 0\<rparr>"
    and slow: "slow = PythonReader RESPReader" using assms(5,6) by (simp_all add: new_reader_def)
  show "\<exists>r e. feed H fast (encode_request request @ (c # line) @ SYM_CRLF) = Some (r, Inl e)"
    using hiredis_reader.framed_then_letter [OF assms(1) fit assms(2) _ hiredis_reader.between_new [OF assms(1)],
        of "line @ SYM_CRLF"] assms(4) by (auto simp: fast feed_def)
  have "CR \<notin> set (c # line)" using assms(2,3) by (auto simp: CR_def LETTERS_def)
  then have "read_line ((c # line) @ SYM_CRLF) = Some (c # line, [])" using read_line_CRLF [of "c # line" "[]"] by simp
  moreover have "c \<notin> RESP_MARKERS" using assms(2) by (auto simp: LETTERS_def RESP_MARKERS_def)
  ultimately have inline: "parse_message ((c # line) @ SYM_CRLF) = Parsed (MList (map MBytes (split_ws (c # line)))) []"
    by (simp add: parse_inline_def RESP_MARKERS_def)
  have "drain (encode_request request @ (c # line) @ SYM_CRLF) =
      ([], Inr [request_msg request, MList (map MBytes (split_ws (c # line)))])"
    by (subst drain.simps, simp only: parse_request [OF fit] parsed.case, subst drain.simps,
      simp only: inline parsed.case, subst drain.simps) simp
  then show "\<exists>p. feed H slow (encode_request request @ (c # line) @ SYM_CRLF) =
      Some (p, Inr [decoded (RList (map RBytes request)), MList (map MBytes (split_ws (c # line)))])"
    using assms(4) unfolding slow request_msg_def
    by (simp add: feed_def feed_python_drain RESPReader_def del: decoded.simps)
qed

theorem inline_after_request_witness:
  "\<exists>r e. feed py_hiredis new_py_reader (encode_request [''GET'', ''k''] @ ''PING'' @ SYM_CRLF) = Some (r, Inl e)"
proof -
  have "CHR ''P'' \<in> LETTERS" "CR \<notin> set ''ING''" by (simp_all add: LETTERS_def CR_def)
  moreover have "length (encode_request [''GET'', ''k''] @ (CHR ''P'' # ''ING'') @ SYM_CRLF) \<le> MAX_BUFFER"
    by (simp add: MAX_BUFFER_def encode_request_def protocolBuilder_lines show_nat.simps SYM_CRLF_def)
  ultimately show ?thesis
    using inline_after_request [OF py.hiredis_reader_axioms _ _ _ new_py_reader] by fastforce
qed

end
