(* ===== verification/FlowControl.thy ===== *)
theory FlowControl
  imports Resp
begin

text \<open>
  Flow control of the asyncio backend, \<^verbatim>\<open>RedisServerProtocol\<close> of \<open>server_asyncio.py\<close>: reading is paused while a
  client leaves its replies unread, a timer polls until they have drained, and a subscriber whose backlog passes a limit
  has its transport closed.

  A transport of asyncio is its documented behaviour: \<open>backlog\<close> is \<^verbatim>\<open>get_write_buffer_size()\<close>; \<^verbatim>\<open>close()\<close> stops
  reading and lets the buffer drain, and the connection is lost when the buffer is empty; until then \<^verbatim>\<open>write()\<close> still
  adds to the buffer; pausing and resuming do nothing once it is closing.
\<close>

section \<open>The state\<close>

text \<open>\<open>attached\<close> is \<^verbatim>\<open>self._transport is not None\<close>; \<open>resume_handle\<close> says that a timer is set.\<close>

record flow =
  backlog :: nat
  reading :: bool
  closes :: bool
  attached :: bool
  write_paused :: bool
  resume_handle :: bool

definition HIGH_WATER :: nat where "HIGH_WATER = 1048576"
definition LOW_WATER :: nat where "LOW_WATER = HIGH_WATER div 2"
definition PUBSUB_LIMIT :: nat where "PUBSUB_LIMIT = 32 * 1048576"

lemma water_marks: "LOW_WATER > 0" "HIGH_WATER \<le> PUBSUB_LIMIT"
  by (simp_all add: LOW_WATER_def HIGH_WATER_def PUBSUB_LIMIT_def)

definition made :: flow where
  "made = \<lparr>backlog = 0, reading = True, closes = False, attached = True, write_paused = False, resume_handle = False\<rparr>"

definition transport_bytes :: "bytes \<Rightarrow> flow \<Rightarrow> flow" where
  "transport_bytes frame f = f\<lparr>backlog := backlog f + length frame\<rparr>"

definition close_transport :: "flow \<Rightarrow> flow" where
  "close_transport f = f\<lparr>closes := True, reading := False\<rparr>"

definition pause_reading :: "flow \<Rightarrow> flow" where
  "pause_reading f = (if closes f then f else f\<lparr>reading := False\<rparr>)"

definition resume_reading :: "flow \<Rightarrow> flow" where
  "resume_reading f = (if closes f then f else f\<lparr>reading := True\<rparr>)"

section \<open>The protocol\<close>

definition push_limited :: "bytes \<Rightarrow> flow \<Rightarrow> flow" where
  "push_limited frame f =
     (let f = transport_bytes frame f in if backlog f > PUBSUB_LIMIT then close_transport f else f)"

definition maybe_pause_reading :: "flow \<Rightarrow> flow" where
  "maybe_pause_reading f =
     (if \<not> attached f \<or> write_paused f \<or> backlog f \<le> HIGH_WATER then f
      else (pause_reading (f\<lparr>write_paused := True\<rparr>))\<lparr>resume_handle := True\<rparr>)"

definition maybe_resume_reading :: "flow \<Rightarrow> flow" where
  "maybe_resume_reading f =
     (let f = f\<lparr>resume_handle := False\<rparr> in
      if \<not> attached f then f\<lparr>write_paused := False\<rparr>
      else if backlog f < LOW_WATER then resume_reading (f\<lparr>write_paused := False\<rparr>)
      else f\<lparr>resume_handle := True\<rparr>)"

text \<open>
  \<^verbatim>\<open>data_received\<close>: the dispatched requests write replies and push frames to this connection; a protocol error writes
  its line and closes.
\<close>

datatype out_frame = Replied bytes | Pushed bytes

fun emit :: "out_frame \<Rightarrow> flow \<Rightarrow> flow" where
  "emit (Replied frame) f = transport_bytes frame f"
| "emit (Pushed frame) f = push_limited frame f"

definition receive :: "out_frame list \<Rightarrow> bytes option \<Rightarrow> flow \<Rightarrow> flow" where
  "receive outs failure f =
     (if \<not> attached f then f
      else
        let f = fold emit outs f;
            f = (case failure of None \<Rightarrow> f | Some line \<Rightarrow> close_transport (transport_bytes line f))
        in maybe_pause_reading f)"

definition lose :: "flow \<Rightarrow> flow" where
  "lose f = f\<lparr>attached := False, resume_handle := False, reading := False\<rparr>"

section \<open>Runs\<close>

fun reply_size :: "out_frame list \<Rightarrow> nat" where
  "reply_size [] = 0"
| "reply_size (Replied frame # outs) = length frame + reply_size outs"
| "reply_size (Pushed frame # outs) = reply_size outs"

text \<open>\<open>most\<close> bounds the replies to one chunk.  The peer reads \<open>n\<close> bytes, or resets the connection.\<close>

inductive flow_step :: "nat \<Rightarrow> flow \<Rightarrow> flow \<Rightarrow> bool" for most where
  received: "attached f \<Longrightarrow> reading f \<Longrightarrow> reply_size outs \<le> most \<Longrightarrow> flow_step most f (receive outs failure f)"
| pushed: "attached f \<Longrightarrow> flow_step most f (push_limited frame f)"
| read: "n \<le> backlog f \<Longrightarrow> flow_step most f (f\<lparr>backlog := backlog f - n\<rparr>)"
| timer: "resume_handle f \<Longrightarrow> flow_step most f (maybe_resume_reading f)"
| drained: "attached f \<Longrightarrow> closes f \<Longrightarrow> backlog f = 0 \<Longrightarrow> flow_step most f (lose f)"
| reset: "attached f \<Longrightarrow> flow_step most f (lose f)"

inductive flow_reachable :: "nat \<Rightarrow> flow \<Rightarrow> bool" for most where
  made: "flow_reachable most made"
| step: "flow_reachable most f \<Longrightarrow> flow_step most f f' \<Longrightarrow> flow_reachable most f'"

section \<open>The invariant\<close>

definition flow_ok :: "nat \<Rightarrow> flow \<Rightarrow> bool" where
  "flow_ok most f \<longleftrightarrow>
     (attached f \<longrightarrow> (write_paused f \<longleftrightarrow> resume_handle f))
     \<and> (\<not> attached f \<longrightarrow> \<not> resume_handle f)
     \<and> (attached f \<and> \<not> closes f \<longrightarrow> (reading f \<longleftrightarrow> \<not> write_paused f)
          \<and> (reading f \<longrightarrow> backlog f \<le> PUBSUB_LIMIT) \<and> backlog f \<le> PUBSUB_LIMIT + most)"

lemma push_limited_frame [simp]:
  "attached (push_limited x f) = attached f" "write_paused (push_limited x f) = write_paused f"
  "resume_handle (push_limited x f) = resume_handle f"
  by (simp_all add: push_limited_def transport_bytes_def close_transport_def Let_def)

lemma push_limited_closes:
  "closes (push_limited x f) \<longleftrightarrow> closes f \<or> backlog f + length x > PUBSUB_LIMIT"
  "\<not> closes (push_limited x f) \<Longrightarrow> reading (push_limited x f) = reading f"
  "backlog (push_limited x f) = backlog f + length x"
  by (auto simp: push_limited_def transport_bytes_def close_transport_def Let_def)

lemma emit_frame [simp]:
  "attached (emit out f) = attached f" "write_paused (emit out f) = write_paused f" "resume_handle (emit out f) = resume_handle f"
  by (cases out; simp add: transport_bytes_def)+

lemma emit_closes:
  "closes f \<Longrightarrow> closes (emit out f)" "\<not> closes (emit out f) \<Longrightarrow> reading (emit out f) = reading f"
  by (cases out; simp add: transport_bytes_def push_limited_closes)+

lemma emits_frame [simp]:
  "attached (fold emit outs f) = attached f" "write_paused (fold emit outs f) = write_paused f"
  "resume_handle (fold emit outs f) = resume_handle f"
  by (induction outs arbitrary: f) simp_all

lemma emits_open:
  assumes "\<not> closes (fold emit outs f)"
  shows "\<not> closes f \<and> reading (fold emit outs f) = reading f
    \<and> backlog (fold emit outs f) \<le> max (backlog f) PUBSUB_LIMIT + reply_size outs"
  using assms
proof (induction outs arbitrary: f)
  case (Cons out outs)
  have "\<not> closes (fold emit outs (emit out f))" using Cons.prems by simp
  note IH = Cons.IH [OF this]
  then have "\<not> closes f" "reading (emit out f) = reading f" using emit_closes [where f = f and out = out] by auto
  moreover have "max (backlog (emit out f)) PUBSUB_LIMIT + reply_size outs
      \<le> max (backlog f) PUBSUB_LIMIT + reply_size (out # outs)"
    using IH by (cases out) (auto simp: transport_bytes_def push_limited_closes)
  ultimately show ?case using IH by auto
qed simp

lemma flow_ok_receive:
  assumes "flow_ok most f" "attached f" "reading f" "reply_size outs \<le> most"
  shows "flow_ok most (receive outs failure f)"
proof -
  define g where "g = fold emit outs f"
  define h where "h = (case failure of None \<Rightarrow> g | Some line \<Rightarrow> close_transport (transport_bytes line g))"
  have g: "attached g" "write_paused g = write_paused f" "resume_handle g = resume_handle f"
    using assms(2) by (simp_all add: g_def)
  have open_g: "\<not> write_paused f \<and> reading g \<and> backlog g \<le> PUBSUB_LIMIT + most" if "\<not> closes g"
    using emits_open [of outs f] that assms by (auto simp: g_def flow_ok_def)
  have h: "attached h" "write_paused h = write_paused f" "resume_handle h = resume_handle f" "\<not> closes h \<Longrightarrow> h = g"
    using g by (auto simp: h_def transport_bytes_def close_transport_def split: option.splits)
  have "receive outs failure f = maybe_pause_reading h" using assms(2) unfolding receive_def g_def h_def Let_def by simp
  moreover have "flow_ok most (maybe_pause_reading h)"
  proof (cases "closes h")
    case True
    then show ?thesis using h assms(1,2) by (auto simp: maybe_pause_reading_def pause_reading_def flow_ok_def)
  next
    case False
    then show ?thesis using h open_g assms(1,2) water_marks(2) by (auto simp: maybe_pause_reading_def pause_reading_def flow_ok_def)
  qed
  ultimately show ?thesis by simp
qed

lemma flow_ok_step: "flow_step most f f' \<Longrightarrow> flow_ok most f \<Longrightarrow> flow_ok most f'"
proof (induction rule: flow_step.induct)
  case (received f outs failure)
  then show ?case by (simp add: flow_ok_receive)
next
  case (pushed f frame)
  then show ?case by (auto simp: push_limited_closes flow_ok_def)
next
  case (timer f)
  then show ?case using water_marks
    by (auto simp: maybe_resume_reading_def resume_reading_def flow_ok_def Let_def LOW_WATER_def HIGH_WATER_def PUBSUB_LIMIT_def)
qed (auto simp: flow_ok_def lose_def)

lemma flow_ok_reachable: "flow_reachable most f \<Longrightarrow> flow_ok most f"
proof (induction rule: flow_reachable.induct)
  case made
  show ?case by (simp add: flow_ok_def made_def)
qed (rule flow_ok_step)

lemma pushes_keep:
  "attached (fold push_limited frames f) = attached f"
  "backlog (fold push_limited frames f) = backlog f + length (concat frames)"
  by (induction frames arbitrary: f) (simp_all add: push_limited_closes)

lemma pushes_reachable: "flow_reachable most f \<Longrightarrow> attached f \<Longrightarrow> flow_reachable most (fold push_limited frames f)"
proof (induction frames arbitrary: f)
  case (Cons frame frames)
  have "flow_reachable most (push_limited frame f)"
    using Cons.prems by (auto intro: flow_reachable.step flow_step.pushed)
  moreover have "attached (push_limited frame f)" using Cons.prems(2) pushes_keep(1) [of "[frame]" f] by simp
  ultimately show ?case using Cons.IH by simp
qed simp

section \<open>Properties\<close>

text \<open>
  C36: backpressure.  While the transport is open, the bytes a client has not read are bounded by the pub/sub limit and
  the replies to one chunk, however it reads, whatever it sends and whatever is pushed to it; a connection that reads
  has at most the limit; and one that does not has its timer set, which lets it read again once the backlog has drained.
\<close>

theorem backpressure:
  assumes "flow_reachable most f" "attached f" "\<not> closes f"
  shows "backlog f \<le> PUBSUB_LIMIT + most \<and> (reading f \<longrightarrow> backlog f \<le> PUBSUB_LIMIT)
    \<and> (\<not> reading f \<longrightarrow> resume_handle f \<and> reading (maybe_resume_reading (f\<lparr>backlog := 0\<rparr>)))"
  using flow_ok_reachable [OF assms(1)] assms(2,3) water_marks(1)
  by (auto simp: flow_ok_def maybe_resume_reading_def resume_reading_def)

theorem backpressure_witness:
  "resume_handle (receive [Replied (replicate 2000000 CHR ''x'')] None made)
    \<and> reading (maybe_resume_reading (receive [Replied (replicate 2000000 CHR ''x'')] None made\<lparr>backlog := 0\<rparr>))"
proof -
  let ?f = "receive [Replied (replicate 2000000 CHR ''x'')] None made"
  have "flow_step 2000000 made ?f" by (rule flow_step.received) (simp_all add: made_def)
  then have r: "flow_reachable 2000000 ?f" by (rule flow_reachable.step [OF flow_reachable.made])
  have f: "attached ?f" "\<not> closes ?f" "\<not> reading ?f"
    by (simp_all add: receive_def made_def transport_bytes_def maybe_pause_reading_def pause_reading_def HIGH_WATER_def)
  show ?thesis using backpressure [OF r f(1,2)] f(3) by simp
qed

text \<open>
  C37: a slow subscriber is not cut off.  When the peer does not read, every frame published to it is kept, past the
  limit too, and the connection stays: closing the transport only waits for the peer to read what is buffered, and
  until then the session is in the hub and its frames are written to the same buffer.
\<close>

theorem slow_subscriber_grows:
  assumes "flow_reachable most f" "attached f"
  shows "flow_reachable most (fold push_limited frames f) \<and> attached (fold push_limited frames f)
    \<and> backlog (fold push_limited frames f) = backlog f + length (concat frames)
    \<and> (backlog f + length (concat frames) > PUBSUB_LIMIT \<and> frames \<noteq> [] \<longrightarrow> closes (fold push_limited frames f))"
proof (intro conjI impI)
  show "closes (fold push_limited frames f)" if long: "backlog f + length (concat frames) > PUBSUB_LIMIT \<and> frames \<noteq> []"
  proof -
    obtain init frame where frames: "frames = init @ [frame]" using long by (cases frames rule: rev_cases) auto
    then show ?thesis using long pushes_keep(2) [of init f] by (simp add: push_limited_closes)
  qed
qed (simp_all add: assms pushes_keep pushes_reachable)

theorem slow_subscriber_grows_witness:
  "attached (fold push_limited (replicate 40000 (replicate 1000 CHR ''x'')) made)
    \<and> backlog (fold push_limited (replicate 40000 (replicate 1000 CHR ''x'')) made) = 40000000
    \<and> closes (fold push_limited (replicate 40000 (replicate 1000 CHR ''x'')) made)"
proof -
  let ?frames = "replicate 40000 (replicate 1000 CHR ''x'')"
  have "length (concat (replicate n (replicate 1000 CHR ''x''))) = n * 1000" for n by (induction n) simp_all
  then have "length (concat ?frames) = 40000000" by simp
  then show ?thesis
    using slow_subscriber_grows [OF flow_reachable.made, of 0 ?frames] by (simp add: made_def PUBSUB_LIMIT_def)
qed

end
