(* ===== verification/CommandLine.thy ===== *)
theory CommandLine
  imports Scalars "HOL-Library.Sublist"
begin

text \<open>
  The command line of \<open>cli.py\<close>: the options of \<^verbatim>\<open>build_parser\<close>, read the way \<^verbatim>\<open>argparse\<close> reads them (values in
  the next argument or behind \<open>=\<close>, unique prefixes of long options, negative numbers as values, left to right), and
  the checks of \<^verbatim>\<open>_parse\<close>.  Text is kept as bytes.  Left out, and
  counted as usage errors: the separator \<^verbatim>\<open>--\<close>, and letters joined to \<^verbatim>\<open>-h\<close>.
\<close>

section \<open>The configuration\<close>

record config =
  cf_loop :: bytes
  cf_host :: bytes
  cf_port :: int
  cf_socket_path :: "bytes option"
  cf_db_path :: bytes
  cf_dump_interval :: int
  cf_no_uvloop :: bool
  cf_save :: bool
  cf_daemon :: bool
  cf_pidfile :: "bytes option"
  cf_logfile :: "bytes option"

text \<open>The defaults; \<open>kagni_db\<close> is the environment variable \<^verbatim>\<open>KAGNI_DB\<close>.\<close>

definition DEFAULT_DB_PATH :: "bytes option \<Rightarrow> bytes" where
  "DEFAULT_DB_PATH kagni_db = (case kagni_db of None \<Rightarrow> ''kagni.sqlite'' | Some path \<Rightarrow> path)"

definition DEFAULT_HOST :: bytes where "DEFAULT_HOST = ''localhost''"
definition DEFAULT_PORT :: int where "DEFAULT_PORT = 6379"
definition DEFAULT_DUMP_INTERVAL :: int where "DEFAULT_DUMP_INTERVAL = 20"

definition default_config :: "bytes option \<Rightarrow> config" where
  "default_config kagni_db = \<lparr>cf_loop = ''asyncio'', cf_host = DEFAULT_HOST, cf_port = DEFAULT_PORT, cf_socket_path = None,
     cf_db_path = DEFAULT_DB_PATH kagni_db, cf_dump_interval = DEFAULT_DUMP_INTERVAL, cf_no_uvloop = False, cf_save = True,
     cf_daemon = False, cf_pidfile = None, cf_logfile = None\<rparr>"

section \<open>The options\<close>

datatype opt = OHelp | OVersion | OLoop | OHost | OPort | OSocket | ODb | ODumpInterval | ONoSave | ONoUvloop | ODaemon
  | OPidfile | OLogfile

definition OPTIONS :: "(bytes \<times> opt) list" where
  "OPTIONS = [(''-h'', OHelp), (''--help'', OHelp), (''--version'', OVersion), (''--loop'', OLoop), (''--host'', OHost),
     (''--port'', OPort), (''--socket'', OSocket), (''--db'', ODb), (''--dump-interval'', ODumpInterval),
     (''--no-save'', ONoSave), (''--no-uvloop'', ONoUvloop), (''--daemon'', ODaemon), (''--pidfile'', OPidfile),
     (''--logfile'', OLogfile)]"

definition LOOPS :: "bytes list" where "LOOPS = [''asyncio'', ''trio'']"

text \<open>Options without a value, and what an option with a value does.\<close>

fun set_flag :: "opt \<Rightarrow> config \<Rightarrow> config option" where
  "set_flag ONoSave c = Some (c\<lparr>cf_save := False\<rparr>)"
| "set_flag ONoUvloop c = Some (c\<lparr>cf_no_uvloop := True\<rparr>)"
| "set_flag ODaemon c = Some (c\<lparr>cf_daemon := True\<rparr>)"
| "set_flag _ c = None"

fun set_value :: "opt \<Rightarrow> bytes \<Rightarrow> config \<Rightarrow> config option" where
  "set_value OLoop v c = (if v \<in> set LOOPS then Some (c\<lparr>cf_loop := v\<rparr>) else None)"
| "set_value OHost v c = Some (c\<lparr>cf_host := v\<rparr>)"
| "set_value OPort v c = map_option (\<lambda>n. c\<lparr>cf_port := n\<rparr>) (py_int v)"
| "set_value OSocket v c = Some (c\<lparr>cf_socket_path := Some v\<rparr>)"
| "set_value ODb v c = Some (c\<lparr>cf_db_path := v\<rparr>)"
| "set_value ODumpInterval v c = map_option (\<lambda>n. c\<lparr>cf_dump_interval := n\<rparr>) (py_int v)"
| "set_value OPidfile v c = Some (c\<lparr>cf_pidfile := Some v\<rparr>)"
| "set_value OLogfile v c = Some (c\<lparr>cf_logfile := Some v\<rparr>)"
| "set_value _ v c = None"

definition takes_value :: "opt \<Rightarrow> bool" where
  "takes_value opt \<longleftrightarrow> opt \<notin> {OHelp, OVersion, ONoSave, ONoUvloop, ODaemon}"

section \<open>Reading arguments\<close>

datatype arg_class = Positional | Unknown | Ambiguous | Known opt "bytes option"

definition split_eq :: "bytes \<Rightarrow> bytes \<times> bytes option" where
  "split_eq a =
     (case dropWhile (\<lambda>c. c \<noteq> CHR ''='') a of
        [] \<Rightarrow> (a, None)
      | _ # v \<Rightarrow> (takeWhile (\<lambda>c. c \<noteq> CHR ''='') a, Some v))"

definition negative_number :: "bytes \<Rightarrow> bool" where
  "negative_number a =
     (case a of
        [] \<Rightarrow> False
      | c # body \<Rightarrow> c = CHR ''-'' \<and> body \<noteq> [] \<and>
          (list_all is_digit body \<or>
           (case dropWhile is_digit body of
              d # places \<Rightarrow> d = CHR ''.'' \<and> places \<noteq> [] \<and> list_all is_digit places
            | [] \<Rightarrow> False)))"

text \<open>The options an argument may abbreviate.\<close>

definition candidates :: "bytes \<Rightarrow> (opt \<times> bytes option) list" where
  "candidates a =
     (if take 2 a = ''--'' then
        (case split_eq a of (name, v) \<Rightarrow>
           map (\<lambda>(s, opt). (opt, v)) (filter (\<lambda>(s, opt). prefix name s) OPTIONS))
      else if take 2 a = ''-h'' then [(OHelp, Some (drop 2 a))]
      else [])"

definition classify :: "bytes \<Rightarrow> arg_class" where
  "classify a =
     (if a = [] \<or> hd a \<noteq> CHR ''-'' then Positional
      else
        (case map_of OPTIONS a of
           Some opt \<Rightarrow> Known opt None
         | None \<Rightarrow>
             if length a = 1 then Positional
             else
               (case split_eq a of (name, v) \<Rightarrow>
                  (case (if v = None then None else map_of OPTIONS name) of
                     Some opt \<Rightarrow> Known opt v
                   | None \<Rightarrow>
                       (case candidates a of
                          [(opt, v)] \<Rightarrow> Known opt v
                        | _ # _ \<Rightarrow> Ambiguous
                        | [] \<Rightarrow> if negative_number a \<or> CHR '' '' \<in> set a then Positional else Unknown)))))"

text \<open>Help and the version exit with 0; a usage error exits with 2, before anything has been done.\<close>

datatype command_line = Exits | UsageError | Run config

text \<open>\<open>extras\<close> says that an argument was not recognized, which is an error at the end.\<close>

fun parse_args :: "bytes list \<Rightarrow> bool \<Rightarrow> config \<Rightarrow> command_line" where
  "parse_args [] extras c = (if extras then UsageError else Run c)"
| "parse_args (a # rest) extras c =
     (case classify a of
        Positional \<Rightarrow> parse_args rest True c
      | Unknown \<Rightarrow> parse_args rest True c
      | Ambiguous \<Rightarrow> UsageError
      | Known opt explicit \<Rightarrow>
          if \<not> takes_value opt then
            (if explicit \<noteq> None then UsageError
             else (case set_flag opt c of None \<Rightarrow> Exits | Some c \<Rightarrow> parse_args rest extras c))
          else
            (case explicit of
               Some v \<Rightarrow> (case set_value opt v c of None \<Rightarrow> UsageError | Some c \<Rightarrow> parse_args rest extras c)
             | None \<Rightarrow>
                 (case rest of
                    [] \<Rightarrow> UsageError
                  | v # rest \<Rightarrow>
                      if classify v \<noteq> Positional then UsageError
                      else (case set_value opt v c of None \<Rightarrow> UsageError | Some c \<Rightarrow> parse_args rest extras c))))"

text \<open>\<^verbatim>\<open>_parse\<close>.\<close>

definition check_config :: "config \<Rightarrow> command_line" where
  "check_config c =
     (if \<not> (0 \<le> cf_port c \<and> cf_port c \<le> 65535) then UsageError
      else if cf_port c = 0 \<and> cf_socket_path c \<in> {None, Some []} then UsageError
      else if cf_dump_interval c < 1 then UsageError
      else Run c)"

definition parse_command_line :: "bytes option \<Rightarrow> bytes list \<Rightarrow> command_line" where
  "parse_command_line kagni_db argv =
     (case parse_args argv False (default_config kagni_db) of
        Run c \<Rightarrow> check_config c
      | out \<Rightarrow> out)"

section \<open>Configurations as arguments\<close>

definition valid_config :: "config \<Rightarrow> bool" where
  "valid_config c \<longleftrightarrow> cf_loop c \<in> set LOOPS \<and> 0 \<le> cf_port c \<and> cf_port c \<le> 65535
     \<and> (cf_port c = 0 \<longrightarrow> cf_socket_path c \<notin> {None, Some []}) \<and> 1 \<le> cf_dump_interval c"

text \<open>Every setting written out, with its value behind \<open>=\<close>.\<close>

definition args_of :: "config \<Rightarrow> bytes list" where
  "args_of c =
     [''--loop='' @ cf_loop c, ''--host='' @ cf_host c, ''--port='' @ show_int (cf_port c), ''--db='' @ cf_db_path c,
      ''--dump-interval='' @ show_int (cf_dump_interval c)]
     @ (case cf_socket_path c of None \<Rightarrow> [] | Some p \<Rightarrow> [''--socket='' @ p])
     @ (if cf_save c then [] else [''--no-save'']) @ (if cf_no_uvloop c then [''--no-uvloop''] else [])
     @ (if cf_daemon c then [''--daemon''] else [])
     @ (case cf_pidfile c of None \<Rightarrow> [] | Some p \<Rightarrow> [''--pidfile='' @ p])
     @ (case cf_logfile c of None \<Rightarrow> [] | Some p \<Rightarrow> [''--logfile='' @ p])"

lemma split_eq_assign: "CHR ''='' \<notin> set name \<Longrightarrow> split_eq (name @ CHR ''='' # v) = (name, Some v)"
  by (auto simp: split_eq_def takeWhile_append dropWhile_append)

lemma OPTIONS_assign: "map_of OPTIONS (name @ CHR ''='' # v) = None"
proof -
  have "CHR ''='' \<notin> set s" if "(s, opt) \<in> set OPTIONS" for s opt using that by (auto simp: OPTIONS_def)
  then have "(name @ CHR ''='' # v, opt) \<notin> set OPTIONS" for opt by (metis in_set_conv_decomp)
  then show ?thesis by (metis map_of_SomeD not_None_eq)
qed

lemma classify_assign:
  assumes "map_of OPTIONS name = Some opt" "CHR ''='' \<notin> set name"
  shows "classify (name @ CHR ''='' # v) = Known opt (Some v)"
proof -
  have "(name, opt) \<in> set OPTIONS" using assms(1) by (rule map_of_SomeD)
  then have "name \<noteq> [] \<and> hd name = CHR ''-''" by (auto simp: OPTIONS_def)
  then have "name @ CHR ''='' # v \<noteq> []" "hd (name @ CHR ''='' # v) = CHR ''-''" "length (name @ CHR ''='' # v) \<noteq> 1"
    by auto
  then show ?thesis unfolding classify_def OPTIONS_assign split_eq_assign [OF assms(2)] by (simp add: assms(1))
qed

lemma parse_assign:
  assumes "map_of OPTIONS name = Some opt" "CHR ''='' \<notin> set name" "takes_value opt" "set_value opt v c = Some c'"
  shows "parse_args ((name @ CHR ''='' # v) # rest) extras c = parse_args rest extras c'"
  using classify_assign [OF assms(1,2)] assms(3,4) by simp

lemma parse_flag:
  assumes "map_of OPTIONS name = Some opt" "set_flag opt c = Some c'"
  shows "parse_args (name # rest) extras c = parse_args rest extras c'"
proof -
  have "(name, opt) \<in> set OPTIONS" using assms(1) by (rule map_of_SomeD)
  then have "name \<noteq> [] \<and> hd name = CHR ''-''" by (auto simp: OPTIONS_def)
  moreover have "\<not> takes_value opt" using assms(2) by (cases opt) (auto simp: takes_value_def)
  ultimately show ?thesis using assms by (simp add: classify_def)
qed

lemma set_value_loop:
  "set_value opt v c = Some c' \<Longrightarrow> cf_loop c \<in> set LOOPS \<Longrightarrow> cf_loop c' \<in> set LOOPS"
  "set_flag opt c = Some c' \<Longrightarrow> cf_loop c' = cf_loop c"
  by (cases opt; auto split: if_splits)+

lemma parse_args_loop: "parse_args args extras c = Run c' \<Longrightarrow> cf_loop c \<in> set LOOPS \<Longrightarrow> cf_loop c' \<in> set LOOPS"
proof (induction args extras c rule: parse_args.induct)
  case (2 a rest extras c)
  then show ?case
    by (auto split: arg_class.splits if_splits option.splits list.splits dest: set_value_loop)
qed (simp split: if_splits)

lemma show_int_fits: "0 \<le> i \<Longrightarrow> i \<le> 65535 \<Longrightarrow> length (show_int i) \<le> MAX_STR_DIGITS"
proof -
  assume i: "0 \<le> i" "i \<le> 65535"
  then have "nat i < 10 ^ Suc 4" by simp
  then have "length (show_nat (nat i)) \<le> Suc 4" by (rule show_nat_short)
  then show ?thesis using i(1) by (simp add: show_int_def MAX_STR_DIGITS_def)
qed

lemma parse_args_of:
  assumes "cf_loop c \<in> set LOOPS" "length (show_int (cf_port c)) \<le> MAX_STR_DIGITS"
    "length (show_int (cf_dump_interval c)) \<le> MAX_STR_DIGITS"
  shows "parse_args (args_of c) False (default_config d) = Run c"
proof -
  note assign = parse_assign [where extras = False]
  have loop: "parse_args ((''--loop'' @ CHR ''='' # v) # rest) False x = parse_args rest False (x\<lparr>cf_loop := v\<rparr>)"
    if "v \<in> set LOOPS" for v rest x
    by (rule assign [where opt = OLoop]) (use that in \<open>auto simp: OPTIONS_def takes_value_def\<close>)
  have texts: "parse_args ((''--host'' @ CHR ''='' # v) # rest) False x = parse_args rest False (x\<lparr>cf_host := v\<rparr>)"
    "parse_args ((''--db'' @ CHR ''='' # v) # rest) False x = parse_args rest False (x\<lparr>cf_db_path := v\<rparr>)"
    "parse_args ((''--socket'' @ CHR ''='' # v) # rest) False x = parse_args rest False (x\<lparr>cf_socket_path := Some v\<rparr>)"
    "parse_args ((''--pidfile'' @ CHR ''='' # v) # rest) False x = parse_args rest False (x\<lparr>cf_pidfile := Some v\<rparr>)"
    "parse_args ((''--logfile'' @ CHR ''='' # v) # rest) False x = parse_args rest False (x\<lparr>cf_logfile := Some v\<rparr>)"
    for v rest x
    by (rule assign [where opt = OHost] assign [where opt = ODb] assign [where opt = OSocket] assign [where opt = OPidfile]
        assign [where opt = OLogfile]; simp add: OPTIONS_def takes_value_def)+
  have numbers: "parse_args ((''--port'' @ CHR ''='' # show_int n) # rest) False x = parse_args rest False (x\<lparr>cf_port := n\<rparr>)"
    "parse_args ((''--dump-interval'' @ CHR ''='' # show_int n) # rest) False x =
      parse_args rest False (x\<lparr>cf_dump_interval := n\<rparr>)"
    if "length (show_int n) \<le> MAX_STR_DIGITS" for n rest x
    by (rule assign [where opt = OPort] assign [where opt = ODumpInterval];
        simp add: OPTIONS_def takes_value_def py_int_show_int [OF that])+
  have flags: "parse_args (''--no-save'' # rest) False x = parse_args rest False (x\<lparr>cf_save := False\<rparr>)"
    "parse_args (''--no-uvloop'' # rest) False x = parse_args rest False (x\<lparr>cf_no_uvloop := True\<rparr>)"
    "parse_args (''--daemon'' # rest) False x = parse_args rest False (x\<lparr>cf_daemon := True\<rparr>)" for rest x
    by (rule parse_flag [where opt = ONoSave] parse_flag [where opt = ONoUvloop] parse_flag [where opt = ODaemon];
        simp add: OPTIONS_def)+
  show ?thesis
    using loop [OF assms(1)] texts numbers [OF assms(2)] numbers [OF assms(3)] flags
    by (cases c) (simp add: args_of_def default_config_def split: option.split)
qed

section \<open>Property\<close>

text \<open>
  C38: what the command line accepts.  Every configuration that comes out has a known event loop, a port in range, a
  place to listen on and an interval of at least a second; and every such configuration can be written as arguments
  that give it back, whatever the paths and the host are.
\<close>

theorem command_line_roundtrip:
  "(parse_command_line kagni_db argv = Run c \<longrightarrow> valid_config c)
    \<and> (valid_config c \<and> length (show_int (cf_dump_interval c)) \<le> MAX_STR_DIGITS \<longrightarrow>
        parse_command_line kagni_db (args_of c) = Run c)"
proof (intro conjI impI)
  assume "parse_command_line kagni_db argv = Run c"
  then have c: "parse_args argv False (default_config kagni_db) = Run c" "check_config c = Run c"
    by (auto simp: parse_command_line_def check_config_def split: command_line.splits if_splits)
  have "cf_loop c \<in> set LOOPS" by (rule parse_args_loop [OF c(1)]) (simp add: default_config_def LOOPS_def)
  then show "valid_config c" using c(2) by (auto simp: check_config_def valid_config_def split: if_splits)
next
  assume c: "valid_config c \<and> length (show_int (cf_dump_interval c)) \<le> MAX_STR_DIGITS"
  then have "check_config c = Run c" by (auto simp: check_config_def valid_config_def)
  then show "parse_command_line kagni_db (args_of c) = Run c"
    using parse_args_of [of c kagni_db] show_int_fits [of "cf_port c"] c
    by (simp add: parse_command_line_def valid_config_def)
qed

theorem command_line_roundtrip_witness:
  "parse_command_line None (args_of (default_config None\<lparr>cf_port := 0, cf_socket_path := Some ''/tmp/s''\<rparr>)) =
    Run (default_config None\<lparr>cf_port := 0, cf_socket_path := Some ''/tmp/s''\<rparr>)"
proof -
  have "length (show_int 20) \<le> MAX_STR_DIGITS" by (rule show_int_fits) simp_all
  then show ?thesis
    using command_line_roundtrip [of None "[]" "default_config None\<lparr>cf_port := 0, cf_socket_path := Some ''/tmp/s''\<rparr>"]
    by (simp add: valid_config_def default_config_def LOOPS_def DEFAULT_DUMP_INTERVAL_def)
qed

end
