(* ===== verification/DbSnapshot.thy ===== *)
theory DbSnapshot
  imports DataStore
begin

text \<open>
  Persistence: the sqlite table of \<open>db.py\<close>, the dumper task and the boot and shutdown of
  \<open>server_asyncio.py\<close> and \<open>cli.py\<close>.

  The table is the list of its rows; \<^verbatim>\<open>pickle\<close> gives back what it was given, and a transaction
  of sqlite is one step.  A dump runs in a worker thread while the event loop goes on: \<open>db_step\<close>
  interleaves the loop and any number of dumps, with the lock of \<^verbatim>\<open>DB\<close> taken and released where the
  code does.
\<close>

type_synonym 'v snapshot = "(bytes \<times> ('v \<times> int option)) list"

section \<open>The table\<close>

text \<open>The freshness guard of \<^verbatim>\<open>dump\<close>: the epoch of the store now, and the one of the snapshot.\<close>

definition stands_down :: "(int \<times> int) option \<Rightarrow> bool" where
  "stands_down guard = (case guard of None \<Rightarrow> False | Some (now, taken_in) \<Rightarrow> now \<noteq> taken_in)"

definition db_dump :: "'v snapshot \<Rightarrow> (int \<times> int) option \<Rightarrow> (bytes \<times> 'v row) list \<Rightarrow> (bytes \<times> 'v row) list" where
  "db_dump snapshot guard table = (if stands_down guard then table else rows_of snapshot)"

definition db_load :: "(bytes \<times> 'v row) list \<Rightarrow> (bytes \<times> 'v row) list" where
  "db_load table = fold (\<lambda>(key, item). AList.update key item) table []"

definition db_flush :: "(bytes \<times> 'v row) list \<Rightarrow> (bytes \<times> 'v row) list" where
  "db_flush table = []"

text \<open>\<^verbatim>\<open>build_runtime\<close>: a new store with the rows of the table restored.\<close>

definition boot :: "clock \<Rightarrow> (bytes \<times> 'v row) list \<Rightarrow> 'v data" where
  "boot ck table = data_restore ck (db_load table) Data"

section \<open>The server and its dumps\<close>

text \<open>
  \<open>jobs\<close> are dumps handed to the executor with the epoch of their snapshot; \<open>committing\<close> is the dump that
  holds the lock and has passed the guard; \<open>flushing\<close> is the loop between \<^verbatim>\<open>clear\<close> and the wipe of the
  table.  \<open>taken\<close> is a history variable: every snapshot, with its epoch.
\<close>

record 'v db_state =
  mem :: "'v data"
  table :: "(bytes \<times> 'v row) list"
  jobs :: "('v snapshot \<times> int) list"
  committing :: "'v snapshot option"
  flushing :: bool
  taken :: "('v snapshot \<times> int) list"

definition hand_over :: "'v data \<Rightarrow> 'v snapshot \<Rightarrow> 'v db_state \<Rightarrow> 'v db_state" where
  "hand_over d snapshot p =
     p\<lparr>mem := d, jobs := jobs p @ [(snapshot, epoch d)], taken := (snapshot, epoch d) # taken p\<rparr>"

text \<open>One round of \<^verbatim>\<open>dumper\<close>: an empty snapshot is not dumped.  The final dump is not skipped.\<close>

definition dumper_tick :: "clock \<Rightarrow> 'v db_state \<Rightarrow> 'v db_state" where
  "dumper_tick ck p =
     (case data_snapshot ck (mem p) of
        (d, _, snapshot) \<Rightarrow> if snapshot = [] then p\<lparr>mem := d\<rparr> else hand_over d snapshot p)"

definition final_dump :: "clock \<Rightarrow> 'v db_state \<Rightarrow> 'v db_state" where
  "final_dump ck p = (case data_snapshot ck (mem p) of (d, _, snapshot) \<Rightarrow> hand_over d snapshot p)"

inductive db_step :: "'v db_state \<Rightarrow> 'v db_state \<Rightarrow> bool" where
  command: "\<not> flushing p \<Longrightarrow> epoch d = epoch (mem p) \<Longrightarrow> db_step p (p\<lparr>mem := d\<rparr>)"
| tick: "\<not> flushing p \<Longrightarrow> db_step p (dumper_tick ck p)"
| final: "\<not> flushing p \<Longrightarrow> db_step p (final_dump ck p)"
| stale: "(snapshot, e) \<in> set (jobs p) \<Longrightarrow> committing p = None \<Longrightarrow> stands_down (Some (epoch (mem p), e)) \<Longrightarrow>
    db_step p (p\<lparr>jobs := remove1 (snapshot, e) (jobs p)\<rparr>)"
| guarded: "(snapshot, e) \<in> set (jobs p) \<Longrightarrow> committing p = None \<Longrightarrow> \<not> stands_down (Some (epoch (mem p), e)) \<Longrightarrow>
    db_step p (p\<lparr>jobs := remove1 (snapshot, e) (jobs p), committing := Some snapshot\<rparr>)"
| commit: "committing p = Some snapshot \<Longrightarrow>
    db_step p (p\<lparr>table := db_dump snapshot None (table p), committing := None\<rparr>)"
| clear: "\<not> flushing p \<Longrightarrow> db_step p (p\<lparr>mem := data_clear (mem p), flushing := True\<rparr>)"
| wipe: "flushing p \<Longrightarrow> committing p = None \<Longrightarrow> db_step p (p\<lparr>table := db_flush (table p), flushing := False\<rparr>)"

inductive_cases db_stepE: "db_step p p'"

definition booted :: "clock \<Rightarrow> 'v snapshot \<Rightarrow> 'v db_state" where
  "booted ck snapshot = \<lparr>mem = boot ck (rows_of snapshot), table = rows_of snapshot, jobs = [], committing = None,
     flushing = False, taken = [(snapshot, 0)]\<rparr>"

inductive db_reachable :: "'v db_state \<Rightarrow> bool" where
  boot: "db_reachable (booted ck snapshot)"
| step: "db_reachable p \<Longrightarrow> db_step p p' \<Longrightarrow> db_reachable p'"

section \<open>Loading what was dumped\<close>

lemma fold_update_distinct:
  "distinct (map fst (acc @ rows)) \<Longrightarrow> fold (\<lambda>(key, item). AList.update key item) rows acc = acc @ rows"
proof (induction rows arbitrary: acc)
  case (Cons r rows)
  obtain k v where r: "r = (k, v)" by (cases r)
  have "k \<notin> set (map fst acc)" using Cons.prems by (auto simp: r)
  then have "AList.update k v acc = acc @ [(k, v)]" by (induction acc) auto
  then show ?case using Cons.IH [of "acc @ [(k, v)]"] Cons.prems by (simp add: r)
qed simp

lemma load_rows: "distinct (map fst snapshot) \<Longrightarrow> db_load (rows_of snapshot) = rows_of snapshot"
  using fold_update_distinct [of "[]" "rows_of snapshot"]
  by (simp add: db_load_def rows_of_def comp_def case_prod_unfold)

section \<open>The epoch guard\<close>

lemma epoch_snapshot [simp]: "epoch (fst (data_snapshot ck d)) = epoch d"
proof -
  have "epoch (fold purge_key ks d) = epoch d" for ks
    by (induction ks arbitrary: d) (simp_all add: purge_key_def)
  then show ?thesis by (simp add: data_snapshot_def Let_def)
qed

lemma epoch_boot:
  fixes tbl :: "(bytes \<times> 'v row) list"
  shows "epoch (boot ck tbl) = 0"
proof -
  have "epoch (fold (restore_row ck) rows d) = epoch d" for rows and d :: "'v data"
  proof (induction rows arbitrary: d)
    case (Cons r rows)
    have "epoch (restore_row ck r d) = epoch d"
      by (cases r) (auto simp: Let_def split: option.splits row.splits)
    then show ?case using Cons by simp
  qed simp
  then show ?thesis by (simp add: boot_def data_restore_def Data_def)
qed

definition guarded_state :: "'v db_state \<Rightarrow> bool" where
  "guarded_state p \<longleftrightarrow>
     (\<forall>job \<in> set (jobs p). job \<in> set (taken p)) \<and> (\<forall>(s, e) \<in> set (taken p). e \<le> epoch (mem p))
     \<and> (\<not> flushing p \<longrightarrow> (\<forall>s. committing p = Some s \<longrightarrow> (s, epoch (mem p)) \<in> set (taken p)))
     \<and> (\<not> flushing p \<longrightarrow> table p = [] \<or> (\<exists>s. (s, epoch (mem p)) \<in> set (taken p) \<and> table p = rows_of s))"

lemma guarded_hand_over:
  "guarded_state p \<Longrightarrow> epoch d = epoch (mem p) \<Longrightarrow> guarded_state (hand_over d snapshot p)"
  by (auto simp: guarded_state_def hand_over_def)

lemma guarded_mem: "guarded_state p \<Longrightarrow> epoch d = epoch (mem p) \<Longrightarrow> guarded_state (p\<lparr>mem := d\<rparr>)"
  by (simp add: guarded_state_def)

lemma guarded_step: "db_step p p' \<Longrightarrow> guarded_state p \<Longrightarrow> guarded_state p'"
proof (erule db_stepE)
  fix ck assume "guarded_state p" "p' = dumper_tick ck p"
  then show "guarded_state p'"
    by (simp add: dumper_tick_def guarded_mem guarded_hand_over case_prod_unfold)
next
  fix ck assume "guarded_state p" "p' = final_dump ck p"
  then show "guarded_state p'"
    by (simp add: final_dump_def guarded_hand_over case_prod_unfold)
next
  assume "guarded_state p" "p' = p\<lparr>mem := data_clear (mem p), flushing := True\<rparr>"
  then show "guarded_state p'" by (fastforce simp: guarded_state_def data_clear_def)
qed (auto simp: guarded_state_def stands_down_def db_dump_def db_flush_def dest: notin_set_remove1 set_remove1_subset [THEN subsetD])

lemma guarded_reachable: "db_reachable p \<Longrightarrow> guarded_state p"
proof (induction rule: db_reachable.induct)
  case (boot ck snapshot)
  then show ?case by (auto simp: guarded_state_def booted_def epoch_boot)
qed (rule guarded_step)

section \<open>Properties\<close>

text \<open>
  C5: a restart keeps the keyspace.  The snapshot of a store, dumped over any old table and loaded by a
  new process, is the same keyspace: every key has its value, every deadline is moved to the new monotonic
  clock so that the time to live is shortened by exactly the wall-clock time that passed, and the keys
  whose time ran out meanwhile are left out.
\<close>

theorem restart_keeps_keyspace:
  fixes d :: "'v data"
  assumes "wf_data d"
  shows "peek ck' (boot ck' (db_dump (snd (snd (data_snapshot ck d))) (Some (epoch d, epoch d)) tbl)) key =
    (case peek ck d key of
       None \<Rightarrow> None
     | Some (v, None) \<Rightarrow> Some (v, None)
     | Some (v, Some t) \<Rightarrow>
         let ttl = (t - mono_ns ck) - (wall_ns ck' - wall_ns ck)
         in if 0 < ttl then Some (v, Some (mono_ns ck' + ttl)) else None)"
  by (simp add: boot_def db_dump_def stands_down_def load_rows snapshot_out(1) [OF assms] restored_snapshot [OF assms])

theorem restart_keeps_keyspace_witness:
  "peek \<lparr>mono_ns = 0, wall_ns = 8000\<rparr>
     (boot \<lparr>mono_ns = 0, wall_ns = 8000\<rparr> (db_dump (snd (snd (data_snapshot demo_clock demo_data))) (Some (0, 0)) []))
     ''b'' = Some (''2'', Some 4998900)"
proof -
  have "wf_data demo_data" by (simp add: wf_data_def demo_data_def)
  from restart_keeps_keyspace [OF this, of "\<lparr>mono_ns = 0, wall_ns = 8000\<rparr>" demo_clock "[]" "''b''"]
  show ?thesis
    by (simp add: peek_def demo_data_def demo_clock_def live_def Let_def)
qed

text \<open>
  C6: a flush cannot be undone by a dump.  However commands, dumps in worker threads and flushes are
  interleaved, whenever no flush is under way the table is empty or holds a snapshot that was taken
  after the last flush: it was taken in the current epoch of the store.
\<close>

theorem flushed_stays_flushed:
  assumes "db_reachable p" "\<not> flushing p"
  shows "table p = [] \<or> (\<exists>snapshot. (snapshot, epoch (mem p)) \<in> set (taken p) \<and> table p = rows_of snapshot)"
  using guarded_reachable [OF assms(1)] assms(2) by (simp add: guarded_state_def)

text \<open>A booted server that is flushed.\<close>

definition demo_db :: "bytes db_state" where
  "demo_db = booted demo_clock [(''a'', (''1'', None))]"

lemma demo_flush:
  "db_reachable (demo_db\<lparr>mem := data_clear (mem demo_db), flushing := True\<rparr>)"
  "db_reachable (demo_db\<lparr>mem := data_clear (mem demo_db), table := [], flushing := False\<rparr>)"
proof -
  show 1: "db_reachable (demo_db\<lparr>mem := data_clear (mem demo_db), flushing := True\<rparr>)"
    by (rule db_reachable.step [OF db_reachable.boot [of demo_clock "[(''a'', (''1'', None))]"]])
      (use db_step.clear [of demo_db] in \<open>simp add: demo_db_def booted_def\<close>)
  show "db_reachable (demo_db\<lparr>mem := data_clear (mem demo_db), table := [], flushing := False\<rparr>)"
    by (rule db_reachable.step [OF 1])
      (use db_step.wipe [of "demo_db\<lparr>mem := data_clear (mem demo_db), flushing := True\<rparr>"] in
        \<open>simp add: demo_db_def booted_def db_flush_def\<close>)
qed

theorem flushed_stays_flushed_witness:
  "table (demo_db\<lparr>mem := data_clear (mem demo_db), table := [], flushing := False\<rparr>) = []
    \<or> (\<exists>snapshot. (snapshot, 1) \<in> set (taken demo_db) \<and> [] = rows_of snapshot)"
  using flushed_stays_flushed [OF demo_flush(2)]
  by (auto simp: demo_db_def booted_def data_clear_def epoch_boot)

text \<open>
  The dumper hands over exactly the visible keys, but nothing when there are none.  So after the last
  key of a server has been deleted or has expired, its rounds leave the table with the rows of the last
  snapshot that had keys, and a restart without a final dump brings these keys back.
\<close>

theorem dumper_skips_empty:
  fixes p :: "'v db_state"
  assumes "wf_data (mem p)"
  shows "if peek ck (mem p) = Map.empty
    then jobs (dumper_tick ck p) = jobs p \<and> table (dumper_tick ck p) = table p
    else \<exists>snapshot. jobs (dumper_tick ck p) = jobs p @ [(snapshot, epoch (mem p))]
      \<and> map_of snapshot = (\<lambda>key. map_option (\<lambda>(v, t). (v, map_option (\<lambda>t. wall_ns ck + (t - mono_ns ck)) t))
          (peek ck (mem p) key))"
proof -
  let ?snap = "snd (snd (data_snapshot ck (mem p)))"
  have out: "map_of ?snap = (\<lambda>key. map_option (\<lambda>(v, t). (v, map_option (\<lambda>t. wall_ns ck + (t - mono_ns ck)) t))
      (peek ck (mem p) key))"
    using snapshot_out(2) [OF assms] by blast
  then have "?snap = [] \<longleftrightarrow> peek ck (mem p) = Map.empty"
    by (metis map_of_eq_empty_iff option.map_disc_iff map_option_is_None)
  then show ?thesis using out by (auto simp: dumper_tick_def hand_over_def case_prod_unfold)
qed

theorem dumper_skips_empty_witness:
  "table (dumper_tick demo_clock (demo_db\<lparr>mem := Data\<rparr>)) = [(''a'', Row ''1'' None)]"
proof -
  have "wf_data (mem (demo_db\<lparr>mem := Data\<rparr>))" by (simp add: wf_data_def Data_def)
  moreover have "peek demo_clock (mem (demo_db\<lparr>mem := Data\<rparr>)) = Map.empty"
    by (simp add: peek_def Data_def fun_eq_iff)
  moreover have "table (demo_db\<lparr>mem := Data\<rparr>) = [(''a'', Row ''1'' None)]"
    by (simp add: demo_db_def booted_def rows_of_def)
  ultimately show ?thesis using dumper_skips_empty [of "demo_db\<lparr>mem := Data\<rparr>" demo_clock] by simp
qed

end
