(* ===== verification/Lifecycle.thy ===== *)
theory Lifecycle
  imports CommandLine DbSnapshot
begin

text \<open>
  The life of a process: \<^verbatim>\<open>main\<close>, \<^verbatim>\<open>build_runtime\<close> and the socket and pid files of \<open>cli.py\<close>, \<^verbatim>\<open>amain\<close> of
  the two backends, the embedded server of \<open>embed.py\<close> and the start of a test server in \<open>testing.py\<close>, as far as
  they touch files and the store.

  What the operating system and the clients do is in a \<open>host\<close>: the clocks, whether the TCP port can be bound and
  the snapshot be read, what the requests make of the store, the last dump of the dumper, and how serving ends.  The
  files are a map from paths; a path that is not a listening socket refuses a connection, whatever is there.
  Forking (\<^verbatim>\<open>--daemon\<close>), logging and signal handlers are left out.
\<close>

section \<open>Files\<close>









section \<open>The store and its file\<close>







section \<open>A server process\<close>












section \<open>The embedded server\<close>

datatype backend = Asyncio | Trio

text \<open>\<^verbatim>\<open>serve(loop=...)\<close>: the loop asked for, or the one that runs.\<close>

definition pick_loop :: "bytes \<Rightarrow> bool \<Rightarrow> bool \<Rightarrow> bytes + backend" where
  "pick_loop loop in_asyncio in_trio =
     (if loop = ''auto'' then
        (if in_asyncio then Inr Asyncio
         else if in_trio then Inr Trio
         else Inl ''kagni.embed.serve() must be called from inside a running asyncio or trio event loop'')
      else if loop = ''asyncio'' then Inr Asyncio
      else if loop = ''trio'' then Inr Trio
      else Inl (''unknown loop '' @ loop))"




section \<open>The server of a test\<close>

text \<open>The wait of \<^verbatim>\<open>start_server\<close>: a look at the clock, the process and the port in each round.\<close>

record probe =
  p_now :: int
  p_exited :: bool
  p_accepts :: bool

datatype started = Ready | ExitedAtStartup | NotInTime

fun wait_ready :: "int \<Rightarrow> probe list \<Rightarrow> started option" where
  "wait_ready deadline [] = None"
| "wait_ready deadline (p # ps) =
     (if \<not> p_now p < deadline then Some NotInTime
      else if p_exited p then Some ExitedAtStartup
      else if p_accepts p then Some Ready
      else wait_ready deadline ps)"

text \<open>The wait ends at the deadline at the latest, and reports the server as ready only when it accepted a connection.\<close>

lemma wait_ready_ends:
  "\<exists>p \<in> set ps. deadline \<le> p_now p \<Longrightarrow> wait_ready deadline ps \<noteq> None"
  "wait_ready deadline ps = Some Ready \<Longrightarrow> \<exists>p \<in> set ps. p_accepts p \<and> \<not> p_exited p \<and> p_now p < deadline"
  by (induction ps) (auto split: if_splits)

section \<open>What a run leaves behind\<close>

























section \<open>Properties\<close>









end
