(* ===== verification/ZSetSpec.thy ===== *)
theory ZSetSpec
  imports ZSetCmds ListCmds
begin

text \<open>
  What the sorted-set commands do, told on the map from members to scores (\<open>zscores\<close>) and, for the
  ranges, on the list of pairs in the order by score and then member.
\<close>

section \<open>The scores of a key\<close>

definition zscores :: "env \<Rightarrow> 'bm server \<Rightarrow> bytes \<Rightarrow> bytes \<Rightarrow> double option" where
  "zscores ev s key = (case value_at ev s key of Some (VZSet z) \<Rightarrow> zset_map z | _ \<Rightarrow> Map.empty)"

definition zset_typed :: "env \<Rightarrow> 'bm server \<Rightarrow> bytes \<Rightarrow> bool" where
  "zset_typed ev s key \<longleftrightarrow>
     (case value_at ev s key of None \<Rightarrow> True | Some (VZSet z) \<Rightarrow> wf_zset z | Some _ \<Rightarrow> False)"

definition opt_map :: "double zset option \<Rightarrow> bytes \<Rightarrow> double option" where
  "opt_map z = (case z of None \<Rightarrow> Map.empty | Some z \<Rightarrow> zset_map z)"

lemma opt_map_simps [simp]: "opt_map None = Map.empty" "opt_map (Some z) = zset_map z"
  by (simp_all add: opt_map_def)

lemma finite_opt_map [simp]: "finite (dom (opt_map z))"
  by (cases z) (simp_all add: zset_map_def finite_dom_map_of)

lemma zset_typed_cases:
  assumes "zset_typed ev s key"
  obtains "zset_of (value_at ev s key) = Inr None" "zscores ev s key = Map.empty" "view ev s key = None"
    | z where "zset_of (value_at ev s key) = Inr (Some z)" "zscores ev s key = zset_map z" "wf_zset z"
      "view ev s key = Some (VZSet z, deadline_of ev s key)"
proof (cases "view ev s key")
  case None
  then show ?thesis using that(1) by (simp add: value_at_def zset_of_def zscores_def)
next
  case (Some x)
  then obtain z t where "x = (VZSet z, t)"
    using assms by (cases x) (auto simp: zset_typed_def value_at_def split: val.splits)
  then show ?thesis
    using that(2) Some assms by (simp add: value_at_def zset_of_def zscores_def deadline_of_def zset_typed_def)
qed

lemma zset_typed_get:
  assumes "zset_typed ev s key"
  obtains z where "zset_of (value_at ev s key) = Inr z" "wf_opt z" "opt_map z = zscores ev s key"
    "view ev s key = map_option (\<lambda>z. (VZSet z, deadline_of ev s key)) z"
  by (rule zset_typed_cases [OF assms]) (use that in auto)

lemma zscores_view:
  "view ev s key = Some (VZSet z, t) \<Longrightarrow> zscores ev s key = zset_map z"
  "view ev s key = None \<Longrightarrow> zscores ev s key = Map.empty"
  by (simp_all add: zscores_def value_at_def)

lemma zscores_cong: "view ev s' key = view ev s key \<Longrightarrow> zscores ev s' key = zscores ev s key"
  by (simp add: zscores_def value_at_def)

lemma view_set_zset [view_simps]:
  "view ev (set_zset key z s) =
     (case view ev s key of None \<Rightarrow> view ev s | Some (_, t) \<Rightarrow> (view ev s)(key \<mapsto> (VZSet z, t)))"
  by (simp add: set_zset_def view_simps)

lemma view_create_zset [view_simps]:
  "view ev (create_zset key s) = (view ev s)(key \<mapsto> (VZSet zset_empty, None))"
  by (simp add: create_zset_def view_simps)

lemma view_zset_drop_empty [view_simps]:
  "view ev (zset_drop_empty ev key z s) = (if zset_len z = 0 then (view ev s)(key := None) else view ev s)"
  by (simp add: zset_drop_empty_def view_simps)

lemma zset_len_0: "wf_zset z \<Longrightarrow> zset_len z = 0 \<longleftrightarrow> zset_map z = Map.empty"
  by (simp add: zset_len_card zset_map_def finite_dom_map_of)

section \<open>Additions\<close>

text \<open>One pair on the map: the flags decide whether a new or a known member takes the score.\<close>

definition zadd_update ::
  "zadd_flags \<Rightarrow> double \<times> bytes \<Rightarrow> (bytes \<Rightarrow> double option) \<Rightarrow> bytes \<Rightarrow> double option" where
  "zadd_update f pair m =
     (case pair of (score, member) \<Rightarrow>
        (case m member of
           None \<Rightarrow> if zf_xx f then m else m(member \<mapsto> score)
         | Some current \<Rightarrow>
             if zf_nx f \<or> zf_gt f \<and> score \<le> current \<or> zf_lt f \<and> current \<le> score then m
             else m(member \<mapsto> score)))"

lemma zadd_pair_map:
  obtains z' a c where "zadd_pair f (score, member) (z, n, k) = (z', n + a, k + c)"
    "opt_map z' = zadd_update f (score, member) (opt_map z)"
    "a = (if opt_map z member = None \<and> opt_map z' member \<noteq> None then 1 else 0)"
    "a + c = (if opt_map z' member = opt_map z member then 0 else 1)"
    "z' = None \<longrightarrow> z = None"
proof (cases "opt_map z member")
  case None
  then have "(case z of None \<Rightarrow> None | Some z \<Rightarrow> zset_score z member) = None"
    by (cases z) (simp_all add: zset_score_def zset_map_def)
  moreover have "zset_map (case z of None \<Rightarrow> zset_empty | Some z \<Rightarrow> z) = opt_map z"
    by (cases z) simp_all
  ultimately show ?thesis
    using None that [of z 0 0]
      that [of "Some (fst (zset_add member score (case z of None \<Rightarrow> zset_empty | Some z \<Rightarrow> z)))" 1 0]
    by (cases "zf_xx f") (simp_all add: zadd_pair_def zadd_update_def zset_add_map)
next
  case (Some current)
  then obtain w where w: "z = Some w" "zset_map w member = Some current" by (cases z) auto
  then have score: "zset_score w member = Some current" by (simp add: zset_score_def zset_map_def)
  show ?thesis
  proof (cases "zf_nx f \<or> gate_blocks f score current")
    case True
    then show ?thesis
      using that [of z 0 0] w score by (auto simp: zadd_pair_def zadd_update_def gate_blocks_def)
  next
    case False
    moreover obtain w' b where w': "zset_add member score w = (w', b)" by (cases "zset_add member score w")
    moreover have "zset_map w' = (zset_map w)(member \<mapsto> score)" "b \<longleftrightarrow> current \<noteq> score"
      using zset_add_map [of member score w] zset_add_changed [of member score w] w' w(2) by auto
    ultimately show ?thesis
      using that [of "Some w'" 0 "if b then 1 else 0"] w score
      by (auto simp: zadd_pair_def zadd_update_def gate_blocks_def)
  qed
qed

lemma zadd_update_other: "m \<noteq> snd pair \<Longrightarrow> zadd_update f pair M m = M m"
  by (cases pair) (simp add: zadd_update_def split: option.split)

lemma zadd_update_dom: "dom M \<subseteq> dom (zadd_update f pair M)"
  by (cases pair) (auto simp: zadd_update_def split: option.splits if_splits)

lemma zadd_updates_dom: "dom M \<subseteq> dom (fold (zadd_update f) pairs M)"
proof (induction pairs arbitrary: M)
  case (Cons pair pairs)
  then show ?case using subset_trans [OF zadd_update_dom [of M f pair] Cons.IH] by simp
qed simp

lemma zadd_updates_other: "m \<notin> snd ` set pairs \<Longrightarrow> fold (zadd_update f) pairs M m = M m"
  by (induction pairs arbitrary: M) (auto simp: zadd_update_other)

lemma card_grow:
  assumes "finite A" "A = B \<union> (if c = 0 then {} else {x})" "c \<noteq> 0 \<Longrightarrow> x \<notin> B" "c = 0 \<or> c = 1"
  shows "int (card A) = int (card B) + c"
  using assms by (auto split: if_splits)

lemma new_keys:
  assumes "\<And>m. m \<noteq> x \<Longrightarrow> W m = Z m" "dom W \<subseteq> dom Z'" "dom Z \<subseteq> dom W"
  shows "dom Z' - dom Z = (dom Z' - dom W) \<union> (if Z x = None \<and> W x \<noteq> None then {x} else {})"
proof (rule set_eqI)
  fix m
  show "m \<in> dom Z' - dom Z \<longleftrightarrow> m \<in> (dom Z' - dom W) \<union> (if Z x = None \<and> W x \<noteq> None then {x} else {})"
    using assms(2,3) by (cases "m = x") (auto simp: assms(1) domIff subset_iff split: if_splits)
qed

lemma changed_keys:
  assumes "\<And>m. m \<noteq> x \<Longrightarrow> W m = Z m" "Z' x = W x"
  shows "{m. Z' m \<noteq> Z m} = {m. Z' m \<noteq> W m} \<union> (if W x = Z x then {} else {x})"
proof (rule set_eqI)
  fix m
  show "m \<in> {m. Z' m \<noteq> Z m} \<longleftrightarrow> m \<in> {m. Z' m \<noteq> W m} \<union> (if W x = Z x then {} else {x})"
    by (cases "m = x") (simp_all add: assms)
qed

text \<open>
  All pairs: the map is updated pair by pair, the first counter is the number of new members, and for
  distinct members both together the number of members whose score changed.
\<close>

lemma zadd_pairs_map:
  assumes "fold (zadd_pair f) pairs (z, n, k) = (z', n', k')"
  shows "opt_map z' = fold (zadd_update f) pairs (opt_map z)
    \<and> n' = n + int (card (dom (opt_map z') - dom (opt_map z)))
    \<and> (distinct (map snd pairs) \<longrightarrow> n' + k' = n + k + int (card {m. opt_map z' m \<noteq> opt_map z m}))
    \<and> (z' = None \<longrightarrow> z = None)"
  using assms
proof (induction pairs arbitrary: z n k)
  case (Cons pair pairs)
  obtain score member where p: "pair = (score, member)" by (cases pair)
  obtain w a c where w: "zadd_pair f (score, member) (z, n, k) = (w, n + a, k + c)"
    and w_map: "opt_map w = zadd_update f (score, member) (opt_map z)"
    and a: "a = (if opt_map z member = None \<and> opt_map w member \<noteq> None then 1 else 0)"
    and ac: "a + c = (if opt_map w member = opt_map z member then 0 else 1)"
    and none: "w = None \<longrightarrow> z = None"
    by (rule zadd_pair_map)
  have "fold (zadd_pair f) pairs (w, n + a, k + c) = (z', n', k')" using Cons.prems by (simp add: p w)
  note IH = Cons.IH [OF this]
  have same: "opt_map w m = opt_map z m" if "m \<noteq> member" for m
    using zadd_update_other [of m "(score, member)" f "opt_map z"] that by (simp add: w_map)
  have up: "dom (opt_map w) \<subseteq> dom (opt_map z')" "dom (opt_map z) \<subseteq> dom (opt_map w)"
    using IH zadd_updates_dom [of "opt_map w" f pairs] zadd_update_dom [of "opt_map z" f "(score, member)"]
    by (simp_all only: w_map)
  have added: "int (card (dom (opt_map z') - dom (opt_map z))) = int (card (dom (opt_map z') - dom (opt_map w))) + a"
  proof (rule card_grow [where x = member])
    show "dom (opt_map z') - dom (opt_map z) = (dom (opt_map z') - dom (opt_map w)) \<union> (if a = 0 then {} else {member})"
      using new_keys [of member "opt_map w" "opt_map z" "opt_map z'"] same up by (simp add: a)
    show "member \<notin> dom (opt_map z') - dom (opt_map w)" if "a \<noteq> 0" using that by (auto simp: a split: if_splits)
  qed (simp_all add: a)
  have changed: "int (card {m. opt_map z' m \<noteq> opt_map z m}) = int (card {m. opt_map z' m \<noteq> opt_map w m}) + (a + c)"
    if d: "distinct (map snd (pair # pairs))"
  proof (rule card_grow [where x = member])
    have last: "opt_map z' member = opt_map w member" using IH d by (simp add: p zadd_updates_other)
    then show "{m. opt_map z' m \<noteq> opt_map z m} =
        {m. opt_map z' m \<noteq> opt_map w m} \<union> (if a + c = 0 then {} else {member})"
      using changed_keys [of member "opt_map w" "opt_map z" "opt_map z'"] same by (simp add: ac)
    show "member \<notin> {m. opt_map z' m \<noteq> opt_map w m}" using last by simp
    show "finite {m. opt_map z' m \<noteq> opt_map z m}"
      by (rule finite_subset [of _ "dom (opt_map z') \<union> dom (opt_map z)"]) auto
  qed (simp add: ac)
  show ?case
  proof (intro conjI impI)
    show "opt_map z' = fold (zadd_update f) (pair # pairs) (opt_map z)" using IH by (simp add: w_map p)
    show "n' = n + int (card (dom (opt_map z') - dom (opt_map z)))" unfolding added using IH by linarith
    show "n' + k' = n + k + int (card {m. opt_map z' m \<noteq> opt_map z m})" if "distinct (map snd (pair # pairs))"
    proof -
      have "distinct (map snd pairs)" using that by simp
      then have "n' + k' = n + a + (k + c) + int (card {m. opt_map z' m \<noteq> opt_map w m})" using IH by blast
      then show ?thesis unfolding changed [OF that] by linarith
    qed
    show "z = None" if "z' = None" using IH that none by simp
  qed
qed simp

lemma view_store_zset:
  assumes "view ev s key = map_option (\<lambda>z. (VZSet z, t)) z" "z' = None \<longrightarrow> z = None" "z = None \<longrightarrow> t = None"
  shows "view ev (store_zset key (z \<noteq> None) z' s) = (view ev s)(key := map_option (\<lambda>z. (VZSet z, t)) z')"
  using assms by (cases z; cases z') (auto simp: store_zset_def view_simps)

lemma view_ZADD:
  assumes typed: "zset_typed ev s key" and args: "parse_zadd_flags args = Inr (f, rest)" "\<not> zf_incr f"
    "2 \<le> length args" "even (length rest)" "parse_score_pairs rest = Inr pairs"
  shows "zscores ev (fst (ZADD ev key args s)) key = fold (zadd_update f) pairs (zscores ev s key)"
    and "deadline_of ev (fst (ZADD ev key args s)) key = deadline_of ev s key"
    and "k \<noteq> key \<Longrightarrow> view ev (fst (ZADD ev key args s)) k = view ev s k"
    and "\<not> zf_ch f \<Longrightarrow> snd (ZADD ev key args s) = Inr (RInt (int (card
        (dom (fold (zadd_update f) pairs (zscores ev s key)) - dom (zscores ev s key)))))"
    and "zf_ch f \<Longrightarrow> distinct (map snd pairs) \<Longrightarrow> snd (ZADD ev key args s) = Inr (RInt (int (card
        {m. fold (zadd_update f) pairs (zscores ev s key) m \<noteq> zscores ev s key m})))"
proof -
  obtain z where z: "zset_of (value_at ev s key) = Inr z" "wf_opt z" "opt_map z = zscores ev s key"
    "view ev s key = map_option (\<lambda>z. (VZSet z, deadline_of ev s key)) z"
    by (rule zset_typed_get [OF typed])
  obtain z' n c where r: "fold (zadd_pair f) pairs (z, 0, 0) = (z', n, c)"
    by (cases "fold (zadd_pair f) pairs (z, 0, 0)")
  note sp = zadd_pairs_map [OF r]
  have t: "z = None \<longrightarrow> deadline_of ev s key = None" using z(4) by (auto simp: deadline_of_def)
  let ?s = "fst (srv_get ev key s)"
  have v: "view ev (store_zset key (z \<noteq> None) z' ?s) =
      (view ev s)(key := map_option (\<lambda>z. (VZSet z, deadline_of ev s key)) z')"
    using view_store_zset [of ev ?s key "deadline_of ev s key" z z'] sp t z(4) by (simp add: view_simps)
  have stuck: "fold (zadd_pair f) pairs (None, 0, 0) = (None, 0, 0)" if "zf_xx f" for pairs
    using that by (induction pairs) (auto simp: zadd_pair_def)
  have eq: "view ev (fst (ZADD ev key args s)) = (view ev s)(key := map_option (\<lambda>z. (VZSet z, deadline_of ev s key)) z')
     \<and> snd (ZADD ev key args s) = Inr (RInt (if zf_ch f then n + c else n))"
  proof (cases "z = None \<and> zf_xx f")
    case True
    then show ?thesis
      using r stuck [of pairs] z args by (auto simp: ZADD_def get_zset_eq view_simps fun_upd_idem)
  next
    case False
    then show ?thesis
      using r v z args by (auto simp: ZADD_def get_zset_eq zadd_store_def Let_def view_simps)
  qed
  then have view: "view ev (fst (ZADD ev key args s)) =
      (view ev s)(key := map_option (\<lambda>z. (VZSet z, deadline_of ev s key)) z')" ..
  have map: "zscores ev (fst (ZADD ev key args s)) key = opt_map z'"
    by (cases z') (simp_all add: zscores_def value_at_def view)
  show "zscores ev (fst (ZADD ev key args s)) key = fold (zadd_update f) pairs (zscores ev s key)"
    using sp z(3) by (simp add: map)
  show "deadline_of ev (fst (ZADD ev key args s)) key = deadline_of ev s key"
    using sp t by (cases z') (auto simp: deadline_of_def view)
  show "k \<noteq> key \<Longrightarrow> view ev (fst (ZADD ev key args s)) k = view ev s k" by (simp add: view)
  show "\<not> zf_ch f \<Longrightarrow> snd (ZADD ev key args s) = Inr (RInt (int (card
        (dom (fold (zadd_update f) pairs (zscores ev s key)) - dom (zscores ev s key)))))"
    using eq sp z(3) by simp
  show "zf_ch f \<Longrightarrow> distinct (map snd pairs) \<Longrightarrow> snd (ZADD ev key args s) = Inr (RInt (int (card
        {m. fold (zadd_update f) pairs (zscores ev s key) m \<noteq> zscores ev s key m})))"
  proof -
    assume ch: "zf_ch f" "distinct (map snd pairs)"
    have "n + c = 0 + 0 + int (card {m. opt_map z' m \<noteq> opt_map z m})" using sp ch(2) by blast
    then show ?thesis using conjunct2 [OF eq] ch(1) conjunct1 [OF sp] by (simp add: z(3))
  qed
qed

section \<open>Increments\<close>

lemma view_ZINCRBY:
  assumes typed: "zset_typed ev s key" and args: "parse_float raw = Some increment"
    "double_add (case zscores ev s key member of None \<Rightarrow> Fin 0 | Some c \<Rightarrow> c) increment = Some score"
  shows "zscores ev (fst (ZINCRBY ev key raw member s)) key = (zscores ev s key)(member \<mapsto> score)"
    and "deadline_of ev (fst (ZINCRBY ev key raw member s)) key = deadline_of ev s key"
    and "k \<noteq> key \<Longrightarrow> view ev (fst (ZINCRBY ev key raw member s)) k = view ev s k"
    and "snd (ZINCRBY ev key raw member s) = Inr (RBytes (format_float score))"
proof -
  obtain z where z: "zset_of (value_at ev s key) = Inr z" "wf_opt z" "opt_map z = zscores ev s key"
    "view ev s key = map_option (\<lambda>z. (VZSet z, deadline_of ev s key)) z"
    by (rule zset_typed_get [OF typed])
  have t: "z = None \<longrightarrow> deadline_of ev s key = None" using z(4) by (auto simp: deadline_of_def)
  let ?s = "fst (srv_get ev key s)"
  let ?z = "fst (zset_add member score (case z of None \<Rightarrow> zset_empty | Some z \<Rightarrow> z))"
  have current: "(case z of None \<Rightarrow> None | Some z \<Rightarrow> zset_score z member) = zscores ev s key member"
    unfolding z(3) [symmetric] by (cases z) (simp_all add: zset_score_def zset_map_def)
  have v: "view ev (store_zset key (z \<noteq> None) (Some ?z) ?s) = (view ev s)(key \<mapsto> (VZSet ?z, deadline_of ev s key))"
    using view_store_zset [of ev ?s key "deadline_of ev s key" z "Some ?z"] t z(4) by (simp add: view_simps)
  have "ZINCRBY ev key raw member s =
      returns (after_write key ''zincr'' (store_zset key (z \<noteq> None) (Some ?z) ?s)) (score_reply score)"
    using args by (simp add: ZINCRBY_def get_zset_eq z(1) current Let_def)
  then have eq: "view ev (fst (ZINCRBY ev key raw member s)) = (view ev s)(key \<mapsto> (VZSet ?z, deadline_of ev s key))"
    "snd (ZINCRBY ev key raw member s) = Inr (score_reply score)"
    using v by (simp_all add: view_simps)
  show "zscores ev (fst (ZINCRBY ev key raw member s)) key = (zscores ev s key)(member \<mapsto> score)"
    using z(3) by (cases z) (auto simp: zscores_def [of ev "fst (ZINCRBY ev key raw member s)"] value_at_def eq zset_add_map)
  show "deadline_of ev (fst (ZINCRBY ev key raw member s)) key = deadline_of ev s key"
    by (simp add: deadline_of_def eq)
  show "k \<noteq> key \<Longrightarrow> view ev (fst (ZINCRBY ev key raw member s)) k = view ev s k" by (simp add: eq)
  show "snd (ZINCRBY ev key raw member s) = Inr (RBytes (format_float score))" by (simp add: eq score_reply_def)
qed

section \<open>Removals\<close>

text \<open>A removal that acts on the scores as \<open>g\<close> and counts \<open>n\<close>.\<close>

lemma removal_effect:
  assumes typed: "zset_typed ev s key"
    and r: "r = bindR (get_zset ev key s) (\<lambda>s z. case z of
        None \<Rightarrow> returns s (RInt 0) | Some z \<Rightarrow> removed_reply ev key event (f z) s)"
    and f: "\<And>z. wf_zset z \<Longrightarrow> wf_zset (fst (f z)) \<and> zset_map (fst (f z)) = g (zset_map z) \<and> snd (f z) = n (zset_map z)"
    and none: "g Map.empty = Map.empty" "n Map.empty = 0"
  shows "zscores ev (fst r) key = g (zscores ev s key)" "snd r = Inr (RInt (n (zscores ev s key)))"
    "k \<noteq> key \<Longrightarrow> view ev (fst r) k = view ev s k"
    "view ev (fst r) key = None \<longleftrightarrow> zscores ev (fst r) key = Map.empty"
proof -
  have "zscores ev (fst r) key = g (zscores ev s key) \<and> snd r = Inr (RInt (n (zscores ev s key)))
    \<and> (k \<noteq> key \<longrightarrow> view ev (fst r) k = view ev s k)
    \<and> (view ev (fst r) key = None \<longleftrightarrow> zscores ev (fst r) key = Map.empty)"
  proof (cases rule: zset_typed_cases [OF typed])
    case 1
    then show ?thesis
      using none by (simp add: r get_zset_eq view_simps zscores_view(2) [of ev "fst (srv_get ev key s)"])
  next
    case (2 z)
    have rr: "r = removed_reply ev key event (f z) (fst (srv_get ev key s))" by (simp add: r get_zset_eq 2(1))
    have fz: "wf_zset (fst (f z))" "zset_map (fst (f z)) = g (zset_map z)" "snd (f z) = n (zset_map z)"
      using f [OF 2(3)] by auto
    have v: "view ev (fst r) = (view ev s)(key :=
        if zset_len (fst (f z)) = 0 then None else Some (VZSet (fst (f z)), deadline_of ev s key))"
      by (simp add: rr removed_reply_def case_prod_unfold Let_def view_simps 2(4))
    have "snd r = Inr (RInt (snd (f z)))" by (simp add: rr removed_reply_def case_prod_unfold Let_def)
    moreover have "zscores ev (fst r) key = zset_map (fst (f z))"
      using zset_len_0 [OF fz(1)] by (simp add: zscores_def value_at_def v)
    ultimately show ?thesis
      using zset_len_0 [OF fz(1)] 2(2) fz by (simp add: v)
  qed
  then show "zscores ev (fst r) key = g (zscores ev s key)" "snd r = Inr (RInt (n (zscores ev s key)))"
    "k \<noteq> key \<Longrightarrow> view ev (fst r) k = view ev s k"
    "view ev (fst r) key = None \<longleftrightarrow> zscores ev (fst r) key = Map.empty" by auto
qed

lemma zrem_members_map:
  "wf_zset z \<Longrightarrow> wf_zset (fst (fold zrem_member members (z, n)))
    \<and> zset_map (fst (fold zrem_member members (z, n))) = zset_map z |` (- set members)
    \<and> snd (fold zrem_member members (z, n)) = n + int (card (set members \<inter> dom (zset_map z)))"
proof (induction members arbitrary: z n)
  case (Cons m members)
  obtain w b where w: "zset_remove m z = (w, b)" by (cases "zset_remove m z")
  have wf: "wf_zset w" "zset_map w = (zset_map z)(m := None)" "b \<longleftrightarrow> zset_map z m \<noteq> None"
    using wf_zset_remove [OF Cons.prems, of m] by (simp_all add: w)
  have kept: "zset_map w |` (- set members) = zset_map z |` (- set (m # members))"
    by (auto simp: restrict_map_def fun_eq_iff wf)
  have size: "int (card (set (m # members) \<inter> dom (zset_map z))) =
      int (card (set members \<inter> dom (zset_map w))) + (if b then 1 else 0)"
  proof (rule card_grow [where x = m])
    show "set (m # members) \<inter> dom (zset_map z) =
        set members \<inter> dom (zset_map w) \<union> (if (if b then 1 else 0 :: int) = 0 then {} else {m})"
      by (auto simp: wf split: if_splits)
  qed (auto simp: wf)
  have step: "fold zrem_member (m # members) (z, n) = fold zrem_member members (w, if b then n + 1 else n)"
    using w by (simp add: zrem_member_def [of m])
  show ?case
    unfolding step size using Cons.IH [OF wf(1), of "if b then n + 1 else n"] by (simp add: kept)
qed (simp add: restrict_map_def fun_eq_iff)

lemma ZREM_effect:
  assumes "zset_typed ev s key" "members \<noteq> []"
  shows "zscores ev (fst (ZREM ev key members s)) key = zscores ev s key |` (- set members)"
    "snd (ZREM ev key members s) = Inr (RInt (int (card (set members \<inter> dom (zscores ev s key)))))"
    "k \<noteq> key \<Longrightarrow> view ev (fst (ZREM ev key members s)) k = view ev s k"
    "view ev (fst (ZREM ev key members s)) key = None \<longleftrightarrow> zscores ev (fst (ZREM ev key members s)) key = Map.empty"
proof -
  have r: "ZREM ev key members s = bindR (get_zset ev key s) (\<lambda>s z. case z of
        None \<Rightarrow> returns s (RInt 0) | Some z \<Rightarrow> removed_reply ev key ''zrem'' (fold zrem_member members (z, 0)) s)"
    using assms(2) by (simp add: ZREM_def)
  note e = removal_effect [OF assms(1) r, where g = "\<lambda>m. m |` (- set members)"
      and n = "\<lambda>m. int (card (set members \<inter> dom m))"]
  note z = zrem_members_map [of _ members 0, unfolded add_0]
  show "zscores ev (fst (ZREM ev key members s)) key = zscores ev s key |` (- set members)"
    "snd (ZREM ev key members s) = Inr (RInt (int (card (set members \<inter> dom (zscores ev s key)))))"
    "k \<noteq> key \<Longrightarrow> view ev (fst (ZREM ev key members s)) k = view ev s k"
    "view ev (fst (ZREM ev key members s)) key = None \<longleftrightarrow> zscores ev (fst (ZREM ev key members s)) key = Map.empty"
    by (rule e; (erule z | assumption | simp))+
qed

section \<open>Ranges\<close>

text \<open>The pairs of a key in rank order; the positions a rank window names.\<close>

definition ranked :: "env \<Rightarrow> 'bm server \<Rightarrow> bytes \<Rightarrow> (double \<times> bytes) list" where
  "ranked ev s key = (case value_at ev s key of Some (VZSet z) \<Rightarrow> zset_pairs z | _ \<Rightarrow> [])"

definition positions :: "int \<Rightarrow> int \<Rightarrow> int \<Rightarrow> int list" where
  "positions n start stop =
     [max 0 (if start < 0 then start + n else start)..min (n - 1) (if stop < 0 then stop + n else stop)]"

lemma ranked_spec:
  assumes "zset_typed ev s key"
  shows "sorted_wrt (<) (ranked ev s key)" "set (ranked ev s key) = {(sc, m). zscores ev s key m = Some sc}"
    "distinct (ranked ev s key)" "length (ranked ev s key) = card (dom (zscores ev s key))"
proof -
  have "sorted_wrt (<) (ranked ev s key) \<and> set (ranked ev s key) = {(sc, m). zscores ev s key m = Some sc}
    \<and> length (ranked ev s key) = card (dom (zscores ev s key))"
  proof (cases rule: zset_typed_cases [OF assms])
    case 1
    then show ?thesis by (simp add: ranked_def value_at_def)
  next
    case (2 z)
    then show ?thesis
      using zset_len_card [OF 2(3)]
      by (simp add: ranked_def value_at_def wf_zset_def zset_pairs_def zset_len_def)
  qed
  then show "sorted_wrt (<) (ranked ev s key)" "set (ranked ev s key) = {(sc, m). zscores ev s key m = Some sc}"
    "length (ranked ev s key) = card (dom (zscores ev s key))" by auto
  then show "distinct (ranked ev s key)" using strict_sorted_iff by blast
qed

lemma slice_ranks_nth:
  "slice_ranks xs start stop = map (\<lambda>i. xs ! nat i) (positions (int (length xs)) start stop)"
proof -
  define i where "i = max 0 (if start < 0 then start + int (length xs) else start)"
  define j where "j = min (int (length xs) - 1) (if stop < 0 then stop + int (length xs) else stop)"
  have "slice_ranks xs start stop = (if j < i then [] else slice (nat i) (nat (j + 1)) xs)"
    by (auto simp: slice_ranks_def Let_def i_def j_def)
  moreover have "slice (nat i) (nat (j + 1)) xs = map (\<lambda>i. xs ! nat i) [i..j]" if "i \<le> j"
  proof (rule nth_equalityI)
    show "length (slice (nat i) (nat (j + 1)) xs) = length (map (\<lambda>i. xs ! nat i) [i..j])"
      using that by (auto simp: slice_def i_def j_def)
    fix k assume "k < length (slice (nat i) (nat (j + 1)) xs)"
    then have "k < nat (j + 1) - nat i" "nat (j + 1) \<le> length xs" by (auto simp: slice_def j_def)
    moreover have "0 \<le> i" by (simp add: i_def)
    moreover from calculation have "i + int k \<le> j" using that by auto
    ultimately show "slice (nat i) (nat (j + 1)) xs ! k = map (\<lambda>i. xs ! nat i) [i..j] ! k"
      using that by (simp add: slice_def nth_upto nat_add_distrib)
  qed
  ultimately show ?thesis by (auto simp: positions_def i_def [symmetric] j_def [symmetric])
qed

lemma get_zset_typed:
  assumes "zset_typed ev s key"
  shows "bindR (get_zset ev key s) f = f (fst (srv_get ev key s))
     (case value_at ev s key of Some (VZSet z) \<Rightarrow> Some z | _ \<Rightarrow> None)"
  by (rule zset_typed_cases [OF assms]) (auto simp: get_zset_eq value_at_def zset_of_def)

lemma range_reply_typed:
  assumes "zset_typed ev s key"
  shows "range_reply ev key (b, False) rev_order limit withscores s =
    returns (fst (srv_get ev key s)) (interleave_pairs (limit_pairs
      (case b of
         RankBounds start stop \<Rightarrow> slice_ranks (if rev_order then rev (ranked ev s key) else ranked ev s key) start stop
       | ScoreBounds lo lo_open hi hi_open \<Rightarrow>
           (let ps = filter (\<lambda>(sc, m). in_window lo lo_open hi hi_open sc) (ranked ev s key)
            in if rev_order then rev ps else ps)
       | LexBounds lo lo_open hi hi_open \<Rightarrow>
           (let ps = filter (\<lambda>(sc, m). \<not> outside_member lo lo_open hi hi_open m) (ranked ev s key)
            in if rev_order then rev ps else ps)) limit) withscores)"
proof -
  have none: "limit_pairs ([] :: (double \<times> bytes) list) limit = []" "slice_ranks ([] :: (double \<times> bytes) list) i j = []"
    "interleave_pairs [] withscores = RList []" for i j
    by (auto simp: limit_pairs_def slice_ranks_def slice_def interleave_pairs_def Let_def split: option.split)
  show ?thesis
    using assms
    by (cases rule: zset_typed_cases; cases b)
      (auto simp: range_reply_def get_zset_eq ranked_def value_at_def none range_pairs_def Let_def
        score_pairs_window member_pairs_def zset_pairs_def)
qed

lemma ZCOUNT_typed:
  assumes "zset_typed ev s key" "score_bound lowest = Inr (lo, lo_open)" "score_bound highest = Inr (hi, hi_open)"
  shows "ZCOUNT ev key lowest highest s = returns (fst (srv_get ev key s))
    (RInt (int (length (filter (\<lambda>(sc, m). in_window lo lo_open hi hi_open sc) (ranked ev s key)))))"
  using assms
  by (cases rule: zset_typed_cases)
    (simp_all add: ZCOUNT_def get_zset_eq ranked_def value_at_def score_pairs_window zset_pairs_def)

lemma zrank_nth:
  assumes typed: "zset_typed ev s key" and i: "i < length (ranked ev s key)"
  shows "snd (ZRANK ev key (snd (ranked ev s key ! i)) [] s) = Inr (RInt (int i))"
    "snd (ZREVRANK ev key (snd (ranked ev s key ! i)) [] s) = Inr (RInt (int (length (ranked ev s key)) - 1 - int i))"
proof -
  obtain z where z: "zset_of (value_at ev s key) = Inr (Some z)" "wf_zset z"
    "view ev s key = Some (VZSet z, deadline_of ev s key)"
    by (rule zset_typed_cases [OF typed]) (use i in \<open>auto simp: ranked_def value_at_def\<close>)
  have r: "ranked ev s key = sorted_pairs z" by (simp add: ranked_def value_at_def z zset_pairs_def)
  have s: "sorted_wrt (<) (sorted_pairs z)" "set (sorted_pairs z) = {(s, m). zset_map z m = Some s}"
    using z(2) by (auto simp: wf_zset_def)
  obtain sc m where p: "sorted_pairs z ! i = (sc, m)" by (cases "sorted_pairs z ! i")
  have m: "map_of (scores z) m = Some sc"
    using s(2) nth_mem [of i "sorted_pairs z"] i by (auto simp: r p zset_map_def)
  have pos: "sorted_pairs z ! k < (sc, m) \<longleftrightarrow> k < i" if "k < length (sorted_pairs z)" for k
    using sorted_wrt_nth_less [OF s(1)] that i unfolding r p [symmetric]
    by (metis linorder_neqE_nat order_less_asym' order_less_irrefl)
  have "bisect_left (sorted_pairs z) (sc, m) id = i"
    unfolding bisect_left_def id_apply by (rule bisect_loop_boundary) (use i pos in \<open>auto simp: r\<close>)
  then have "zset_rank z m = Some i" by (simp add: zset_rank_def m)
  then show "snd (ZRANK ev key (snd (ranked ev s key ! i)) [] s) = Inr (RInt (int i))"
    "snd (ZREVRANK ev key (snd (ranked ev s key ! i)) [] s) = Inr (RInt (int (length (ranked ev s key)) - 1 - int i))"
    by (simp_all add: ZRANK_def ZREVRANK_def zrank_def get_zset_eq z(1) r p zset_len_def)
qed

section \<open>Pops\<close>

lemma slice_ranks_ends:
  assumes "0 < c"
  shows "slice_ranks xs 0 (c - 1) = take (nat c) xs" "slice_ranks xs (- c) (- 1) = drop (length xs - nat c) xs"
proof -
  show "slice_ranks xs 0 (c - 1) = take (nat c) xs"
  proof -
    have "Suc (nat (c - 1)) = nat c" using assms by arith
    then show ?thesis using assms by (auto simp: slice_ranks_def slice_def Let_def nat_add_distrib)
  qed
  show "slice_ranks xs (- c) (- 1) = drop (length xs - nat c) xs"
    using assms by (cases "xs = []") (auto simp: slice_ranks_def slice_def Let_def nat_diff_distrib)
qed

lemma remove_rank_ends:
  assumes "wf_zset z" "0 < c"
  shows "sorted_pairs (fst (remove_rank 0 (c - 1) z)) = drop (nat c) (sorted_pairs z)"
    "sorted_pairs (fst (remove_rank (- c) (- 1) z)) = take (length (sorted_pairs z) - nat c) (sorted_pairs z)"
  using assms(2) unfolding remove_rank_window(2) [OF assms(1)]
  by (auto simp: min_def max_def nat_diff_distrib)

lemma zpop_effect:
  assumes typed: "zset_typed ev s key" and c: "0 < c" "num = Some c \<or> num = None \<and> c = 1"
  shows "snd (zpop ev key num left s) = Inr (interleave_pairs
      (take (nat c) (if left then ranked ev s key else rev (ranked ev s key))) True)"
    and "ranked ev (fst (zpop ev key num left s)) key =
      (if left then drop (nat c) (ranked ev s key) else take (length (ranked ev s key) - nat c) (ranked ev s key))"
    and "zset_typed ev (fst (zpop ev key num left s)) key"
    and "view ev (fst (zpop ev key num left s)) key = None \<longleftrightarrow> ranked ev (fst (zpop ev key num left s)) key = []"
    and "k \<noteq> key \<Longrightarrow> view ev (fst (zpop ev key num left s)) k = view ev s k"
proof -
  let ?r = "zpop ev key num left s"
  have "snd ?r = Inr (interleave_pairs (take (nat c) (if left then ranked ev s key else rev (ranked ev s key))) True)
    \<and> ranked ev (fst ?r) key =
      (if left then drop (nat c) (ranked ev s key) else take (length (ranked ev s key) - nat c) (ranked ev s key))
    \<and> zset_typed ev (fst ?r) key \<and> (view ev (fst ?r) key = None \<longleftrightarrow> ranked ev (fst ?r) key = [])
    \<and> (\<forall>k. k \<noteq> key \<longrightarrow> view ev (fst ?r) k = view ev s k)"
  proof (cases rule: zset_typed_cases [OF typed])
    case 1
    then have "?r = returns (fst (srv_get ev key s)) (RList [])" using c by (auto simp: zpop_def get_zset_eq)
    then show ?thesis
      using 1 by (simp add: ranked_def value_at_def view_simps interleave_pairs_def zset_typed_def)
  next
    case (2 z)
    let ?start = "if left then 0 else - c" and ?stop = "if left then c - 1 else - 1"
    let ?ps = "sorted_pairs z"
    define taken where "taken = slice_ranks ?ps ?start ?stop"
    define z' where "z' = (if taken \<noteq> [] then fst (remove_rank ?start ?stop z) else z)"
    have r: "ranked ev s key = ?ps" by (simp add: ranked_def value_at_def 2 zset_pairs_def)
    have taken: "taken = (if left then take (nat c) ?ps else drop (length ?ps - nat c) ?ps)"
      by (simp add: taken_def slice_ranks_ends [OF c(1)])
    have z': "wf_zset z'" "sorted_pairs z' = (if left then drop (nat c) ?ps else take (length ?ps - nat c) ?ps)"
    proof -
      have empty: "taken = [] \<longleftrightarrow> ?ps = []" using c(1) by (cases ?ps) (simp_all add: taken, linarith)
      show "wf_zset z'" by (simp add: z'_def 2(3) wf_remove_rank)
      show "sorted_pairs z' = (if left then drop (nat c) ?ps else take (length ?ps - nat c) ?ps)"
        by (cases left; cases "?ps = []") (simp_all add: z'_def empty remove_rank_ends [OF 2(3) c(1)])
    qed
    have eq: "?r = (let s = after_write key (if left then ''zpopmin'' else ''zpopmax'') (set_zset key z' (fst (srv_get ev key s)));
          s = zset_drop_empty ev key z' s;
          s = (if \<not> data_is_live ev (data s) key then notify key ''del'' s else s)
        in returns s (interleave_pairs (if left then taken else rev taken) True))"
      using c(2)
    proof
      assume "num = Some c"
      then show ?thesis
        using c(1) by (cases left) (simp_all add: zpop_def get_zset_eq 2(1) zset_pairs_def taken_def z'_def Let_def)
    next
      assume "num = None \<and> c = 1"
      then show ?thesis
        by (cases left) (simp_all add: zpop_def get_zset_eq 2(1) zset_pairs_def taken_def z'_def Let_def)
    qed
    have v: "view ev (fst ?r) = (view ev s)(key := if zset_len z' = 0 then None else Some (VZSet z', deadline_of ev s key))"
      and reply: "snd ?r = Inr (interleave_pairs (if left then taken else rev taken) True)"
      unfolding eq by (simp_all add: Let_def view_simps 2(4))
    have "(if left then taken else rev taken) = take (nat c) (if left then ?ps else rev ?ps)"
      by (cases left) (simp_all add: taken take_rev)
    moreover have "ranked ev (fst ?r) key = sorted_pairs z'"
      by (simp add: ranked_def value_at_def v zset_pairs_def zset_len_def)
    ultimately show ?thesis
      using z' by (simp add: r reply v zset_typed_def value_at_def zset_len_def)
  qed
  then show "snd ?r = Inr (interleave_pairs (take (nat c) (if left then ranked ev s key else rev (ranked ev s key))) True)"
    "ranked ev (fst ?r) key =
      (if left then drop (nat c) (ranked ev s key) else take (length (ranked ev s key) - nat c) (ranked ev s key))"
    "zset_typed ev (fst ?r) key" "view ev (fst ?r) key = None \<longleftrightarrow> ranked ev (fst ?r) key = []"
    "k \<noteq> key \<Longrightarrow> view ev (fst ?r) k = view ev s k" by blast+
qed

section \<open>Aggregates\<close>

text \<open>
  The scores a member contributes, one from every source that has it, and what they fold to: \<open>None\<close>
  without any, and 0 for NaN.
\<close>

definition contributions ::
  "(bytes \<Rightarrow> double option) list \<Rightarrow> double list \<Rightarrow> bytes \<Rightarrow> double option list" where
  "contributions ms ws m =
     concat (map (\<lambda>(M, w). case M m of None \<Rightarrow> [] | Some sc \<Rightarrow> [double_mul sc w]) (zip ms ws))"




lemma contributions_simps [simp]:
  "contributions [] ws m = []"
  "contributions (M # ms) (w # ws) m =
     (case M m of None \<Rightarrow> contributions ms ws m | Some sc \<Rightarrow> double_mul sc w # contributions ms ws m)"
  by (simp_all add: contributions_def split: option.split)



















section \<open>Properties\<close>

definition demo_scores :: "(bytes \<times> double) list \<Rightarrow> double zset" where
  "demo_scores ps = zset_of_pairs ps"

lemma demo_scores_facts:
  "zset_typed ev (with_keys [(key, VZSet (demo_scores ps))]) key"
  "zscores ev (with_keys [(key, VZSet (demo_scores ps))]) key = map_of (rev ps)"
  by (simp_all add: zset_typed_def zscores_def value_at_with_keys demo_scores_def wf_zset_of_pairs zset_of_pairs_map)

lemma parse_float_inf: "parse_float ''inf'' = Some PosInf"
  by code_simp

text \<open>
  C22: \<^verbatim>\<open>ZADD\<close> acts on the map from members to scores, pair by pair, as its flags say: a new member is added
  unless \<^verbatim>\<open>XX\<close>, a known one takes the new score unless \<^verbatim>\<open>NX\<close> or \<^verbatim>\<open>GT\<close> or \<^verbatim>\<open>LT\<close> forbid it.  It
  answers the number of new members and, with \<^verbatim>\<open>CH\<close> and distinct members, the number of members whose score
  is another one.  The deadline of the key and the other keys stay.
\<close>

theorem ZADD_correct:
  assumes "zset_typed ev s key" "parse_zadd_flags args = Inr (f, rest)" "\<not> zf_incr f"
    and "2 \<le> length args" "even (length rest)" "parse_score_pairs rest = Inr pairs"
  defines "after \<equiv> fold (zadd_update f) pairs (zscores ev s key)"
  shows "zscores ev (fst (ZADD ev key args s)) key = after
    \<and> (\<not> zf_ch f \<longrightarrow> snd (ZADD ev key args s) = Inr (RInt (int (card (dom after - dom (zscores ev s key))))))
    \<and> (zf_ch f \<longrightarrow> distinct (map snd pairs) \<longrightarrow>
        snd (ZADD ev key args s) = Inr (RInt (int (card {m. after m \<noteq> zscores ev s key m}))))
    \<and> deadline_of ev (fst (ZADD ev key args s)) key = deadline_of ev s key
    \<and> (\<forall>k. k \<noteq> key \<longrightarrow> view ev (fst (ZADD ev key args s)) k = view ev s k)"
  unfolding after_def using view_ZADD [OF assms(1-6)] by blast

theorem ZADD_correct_witness:
  "snd (ZADD demo_env ''z'' [''GT'', ''inf'', ''a'', ''inf'', ''c'']
      (with_keys [(''z'', VZSet (demo_scores [(''a'', Fin 1), (''b'', Fin 2)]))] :: unit server)) = Inr (RInt 1)"
proof -
  let ?s = "with_keys [(''z'', VZSet (demo_scores [(''a'', Fin 1), (''b'', Fin 2)]))] :: unit server"
  let ?f = "\<lparr>zf_nx = False, zf_xx = False, zf_gt = True, zf_lt = False, zf_ch = False, zf_incr = False\<rparr>"
  let ?args = "[''GT'', ''inf'', ''a'', ''inf'', ''c'']"
  have t: "zset_typed demo_env ?s ''z''" by (rule demo_scores_facts)
  have up: "upper ''GT'' = ''GT''" "upper ''inf'' = ''INF''" by code_simp+
  have flags: "parse_zadd_flags ?args = Inr (?f, [''inf'', ''a'', ''inf'', ''c''])"
    by (simp add: parse_zadd_flags_def up)
  have pairs: "parse_score_pairs [''inf'', ''a'', ''inf'', ''c''] = Inr [(PosInf, ''a''), (PosInf, ''c'')]"
    by (simp add: parse_float_inf)
  have "dom (fold (zadd_update ?f) [(PosInf, ''a''), (PosInf, ''c'')] (zscores demo_env ?s ''z''))
      - dom (zscores demo_env ?s ''z'') = {''c''}"
    by (auto simp: demo_scores_facts zadd_update_def)
  then show ?thesis
    using ZADD_correct [OF t flags _ _ _ pairs] by simp
qed

text \<open>
  removing members.  \<^verbatim>\<open>ZREM\<close> takes the named members out and counts those that were there;
  \<^verbatim>\<open>ZPOPMIN\<close> and \<^verbatim>\<open>ZPOPMAX\<close> answer the lowest and the highest pairs, in that order, and leave the other
  pairs as they were.  The key goes with its last member and the other keys stay.
\<close>

theorem zset_removals_correct:
  assumes "zset_typed ev s key" "members \<noteq> []" "0 < c"
  defines "r \<equiv> ZREM ev key members s" and "lo \<equiv> ZPOPMIN ev key (Some c) s" and "hi \<equiv> ZPOPMAX ev key (Some c) s"
  shows "zscores ev (fst r) key = zscores ev s key |` (- set members)
      \<and> snd r = Inr (RInt (int (card (set members \<inter> dom (zscores ev s key)))))
      \<and> (view ev (fst r) key = None \<longleftrightarrow> zscores ev (fst r) key = Map.empty)
    \<and> snd lo = Inr (interleave_pairs (take (nat c) (ranked ev s key)) True)
      \<and> ranked ev (fst lo) key = drop (nat c) (ranked ev s key)
      \<and> (view ev (fst lo) key = None \<longleftrightarrow> ranked ev (fst lo) key = [])
    \<and> snd hi = Inr (interleave_pairs (take (nat c) (rev (ranked ev s key))) True)
      \<and> rev (ranked ev (fst hi) key) = drop (nat c) (rev (ranked ev s key))
      \<and> (view ev (fst hi) key = None \<longleftrightarrow> ranked ev (fst hi) key = [])
    \<and> (\<forall>k. k \<noteq> key \<longrightarrow> view ev (fst r) k = view ev s k \<and> view ev (fst lo) k = view ev s k
        \<and> view ev (fst hi) k = view ev s k)"
proof -
  note p = zpop_effect [OF assms(1,3), of "Some c", OF disjI1 [OF refl]]
  show ?thesis
    unfolding r_def lo_def hi_def ZPOPMIN_def ZPOPMAX_def
    by (simp add: p(1,2,4,5) ZREM_effect [OF assms(1,2)] drop_rev)
qed

theorem zset_removals_correct_witness:
  "zscores demo_env (fst (ZREM demo_env ''z'' [''b'', ''x'']
      (with_keys [(''z'', VZSet (demo_scores [(''a'', Fin 1), (''b'', Fin 2)]))] :: unit server))) ''z'' = [''a'' \<mapsto> Fin 1]"
proof -
  let ?s = "with_keys [(''z'', VZSet (demo_scores [(''a'', Fin 1), (''b'', Fin 2)]))] :: unit server"
  have "zset_typed demo_env ?s ''z''" by (rule demo_scores_facts)
  from zset_removals_correct [OF this, of "[''b'', ''x'']" 1] show ?thesis
    by (auto simp: demo_scores_facts restrict_map_def fun_eq_iff)
qed

text \<open>
  C23: the ranges.  The pairs of a key are strictly ordered by score and then member; \<^verbatim>\<open>ZRANGE\<close> answers those
  at the positions asked for, negative ones counted from the end; \<^verbatim>\<open>ZRANGEBYSCORE\<close> those scored in the
  window, \<^verbatim>\<open>ZREVRANGEBYSCORE\<close> the same backwards, \<^verbatim>\<open>ZCOUNT\<close> their number; \<^verbatim>\<open>ZRANK\<close> and
  \<^verbatim>\<open>ZREVRANK\<close> of the member at a position are that position, counted from either end.
\<close>

theorem zset_ranges_correct:
  assumes "zset_typed ev s key" "score_bound lowest = Inr (lo, lo_open)" "score_bound highest = Inr (hi, hi_open)"
    and "string2ll start = Some i" "string2ll stop = Some j"
  defines "ps \<equiv> ranked ev s key"
  defines "qs \<equiv> filter (\<lambda>(sc, m). in_window lo lo_open hi hi_open sc) ps"
  shows "sorted_wrt (<) ps \<and> set ps = {(sc, m). zscores ev s key m = Some sc}
    \<and> snd (ZRANGE ev key start stop [] s) =
        Inr (interleave_pairs (map (\<lambda>r. ps ! nat r) (positions (int (length ps)) i j)) False)
    \<and> snd (ZRANGEBYSCORE ev key lowest highest [] s) = Inr (interleave_pairs qs False)
    \<and> snd (ZREVRANGEBYSCORE ev key highest lowest [] s) = Inr (interleave_pairs (rev qs) False)
    \<and> snd (ZCOUNT ev key lowest highest s) = Inr (RInt (int (length qs)))
    \<and> (\<forall>r < length ps. snd (ZRANK ev key (snd (ps ! r)) [] s) = Inr (RInt (int r))
        \<and> snd (ZREVRANK ev key (snd (ps ! r)) [] s) = Inr (RInt (int (length ps) - 1 - int r)))"
proof (intro conjI allI impI)
  note ranges = range_reply_typed [OF assms(1)] parse_range_options_def no_options_def parse_bounds_def assms(2-5)
    legacy_score_range_def limit_pairs_def Let_def
  show "sorted_wrt (<) ps" "set ps = {(sc, m). zscores ev s key m = Some sc}"
    using ranked_spec [OF assms(1)] by (simp_all add: ps_def)
  show "snd (ZRANGE ev key start stop [] s) =
        Inr (interleave_pairs (map (\<lambda>r. ps ! nat r) (positions (int (length ps)) i j)) False)"
    by (simp add: ZRANGE_def ranges ps_def slice_ranks_nth)
  show "snd (ZRANGEBYSCORE ev key lowest highest [] s) = Inr (interleave_pairs qs False)"
    by (simp add: ZRANGEBYSCORE_def ranges qs_def ps_def)
  show "snd (ZREVRANGEBYSCORE ev key highest lowest [] s) = Inr (interleave_pairs (rev qs) False)"
    by (simp add: ZREVRANGEBYSCORE_def ranges qs_def ps_def)
  show "snd (ZCOUNT ev key lowest highest s) = Inr (RInt (int (length qs)))"
    by (simp add: ZCOUNT_typed [OF assms(1-3)] qs_def ps_def)
  fix r assume "r < length ps"
  then show "snd (ZRANK ev key (snd (ps ! r)) [] s) = Inr (RInt (int r))"
    "snd (ZREVRANK ev key (snd (ps ! r)) [] s) = Inr (RInt (int (length ps) - 1 - int r))"
    using zrank_nth [OF assms(1)] by (simp_all add: ps_def)
qed

theorem zset_ranges_correct_witness:
  "snd (ZCOUNT demo_env ''z'' ''inf'' ''inf''
      (with_keys [(''z'', VZSet (demo_scores [(''a'', PosInf)]))] :: unit server)) = Inr (RInt 1)"
proof -
  let ?s = "with_keys [(''z'', VZSet (demo_scores [(''a'', PosInf)]))] :: unit server"
  have b: "score_bound ''inf'' = Inr (PosInf, False)" by (simp add: score_bound_def parse_float_inf)
  have n: "string2ll ''0'' = Some 0" "string2ll ''1'' = Some 1" by code_simp+
  have t: "zset_typed demo_env ?s ''z''" by (rule demo_scores_facts)
  have "ranked demo_env ?s ''z'' = [(PosInf, ''a'')]"
    by (simp add: ranked_def value_at_with_keys demo_scores_def zset_of_pairs_def zset_add_def zset_empty_def
        zset_pairs_def insort_def bisect_right_def bisect_loop.simps)
  then show ?thesis
    using zset_ranges_correct [OF t b b n]
    by (simp add: in_window_def)
qed




end
