(* ===== verification/ServerSpec.thy ===== *)
theory ServerSpec
  imports ServerCmds PubSubCmds
begin

text \<open>What \<^verbatim>\<open>CONFIG\<close> and the keyspace notifications it switches on promise together.\<close>

section \<open>Frames of a notification\<close>

text \<open>The frame a session gets from a message on a channel, when it holds no patterns.\<close>

definition channel_frames :: "session \<Rightarrow> bytes \<Rightarrow> bytes \<Rightarrow> bytes list" where
  "channel_frames ss channel payload = (if channel |\<in>| channels ss then [build_message channel payload] else [])"

definition event_frames :: "bytes \<Rightarrow> session \<Rightarrow> bytes \<Rightarrow> bytes \<Rightarrow> bytes list" where
  "event_frames flags ss key event =
     (case map_of EVENT_CLASS event of
        None \<Rightarrow> []
      | Some c \<Rightarrow>
          if CHR ''A'' \<in> set flags \<or> c \<in> set flags then
            (if CHR ''K'' \<in> set flags then channel_frames ss (''__keyspace@0__:'' @ key) event else [])
            @ (if CHR ''E'' \<in> set flags then channel_frames ss (''__keyevent@0__:'' @ event) key else [])
          else [])"

lemma hub_publish_received:
  fixes channel payload :: bytes
  assumes "hub_ok s" "sender (sessions s sid) \<noteq> None" "patterns (sessions s sid) = {||}"
  defines "s' \<equiv> fst (hub_publish channel payload s)"
  shows "received (sessions s' sid) = received (sessions s sid) @ channel_frames (sessions s sid) channel payload"
    and "hub_ok s'" "sender (sessions s' sid) = sender (sessions s sid)"
    "patterns (sessions s' sid) = patterns (sessions s sid)" "channels (sessions s' sid) = channels (sessions s sid)"
proof -
  have t: "table_ok (hub_channels (hub s)) channels (sessions s)" "table_ok (hub_patterns (hub s)) patterns (sessions s)"
    using assms(1) by (auto simp: hub_ok_def)
  have p: "s' = fst (PUBLISH channel payload s)"
    by (simp add: s'_def PUBLISH_def case_prod_unfold)
  have "set (heard (hub s) channel sid) = {}"
    using heard_patterns [OF t(2) assms(2), of channel] assms(3) by simp
  then show "received (sessions s' sid) = received (sessions s sid) @ channel_frames (sessions s sid) channel payload"
    unfolding p by (simp add: PUBLISH_frames frames_heard subscriber_iff [OF t(1) assms(2)] channel_frames_def)
  have q: "quiet s s'" unfolding s'_def by (rule quiet_publish)
  then have "standing (sessions s' sid) = standing (sessions s sid)" for sid by (simp add: quiet_def)
  then have same: "channels (sessions s' x) = channels (sessions s x)" "patterns (sessions s' x) = patterns (sessions s x)"
    "sender (sessions s' x) = sender (sessions s x)" for x by (simp_all add: standing_def)
  show "sender (sessions s' sid) = sender (sessions s sid)" "patterns (sessions s' sid) = patterns (sessions s sid)"
    "channels (sessions s' sid) = channels (sessions s sid)" by (rule same)+
  have "safe s s'" using q by (simp add: safe_def s'_def)
  then show "hub_ok s'" using safe_keeps assms(1) unfolding keeps_def by blast
qed

lemma notify_received:
  assumes "hub_ok s" "sender (sessions s sid) \<noteq> None" "patterns (sessions s sid) = {||}"
  shows "received (sessions (notify key event s) sid) =
    received (sessions s sid) @ event_frames (notify_keyspace_events s) (sessions s sid) key event"
proof (cases "map_of EVENT_CLASS event")
  case None
  then show ?thesis by (simp add: notify_def event_frames_def Let_def)
next
  case (Some c)
  let ?s = "fst (hub_publish (''__keyspace@0__:'' @ key) event s)"
  note one = hub_publish_received [OF assms, of "''__keyspace@0__:'' @ key" event]
  have two: "received (sessions (fst (hub_publish channel payload ?s)) sid) =
      received (sessions ?s sid) @ channel_frames (sessions s sid) channel payload" for channel payload
    using hub_publish_received(1) [OF one(2), of sid channel payload] one(3-5) assms(2,3) by (simp add: channel_frames_def)
  show ?thesis
    using hub_publish_received(1) [OF assms] one(1) two by (auto simp: notify_def event_frames_def Let_def Some)
qed

section \<open>Properties\<close>

lemma config_get_self:
  "config_get s ''notify-keyspace-events'' = RList [RBytes ''notify-keyspace-events'', RBytes (notify_keyspace_events s)]"
proof -
  have p: "compile_glob ''notify-keyspace-events'' name \<longleftrightarrow> name = ''notify-keyspace-events''" for name
    using glob_wildcards [of "''notify-keyspace-events''" "[]" name] by (simp add: plain_def)
  have names: "sort (map fst (AList.update ''notify-keyspace-events'' x CONFIG_VALUES)) =
      [''appendonly'', ''maxmemory'', ''maxmemory-policy'', ''notify-keyspace-events'', ''save'']" for x :: bytes
    by (simp add: CONFIG_VALUES_def)
  show ?thesis by (simp add: config_get_def Let_def names p) (simp add: CONFIG_VALUES_def)
qed

text \<open>
  C29: switching notifications.  CONFIG SET of the event flags accepts exactly the known class letters and changes
  no key; CONFIG GET reads the flags back; from then on a write of a key sends a connection that listens on
  channels the keyspace message when the flags hold K, the keyevent message when they hold E, each only if the
  class of the event or A is among the flags, in this order, and nothing else; a bad letter changes nothing.
\<close>

theorem config_events_correct:
  fixes ev :: env
  assumes "hub_ok s" "sender (sessions s sid) \<noteq> None" "patterns (sessions s sid) = {||}"
    and "upper word = ''SET''" "upper word' = ''GET''" "lower param = ''notify-keyspace-events''"
    and "list_all (\<lambda>c. c \<in> set ALLOWED_EVENT_FLAGS) flags"
  defines "s' \<equiv> fst (CONFIG ev [word, param, flags] s)"
  shows "snd (CONFIG ev [word, param, flags] s) = Inr (RResponse OK)
    \<and> snd (CONFIG ev [word', ''notify-keyspace-events''] s') =
        Inr (RList [RBytes ''notify-keyspace-events'', RBytes flags])
    \<and> view ev s' = view ev s
    \<and> received (sessions (after_write key event s') sid) =
        received (sessions s sid) @ event_frames flags (sessions s sid) key event
    \<and> (\<forall>bad. \<not> list_all (\<lambda>c. c \<in> set ALLOWED_EVENT_FLAGS) bad \<longrightarrow>
         CONFIG ev [word, param, bad] s = raise_error s EVENT_FLAGS_ERROR)"
proof -
  have s': "CONFIG ev [word, param, flags] s = returns (s\<lparr>notify_keyspace_events := flags\<rparr>) (RResponse OK)"
    and bad: "\<not> list_all (\<lambda>c. c \<in> set ALLOWED_EVENT_FLAGS) bad \<Longrightarrow>
      CONFIG ev [word, param, bad] s = raise_error s EVENT_FLAGS_ERROR" for bad
    using assms(4,6,7) by (simp_all add: CONFIG_def Let_def)
  have after: "s' = s\<lparr>notify_keyspace_events := flags\<rparr>" by (simp add: s'_def s')
  have get: "snd (CONFIG ev [word', ''notify-keyspace-events''] s') =
      Inr (RList [RBytes ''notify-keyspace-events'', RBytes flags])"
    using assms(5) by (simp add: CONFIG_def Let_def config_get_self after)
  let ?s = "upd_data (data_touch key) s'"
  have same: "sessions ?s = sessions s" "hub ?s = hub s" "notify_keyspace_events ?s = flags"
    by (simp_all add: upd_data_def after)
  have ok: "hub_ok ?s" using assms(1) by (simp add: hub_ok_def same)
  have "received (sessions (notify key event ?s) sid) =
      received (sessions s sid) @ event_frames flags (sessions s sid) key event"
    using notify_received [OF ok, of sid key event] assms(2,3) by (simp add: same)
  moreover have "view ev s' = view ev s" by (simp add: after view_def)
  ultimately show ?thesis using get bad by (simp add: s' after_write_def)
qed

theorem config_events_correct_witness:
  "received (sessions (after_write ''k'' ''lpush'' (fst (CONFIG demo_env [''set'', ''notify-keyspace-events'', ''Kl'']
      (subscribe_one 4 ''__keyspace@0__:k'' (connect 4 Commands) :: unit server)))) 4) =
    received (sessions (subscribe_one 4 ''__keyspace@0__:k'' (connect 4 Commands) :: unit server) 4)
      @ [build_message ''__keyspace@0__:k'' ''lpush'']"
proof -
  let ?s = "subscribe_one 4 ''__keyspace@0__:k'' (connect 4 Commands) :: unit server"
  have c: "hub_ok (connect 4 Commands :: unit server)" by (rule hub_ok_connect [OF hub_ok_Commands]) (simp add: Commands_def)
  have ok: "hub_ok ?s" using keeps_one(1) c unfolding keeps_def by blast
  have st: "sender (sessions ?s 4) \<noteq> None" "patterns (sessions ?s 4) = {||}" "channels (sessions ?s 4) = {|''__keyspace@0__:k''|}"
    by (simp_all add: subscribe_one_def Let_def upd_session_def upd_hub_def frame_simps connect_def Session_def Commands_def)
  have w: "upper ''set'' = ''SET''" "upper ''get'' = ''GET''" "lower ''notify-keyspace-events'' = ''notify-keyspace-events''"
    by code_simp+
  have f: "list_all (\<lambda>c. c \<in> set ALLOWED_EVENT_FLAGS) ''Kl''" by (simp add: ALLOWED_EVENT_FLAGS_def)
  have e: "event_frames ''Kl'' (sessions ?s 4) ''k'' ''lpush'' = [build_message ''__keyspace@0__:k'' ''lpush'']"
    by (simp add: event_frames_def EVENT_CLASS_def channel_frames_def st(3))
  show ?thesis using config_events_correct [OF ok st(1,2) w f, of demo_env "''k''" "''lpush''"] e by simp
qed

end
