(* ===== verification/TypeSpec.thy ===== *)
theory TypeSpec
  imports HashCmds ZSetSpec BitSpec ServerSpec
begin

text \<open>
  The types of the keyspace: a key holds a value of one of six kinds, each command is of the family of one kind, and a
  command that meets a value of another kind answers the WRONGTYPE error and leaves the keyspace alone.  The families
  list the commands on one key, with arguments that pass the checks made before the key is looked at.
\<close>

section \<open>The families\<close>

definition refused :: "env \<Rightarrow> 'bm server \<Rightarrow> 'bm cmd_result \<Rightarrow> bool" where
  "refused ev s r \<longleftrightarrow> snd r = Inl (Raised WRONGTYPE) \<and> view ev (fst r) = view ev s"




section \<open>Each family\<close>


lemma refused_raise [simp]:
  "refused ev s (raise_error (fst (srv_get ev key s)) WRONGTYPE)"
  "refused ev s (liftE (fst (srv_get ev key s)) (Inl WRONGTYPE))"
  by (simp_all add: refused_def view_simps)

lemma refused_bind:
  "bindR (liftE (fst (srv_get ev key s)) (Inl WRONGTYPE)) g = liftE (fst (srv_get ev key s)) (Inl WRONGTYPE)"
  by simp









section \<open>Property\<close>



end
