(* ===== verification/Spec2Isabelle.thy ===== *)
theory Spec2Isabelle
  imports Transactions TrioServing HiredisReader FlowControl Lifecycle TypeSpec
begin

text \<open>
  A model of kagni, an in-memory server that speaks the protocol of redis (sources under
  \<open>src/src/kagni\<close>), with the properties that make it correct.

  \<^bold>\<open>The program and its theories.\<close>  Bytes arrive at a connection, an incremental reader cuts them into
  requests, a dispatcher looks the command up, checks the number and the form of the arguments and runs
  the handler on the store and the sessions, and the reply is encoded and written.  Beside the loop a
  dumper task writes snapshots to a sqlite table in worker threads.

  \<^item> \<open>Prelude\<close>: bytes (a \<^verbatim>\<open>bytes\<close> object is a \<open>string\<close>, a list of 8-bit characters), insertion-ordered
    dictionaries (association lists under the locale \<open>py_dict\<close>), the result type of a command (the new
    state with an exception or a value), ASCII case, decimal text.
  \<^item> \<open>Constants\<close>: \<open>constants.py\<close>, the fixed replies and the shared errors.
  \<^item> \<open>Scalars\<close>, \<open>FloatText\<close>, \<open>Glob\<close>: the parsers and printers of \<open>commands/common.py\<close>: \<^verbatim>\<open>string2ll\<close>,
    \<^verbatim>\<open>_parse_float\<close> and \<^verbatim>\<open>_format_float\<close>, \<^verbatim>\<open>compile_glob\<close>.  \<open>Doubles\<close> holds binary64
    values as infinities and rationals, with round-half-even conversion.
  \<^item> \<open>Resp\<close>, \<open>HiredisReader\<close>: \<open>resp.py\<close>, the reply encoder and the pure-Python parser and reader with its buffer
    limit; and the engine over the C parser hiredis, which is an argument under the locale \<open>hiredis_reader\<close>,
    interpreted on the Python parser.
  \<^item> \<open>DataStore\<close>: \<open>data.py\<close>, the store with lazy expiry: the storage, the deadlines on the monotonic clock,
    the write generations, snapshot and restore on the wall clock.  \<open>peek\<close> is the map a client can see.
  \<^item> \<open>ZSetContainer\<close>: \<open>zset.py\<close>, the dictionary and the sorted list of a sorted set, with the loops of
    \<^verbatim>\<open>bisect\<close>.
  \<^item> \<open>PubSubHub\<close>: \<open>pubsub.py\<close> and the \<^verbatim>\<open>Session\<close> of \<open>commands/__init__.py\<close>.
  \<^item> \<open>Values\<close>, \<open>Server\<close>: the kinds of stored values, and the state all commands share (the record \<open>server\<close>:
    store, hub, sessions, current session, notification flags), with the write hook, keyspace notifications
    and \<^verbatim>\<open>expect_kind\<close>.  An \<open>env\<close> holds what a command takes from outside: one sample of both clocks,
    the iteration order of sets and the numbers \<^verbatim>\<open>random\<close> draws.
  \<^item> \<open>StringCmds\<close>, \<open>KeyspaceCmds\<close>, \<open>Lcs\<close> (\<open>commands/basic.py\<close>), \<open>ListCmds\<close> (\<open>commands/lists.py\<close>),
    \<open>SetCmds\<close> (\<open>commands/set.py\<close>), \<open>HashCmds\<close> (\<open>commands/hash.py\<close>), \<open>ZSetCmds\<close> and \<open>ZSetSpec\<close>
    (\<open>commands/zset.py\<close>), \<open>BitCmds\<close> and \<open>BitSpec\<close> (\<open>commands/bit.py\<close>), \<open>ServerCmds\<close> and \<open>ServerSpec\<close>
    (\<^verbatim>\<open>COMMAND\<close>, \<^verbatim>\<open>HELLO\<close>, \<^verbatim>\<open>CLIENT\<close>, \<^verbatim>\<open>CONFIG\<close>, \<^verbatim>\<open>INFO\<close>, \<^verbatim>\<open>INCRBYFLOAT\<close>), \<open>PubSubCmds\<close> (\<open>commands/pubsub.py\<close>, \<^verbatim>\<open>WATCH\<close>, \<^verbatim>\<open>UNWATCH\<close>): the handlers,
    under their names in the source, each a function from the environment, the arguments and the server to
    the new server and a reply or an error.  \<open>TypeSpec\<close> says for all families together that a key of another
    kind is refused.
  \<^item> \<open>Dispatch\<close>, \<open>CommandTable\<close>: \<open>commands/decorator.py\<close> and \<^verbatim>\<open>Commands.dispatch\<close>: casting and counting
    arguments, the subscribed mode, \<^verbatim>\<open>MULTI\<close>, \<^verbatim>\<open>EXEC\<close> and \<^verbatim>\<open>DISCARD\<close>, over the table of
    all commands, which takes the platform (the bitmaps and the host machine) as an argument.  The locale \<open>command_set\<close> is what the dispatcher relies on; its interpretation shows that
    every entry of the table keeps it.
  \<^item> \<open>Serving\<close>, \<open>Transactions\<close>: the connections of \<open>server_asyncio.py\<close> as a step relation (connect, receive
    bytes, disconnect) with its reachable states, and the guarantees of optimistic transactions.
  \<^item> \<open>FlowControl\<close>: the same connections seen as byte counts: pausing and resuming a client that does not read,
    and the limit on the backlog of a subscriber.
  \<^item> \<open>TrioServing\<close>: the connections of \<open>server_trio.py\<close>, two tasks each around a memory channel, as an interleaving
    of the tasks of all connections.
  \<^item> \<open>DbSnapshot\<close>: \<open>db.py\<close>, the dumper of \<open>server_asyncio.py\<close> and the boot of \<open>cli.py\<close>, as an
    interleaving of the event loop with dumps that worker threads have still to commit.
  \<^item> \<open>CommandLine\<close>, \<open>Lifecycle\<close>: \<open>cli.py\<close>, the options and their checks, and a whole process on a map of files,
    from the pid file over the socket and the database to the final dump, with \<^verbatim>\<open>amain\<close> of both backends,
    \<open>embed.py\<close> and the wait of \<open>testing.py\<close>.

  \<^bold>\<open>How state is kept.\<close>  Python mutates containers in place.  A handler that changes a stored object puts
  the new value back with \<open>data_mutate\<close>, which touches neither the deadline nor the generation; an
  assignment \<^verbatim>\<open>self.data[key] = v\<close> is \<open>data_setitem\<close>.  No two keys share an object, so nothing is lost.
  \<open>view\<close> is the keyspace a client sees: the live keys with value and deadline; the properties of the
  commands are equations between views.  \<open>safe\<close> is the frame every data command keeps: the store stays
  well-formed and the hub and the standing parts of the sessions are left alone.

  \<^bold>\<open>What is shown.\<close>  The reader and the encoder are inverse and the reader does not depend on how the bytes
  are cut; the store refines a map with deadlines; each command family is specified on maps, sets, lists,
  score maps or bytes, errors included; the dispatcher never lets a handler crash, answers every request,
  gates a subscribed connection and runs transactions all or nothing; the snapshot survives a restart and
  never brings back what was flushed; a process and an embedded server
  leave behind the files they should.  Where the code departs from its own comments, a property states what
  it does.

  \<^bold>\<open>Idealisations.\<close>  One clock sample is taken per request.  Text of \<^verbatim>\<open>str\<close> type is kept as its bytes; glob
  patterns match bytes, where the code goes through UTF-8 with surrogate escapes.  The sign of a zero score is
  dropped.  A Python set is a finite set with an arbitrary iteration order.  A request is a list of bulk
  strings.  Sending to a transport never fails.  Third-party code is left abstract: the operations on a
  bitmap of pyroaring are an argument under the contract \<open>bitmaps_ok\<close>, hiredis one under \<open>hiredis_reader\<close> (its
  error replies count as null), the facts \<^verbatim>\<open>INFO\<close> asks of the machine are a record, the events a process
  meets are another; sqlite, pickle, the transports of asyncio and the channels of trio are taken at their documented
  behaviour.  The session of a trio connection leaves the hub as soon as a protocol error ends its handler.
  Loops end by structural recursion or by a measure; the printer of floats tries 17 digits, as many as
  binary64 needs.

  \<^bold>\<open>Not modelled.\<close>  Forking, logging, the signal handlers and uvloop; the sockets themselves; the line the trio
  backend writes after a protocol error; the separator \<^verbatim>\<open>--\<close> of \<^verbatim>\<open>argparse\<close>; the subprocess, the
  handles and the fixture of \<open>testing.py\<close> and \<open>embed.py\<close>; the package entry.  They are effects on the operating
  system around the modelled server.
\<close>

end
